(* ===== verification/Netcode_Prelude.thy ===== *)
theory Netcode_Prelude
  imports Complex_Main "HOL-Library.Word" "HOL-Library.Monad_Syntax"
begin

unbundle bit_operations_syntax

text \<open>
  Shared vocabulary of the development: the machine types of the Go sources, the panic monad,
  the bounds-checked index, the counted \<open>for\<close> loop, the little-endian byte coding of words and
  the \<open>copy\<close> builtin, with the lemmas every component uses.

  \<^item> A Go panic is the value \<open>None\<close> of an \<open>option\<close>; code that can panic is written in the option
    monad. An \<open>error\<close> result is a value inside the option.
  \<^item> A fixed-size array \<open>[N]T\<close> of structs or scalars is a total function on \<open>nat\<close>; every index
    that is not a loop variable below the bound goes through \<open>idx N\<close>, which panics out of range.
    Byte arrays and byte slices are lists. A slice has no spare capacity: reading past its length
    is a panic of the model (the Go runtime panics past the capacity).
  \<^item> \<open>float64\<close> times are rationals (every finite \<open>float64\<close> is one): the arithmetic on them is exact
    here, and no theorem depends on rounding.
  \<^item> \<open>i32\<close> is a 32 bit word read with \<open>sint\<close>.
\<close>

type_synonym byte = "8 word"
type_synonym u8 = "8 word"
type_synonym u16 = "16 word"
type_synonym u32 = "32 word"
type_synonym u64 = "64 word"
type_synonym i32 = "32 word"
type_synonym float64 = rat
type_synonym 'a arr = "nat \<Rightarrow> 'a"

text \<open>
  The error values of the sources. The comment on each gives the message or variable it stands for.
\<close>

datatype error =
    KeyLengthError              \<comment> \<open>\<open>chacha20poly1305.New\<close>: bad key length\<close>
  | DecryptFailed               \<comment> \<open>\<open>errDecryptFailed\<close>\<close>
  | BadAddressType u8           \<comment> \<open>bad address type\<close>
  | PrivateTokenTooSmall        \<comment> \<open>buffer too small for private connect token\<close>
  | BadNumServerAddresses       \<comment> \<open>bad number of server addresses\<close>
  | ChallengeTokenTooSmall      \<comment> \<open>buffer too small for challenge token\<close>
  | BadTokenLength              \<comment> \<open>bad connect token buffer length\<close>
  | BadVersionInfo              \<comment> \<open>bad connect token version info\<close>
  | ExpiresBeforeCreated        \<comment> \<open>connect token expires before it was created\<close>
  | NumAddressesRange           \<comment> \<open>number of server addresses must be in [1,32]\<close>
  | AddressCountMismatch        \<comment> \<open>must pass the same number of public and internal addresses\<close>
  | PrivateKeyLength            \<comment> \<open>private key must be 32 bytes\<close>
  | UserDataLength              \<comment> \<open>user data must be at most 256 bytes\<close>
  | InvalidPort                 \<comment> \<open>invalid port in address\<close>
  | ParseAddressFailed          \<comment> \<open>failed to parse address\<close>

named_theorems netcode_simps \<open>unfolding rules shared by the component proofs\<close>
named_theorems inv_intros \<open>preservation lemmas of the component invariants\<close>

subsection \<open>Indexing, loops, search, copying\<close>

definition idx :: "nat \<Rightarrow> int \<Rightarrow> nat option" where
  "idx n i = (if 0 \<le> i \<and> i < int n then Some (nat i) else None)"

text \<open>\<open>for i := a; i < a + n; i++ { body }\<close>, where a panic of the body leaves the loop.\<close>

fun for_range :: "(nat \<Rightarrow> 's \<Rightarrow> 's option) \<Rightarrow> nat \<Rightarrow> nat \<Rightarrow> 's \<Rightarrow> 's option" where
  "for_range body i 0 s = Some s"
| "for_range body i (Suc n) s = do { s' \<leftarrow> body i s; for_range body (Suc i) n s' }"

text \<open>\<open>for i := 0; i < n; i++ { if p(i) { return i } }; return -1\<close>.\<close>

definition find_index :: "(nat \<Rightarrow> bool) \<Rightarrow> nat \<Rightarrow> int" where
  "find_index p n = (case find p [0..<n] of None \<Rightarrow> -1 | Some i \<Rightarrow> int i)"

text \<open>\<open>copy(buffer[pos:], data)\<close> for \<open>pos \<le> len(buffer)\<close>: at most the room left is written.\<close>

definition copy_at :: "'a list \<Rightarrow> nat \<Rightarrow> 'a list \<Rightarrow> 'a list" where
  "copy_at buf pos data = take pos buf @ take (length buf - pos) data @ drop (pos + length data) buf"

subsection \<open>Little-endian coding\<close>

primrec le_encode :: "nat \<Rightarrow> 'a::len word \<Rightarrow> byte list" where
  "le_encode 0 v = []"
| "le_encode (Suc n) v = ucast v # le_encode n (drop_bit 8 v)"

fun le_decode :: "byte list \<Rightarrow> 'a::len word" where
  "le_decode [] = 0"
| "le_decode (b # bs) = ucast b OR push_bit 8 (le_decode bs)"

subsection \<open>Lemmas\<close>

lemma idx_Some_iff [simp]: "idx n i = Some k \<longleftrightarrow> 0 \<le> i \<and> i < int n \<and> k = nat i"
  by (auto simp: idx_def)

lemma idx_int [simp]: "i < n \<Longrightarrow> idx n (int i) = Some i"
  by (simp add: idx_def)

lemma idx_in [simp]: "0 \<le> i \<Longrightarrow> i < int n \<Longrightarrow> idx n i = Some (nat i)"
  by (simp add: idx_def)

lemma idx_None_iff: "idx n i = None \<longleftrightarrow> \<not> (0 \<le> i \<and> i < int n)"
  by (simp add: idx_def)

lemma for_range_inv:
  assumes "\<And>i s. a \<le> i \<Longrightarrow> i < a + n \<Longrightarrow> P i s \<Longrightarrow> \<exists>s'. body i s = Some s' \<and> P (Suc i) s'"
    and "P a s"
  shows "\<exists>s'. for_range body a n s = Some s' \<and> P (a + n) s'"
  using assms
proof (induction n arbitrary: a s)
  case 0
  then show ?case by simp
next
  case (Suc n)
  from Suc.prems(1)[of a s] Suc.prems(2) obtain s1 where s1: "body a s = Some s1" "P (Suc a) s1"
    by auto
  have "\<exists>s'. for_range body (Suc a) n s1 = Some s' \<and> P (Suc a + n) s'"
    by (rule Suc.IH) (use Suc.prems(1) s1 in auto)
  with s1 show ?case by simp
qed

lemma for_range_preserves:
  assumes "for_range body a n s = Some s'"
    and "P s"
    and "\<And>i s s'. a \<le> i \<Longrightarrow> i < a + n \<Longrightarrow> P s \<Longrightarrow> body i s = Some s' \<Longrightarrow> P s'"
  shows "P s'"
  using assms
proof (induction n arbitrary: a s)
  case 0
  then show ?case by simp
next
  case (Suc n)
  from Suc.prems(1) obtain s1 where s1: "body a s = Some s1" "for_range body (Suc a) n s1 = Some s'"
    by (auto split: bind_splits)
  have "P s1" using Suc.prems(3)[of a s s1] Suc.prems(2) s1(1) by simp
  show ?case
  proof (rule Suc.IH [OF s1(2) \<open>P s1\<close>])
    fix i t t' assume "Suc a \<le> i" "i < Suc a + n" "P t" "body i t = Some t'"
    then show "P t'" using Suc.prems(3)[of i t t'] by simp
  qed
qed

lemma for_range_cong:
  assumes "\<And>i s. a \<le> i \<Longrightarrow> i < a + n \<Longrightarrow> f i s = g i s"
  shows "for_range f a n s = for_range g a n s"
  using assms
proof (induction n arbitrary: a s)
  case 0
  then show ?case by simp
next
  case (Suc n)
  have "for_range f (Suc a) n t = for_range g (Suc a) n t" for t
    by (rule Suc.IH) (use Suc.prems in simp)
  then have "for_range f (Suc a) n = for_range g (Suc a) n" by (rule ext)
  with Suc.prems[of a s] show ?case by simp
qed

lemma for_range_add:
  "for_range body a (m + n) s = do { s' \<leftarrow> for_range body a m s; for_range body (a + m) n s' }"
proof (induction m arbitrary: a s)
  case 0
  then show ?case by simp
next
  case (Suc m)
  then show ?case by (cases "body a s") auto
qed

lemma find_append: "find p (xs @ ys) = (case find p xs of None \<Rightarrow> find p ys | Some x \<Rightarrow> Some x)"
  by (induction xs) auto

lemma find_index_neg: "find_index p n = -1 \<longleftrightarrow> (\<forall>i<n. \<not> p i)"
proof (cases "find p [0..<n]")
  case None
  then have "\<forall>i<n. \<not> p i" by (auto simp: find_None_iff)
  with None show ?thesis by (simp add: find_index_def)
next
  case (Some i)
  then have "i < n \<and> p i" by (auto simp: find_Some_iff)
  with Some show ?thesis by (auto simp: find_index_def)
qed

lemma find_index_Some:
  assumes "find_index p n = k" and "k \<noteq> -1"
  shows "0 \<le> k \<and> nat k < n \<and> p (nat k) \<and> (\<forall>j<nat k. \<not> p j)"
proof -
  from assms obtain i where "find p [0..<n] = Some i" "k = int i"
    by (auto simp: find_index_def split: option.splits)
  then show ?thesis
    by (auto simp: find_Some_iff)
qed

lemma find_index_eq:
  assumes "i < n" and "p i" and "\<And>j. j < i \<Longrightarrow> \<not> p j"
  shows "find_index p n = int i"
proof -
  have "find_index p n \<noteq> -1" using assms(1,2) by (auto simp: find_index_neg)
  from find_index_Some[OF refl this] assms show ?thesis
    by (metis int_nat_eq linorder_neqE_nat)
qed

lemma find_index_range: "-1 \<le> find_index p n \<and> find_index p n < int n"
  by (cases "find_index p n = -1") (auto dest: find_index_Some[OF refl])

lemma find_index_Suc:
  "find_index p (Suc n) =
     (if find_index p n \<noteq> -1 then find_index p n else if p n then int n else -1)"
  by (auto simp: find_index_def find_append split: option.splits)

lemma length_copy_at [simp]: "pos \<le> length buf \<Longrightarrow> length (copy_at buf pos data) = length buf"
  by (simp add: copy_at_def)

lemma copy_at_fits:
  "pos + length data \<le> length buf \<Longrightarrow>
    copy_at buf pos data = take pos buf @ data @ drop (pos + length data) buf"
  by (simp add: copy_at_def)

lemma copy_at_copy_at:
  assumes "pos + length a + length b \<le> length buf"
  shows "copy_at (copy_at buf pos a) (pos + length a) b = copy_at buf pos (a @ b)"
  using assms by (simp add: copy_at_fits ac_simps)

lemma copy_at_Nil [simp]: "pos \<le> length buf \<Longrightarrow> copy_at buf pos [] = buf"
  by (simp add: copy_at_def)

lemma list_update_copy_at: "pos < length buf \<Longrightarrow> buf[pos := v] = copy_at buf pos [v]"
  by (simp add: copy_at_def upd_conv_take_nth_drop Cons_nth_drop_Suc)

lemma length_le_encode [simp]: "length (le_encode n v) = n"
  by (induction n arbitrary: v) auto

lemma le_encode_zero [simp]: "le_encode n 0 = replicate n 0"
  by (induction n) auto

lemma bit_le_decode_encode:
  "bit (le_decode (le_encode n (v::'a::len word)) :: 'a word) k \<longleftrightarrow> k < 8 * n \<and> bit v k"
proof (induction n arbitrary: v k)
  case 0
  then show ?case by simp
next
  case (Suc n)
  show ?case
  proof (cases "k < 8")
    case True
    then show ?thesis by (auto simp: bit_simps dest: bit_imp_le_length)
  next
    case False
    then have "bit (le_decode (le_encode n (drop_bit 8 v)) :: 'a word) (k - 8)
        \<longleftrightarrow> k - 8 < 8 * n \<and> bit v k"
      by (simp add: Suc bit_simps)
    with False show ?thesis
      by (auto simp: bit_simps dest: bit_imp_le_length)
  qed
qed

lemma le_decode_encode [simp]:
  assumes "LENGTH('a::len) \<le> 8 * n"
  shows "le_decode (le_encode n (v :: 'a word)) = v"
proof (rule bit_word_eqI)
  fix k assume "k < LENGTH('a)"
  with assms show "bit (le_decode (le_encode n v) :: 'a word) k \<longleftrightarrow> bit v k"
    by (simp add: bit_le_decode_encode)
qed

lemma le_decode_encode_bytes:
  assumes "drop_bit (8 * n) (v :: 'a::len word) = 0"
  shows "le_decode (le_encode n v) = v"
proof (rule bit_word_eqI)
  fix k assume k: "k < LENGTH('a)"
  show "bit (le_decode (le_encode n v) :: 'a word) k \<longleftrightarrow> bit v k"
  proof (cases "k < 8 * n")
    case True
    then show ?thesis by (simp add: bit_le_decode_encode)
  next
    case False
    have "bit (drop_bit (8 * n) v) (k - 8 * n) = bit v k"
      using False by (simp add: bit_simps)
    then show ?thesis using assms False by (simp add: bit_le_decode_encode)
  qed
qed

lemma le_encode_decode:
  assumes "8 * length bs \<le> LENGTH('a::len)"
  shows "le_encode (length bs) (le_decode bs :: 'a word) = bs"
  using assms
proof (induction bs)
  case Nil
  then show ?case by simp
next
  case (Cons b bs)
  let ?w = "le_decode bs :: 'a word"
  have len: "8 * length bs + 8 \<le> LENGTH('a)" using Cons.prems by simp
  have hd: "ucast (ucast b OR push_bit 8 ?w) = b"
    by (rule bit_word_eqI) (use len in \<open>auto simp: bit_simps\<close>)
  have small: "bit ?w k \<Longrightarrow> k < 8 * length bs" for k
  proof -
    assume b: "bit ?w k"
    have "le_decode (le_encode (length bs) ?w) = ?w" using Cons.IH len by simp
    with b bit_le_decode_encode[of "length bs" ?w k] show "k < 8 * length bs" by simp
  qed
  have tl: "drop_bit 8 (ucast b OR push_bit 8 ?w) = ?w"
    by (rule bit_word_eqI)
      (use len in \<open>auto simp: bit_simps dest: small bit_imp_le_length\<close>)
  have "le_encode (length (b # bs)) (le_decode (b # bs) :: 'a word) = b # le_encode (length bs) ?w"
    by (simp only: list.size add_Suc_right le_encode.simps le_decode.simps hd tl add_0_right)
  then show ?case using Cons.IH len by simp
qed

end
