(* ===== verification/Machine.thy ===== *)
theory Machine
  imports Netcode_Prelude
begin

text \<open>
  The contract shared by the stateful components: a set of initial states, the calls of the
  interface as data, their execution, where \<open>None\<close> is a panic, and the calls a state panics on. The
  locale \<open>machine\<close> asks for an invariant under which every other call returns and keeps the invariant,
  and under which the named calls do panic. It gives that in every state reached through the interface
  a call panics exactly when it is one of those. It is interpreted by the server, the client and the
  network simulator.
\<close>

inductive reachable :: "('s \<Rightarrow> bool) \<Rightarrow> ('c \<Rightarrow> bool) \<Rightarrow> ('c \<Rightarrow> 's \<Rightarrow> 's option) \<Rightarrow> 's \<Rightarrow> bool"
  for init typed exec where
  created: "init s \<Longrightarrow> reachable init typed exec s"
| called: "reachable init typed exec s \<Longrightarrow> typed c \<Longrightarrow> exec c s = Some s' \<Longrightarrow> reachable init typed exec s'"

fun run :: "('c \<Rightarrow> 's \<Rightarrow> 's option) \<Rightarrow> 'c list \<Rightarrow> 's \<Rightarrow> 's option" where
  "run exec [] s = Some s"
| "run exec (c # cs) s = do { s \<leftarrow> exec c s; run exec cs s }"

lemma reachable_run:
  "reachable init typed exec s \<Longrightarrow> list_all typed cs \<Longrightarrow> run exec cs s = Some s' \<Longrightarrow> reachable init typed exec s'"
  by (induction cs arbitrary: s) (auto split: bind_splits intro: reachable.called)

locale machine =
  fixes init :: "'s \<Rightarrow> bool" and typed :: "'c \<Rightarrow> bool" and exec :: "'c \<Rightarrow> 's \<Rightarrow> 's option" and inv :: "'s \<Rightarrow> bool"
    and fails :: "'c \<Rightarrow> 's \<Rightarrow> bool"
  assumes init_inv: "init s \<Longrightarrow> inv s"
    and exec_inv: "inv s \<Longrightarrow> typed c \<Longrightarrow> \<not> fails c s \<Longrightarrow> \<exists>s'. exec c s = Some s' \<and> inv s'"
    and exec_fails: "inv s \<Longrightarrow> typed c \<Longrightarrow> fails c s \<Longrightarrow> exec c s = None"
begin

lemma exec_keeps: "inv s \<Longrightarrow> typed c \<Longrightarrow> exec c s = Some s' \<Longrightarrow> inv s'"
  using exec_inv[of s c] exec_fails[of s c] by auto

lemma run_inv: "inv s \<Longrightarrow> list_all typed cs \<Longrightarrow> run exec cs s = Some s' \<Longrightarrow> inv s'"
  by (induction cs arbitrary: s) (auto split: bind_splits intro: exec_keeps)

lemma reach_inv: "reachable init typed exec s \<Longrightarrow> inv s"
  by (induction rule: reachable.induct) (auto intro: init_inv exec_keeps)

lemma stuck_iff: "reachable init typed exec s \<Longrightarrow> typed c \<Longrightarrow> exec c s = None \<longleftrightarrow> fails c s"
  using exec_inv[of s c] exec_fails[of s c] reach_inv[of s] by (cases "fails c s") auto

text \<open>A property that every call keeps holds along every run.\<close>

lemma run_keeps:
  assumes "inv s" and "list_all (\<lambda>c. typed c \<and> ok c) cs" and "run exec cs s = Some s'" and "P s"
    and "\<And>c s s'. inv s \<Longrightarrow> typed c \<Longrightarrow> ok c \<Longrightarrow> exec c s = Some s' \<Longrightarrow> P s \<Longrightarrow> P s'"
  shows "P s'"
  using assms(1-4)
proof (induction cs arbitrary: s)
  case (Cons c cs)
  then obtain s1 where "exec c s = Some s1" "run exec cs s1 = Some s'" "inv s1"
    using exec_keeps[of s c] by (auto split: bind_splits)
  with Cons assms(5)[of s c s1] show ?case by simp
qed simp

end

end
