(* ===== verification/Buffer.thy ===== *)
theory Buffer
  imports Netcode_Prelude
begin

text \<open>
  \<^verbatim>\<open>buffer.go\<close>: the writer and reader cursors over a byte slice. Every operation panics (\<open>None\<close>)
  past the end of its buffer. The interface of the serialised fields is the locale \<open>codec\<close>: a
  \<open>put\<close> that emits an encoding, a \<open>get\<close> that consumes it. Round trips are proved once there
  and interpreted for the integers, the byte arrays and, in theory \<open>Token\<close>, for addresses.
\<close>

record writer =
  wbuffer :: "byte list"
  wpos :: nat

definition writer_uint8 :: "writer \<Rightarrow> u8 \<Rightarrow> writer option" where
  "writer_uint8 w value =
     (if wpos w < length (wbuffer w)
      then Some (w\<lparr>wbuffer := (wbuffer w)[wpos w := value], wpos := wpos w + 1\<rparr>)
      else None)"

definition writer_uint16 :: "writer \<Rightarrow> u16 \<Rightarrow> writer option" where
  "writer_uint16 w value =
     (if wpos w + 2 \<le> length (wbuffer w)
      then Some (w\<lparr>wbuffer := copy_at (wbuffer w) (wpos w) (le_encode 2 value), wpos := wpos w + 2\<rparr>)
      else None)"

definition writer_uint32 :: "writer \<Rightarrow> u32 \<Rightarrow> writer option" where
  "writer_uint32 w value =
     (if wpos w + 4 \<le> length (wbuffer w)
      then Some (w\<lparr>wbuffer := copy_at (wbuffer w) (wpos w) (le_encode 4 value), wpos := wpos w + 4\<rparr>)
      else None)"

definition writer_uint64 :: "writer \<Rightarrow> u64 \<Rightarrow> writer option" where
  "writer_uint64 w value =
     (if wpos w + 8 \<le> length (wbuffer w)
      then Some (w\<lparr>wbuffer := copy_at (wbuffer w) (wpos w) (le_encode 8 value), wpos := wpos w + 8\<rparr>)
      else None)"

text \<open>\<open>copy\<close> writes at most the room left, but the position advances by the whole data.\<close>

definition writer_bytes :: "writer \<Rightarrow> byte list \<Rightarrow> writer option" where
  "writer_bytes w data =
     (if wpos w \<le> length (wbuffer w)
      then Some (w\<lparr>wbuffer := copy_at (wbuffer w) (wpos w) data, wpos := wpos w + length data\<rparr>)
      else None)"

record reader =
  rbuffer :: "byte list"
  rpos :: nat

definition reader_uint8 :: "reader \<Rightarrow> (u8 \<times> reader) option" where
  "reader_uint8 r =
     (if rpos r < length (rbuffer r)
      then Some (rbuffer r ! rpos r, r\<lparr>rpos := rpos r + 1\<rparr>)
      else None)"

definition reader_uint16 :: "reader \<Rightarrow> (u16 \<times> reader) option" where
  "reader_uint16 r =
     (if rpos r + 2 \<le> length (rbuffer r)
      then Some (le_decode (take 2 (drop (rpos r) (rbuffer r))), r\<lparr>rpos := rpos r + 2\<rparr>)
      else None)"

definition reader_uint32 :: "reader \<Rightarrow> (u32 \<times> reader) option" where
  "reader_uint32 r =
     (if rpos r + 4 \<le> length (rbuffer r)
      then Some (le_decode (take 4 (drop (rpos r) (rbuffer r))), r\<lparr>rpos := rpos r + 4\<rparr>)
      else None)"

definition reader_uint64 :: "reader \<Rightarrow> (u64 \<times> reader) option" where
  "reader_uint64 r =
     (if rpos r + 8 \<le> length (rbuffer r)
      then Some (le_decode (take 8 (drop (rpos r) (rbuffer r))), r\<lparr>rpos := rpos r + 8\<rparr>)
      else None)"

text \<open>\<open>n\<close> is the length of the destination array.\<close>

definition reader_bytes :: "nat \<Rightarrow> reader \<Rightarrow> (byte list \<times> reader) option" where
  "reader_bytes n r =
     (if rpos r + n \<le> length (rbuffer r)
      then Some (take n (drop (rpos r) (rbuffer r)), r\<lparr>rpos := rpos r + n\<rparr>)
      else None)"

subsection \<open>Emitting and consuming runs of bytes\<close>

text \<open>What a sequence of successful writes amounts to, and what is left for a reader.\<close>

definition emit :: "writer \<Rightarrow> byte list \<Rightarrow> writer" where
  "emit w bs = w\<lparr>wbuffer := copy_at (wbuffer w) (wpos w) bs, wpos := wpos w + length bs\<rparr>"

definition fits :: "writer \<Rightarrow> nat \<Rightarrow> bool" where
  "fits w n \<longleftrightarrow> wpos w + n \<le> length (wbuffer w)"

definition holds :: "reader \<Rightarrow> byte list \<Rightarrow> bool" where
  "holds r bs \<longleftrightarrow> rpos r + length bs \<le> length (rbuffer r) \<and> take (length bs) (drop (rpos r) (rbuffer r)) = bs"

definition advance :: "reader \<Rightarrow> nat \<Rightarrow> reader" where
  "advance r n = r\<lparr>rpos := rpos r + n\<rparr>"

lemma wpos_emit [simp]: "wpos (emit w bs) = wpos w + length bs"
  by (simp add: emit_def)

lemma length_wbuffer_emit [simp]: "wpos w \<le> length (wbuffer w) \<Longrightarrow> length (wbuffer (emit w bs)) = length (wbuffer w)"
  by (simp add: emit_def)

lemma emit_emit: "fits w (length a + length b) \<Longrightarrow> emit (emit w a) b = emit w (a @ b)"
  by (simp add: emit_def fits_def copy_at_copy_at ac_simps)

lemma fits_emit [simp]: "fits w (length a) \<Longrightarrow> fits (emit w a) n \<longleftrightarrow> fits w (length a + n)"
  by (simp add: fits_def ac_simps)

lemma fits_le: "fits w n \<Longrightarrow> m \<le> n \<Longrightarrow> fits w m"
  by (simp add: fits_def)

lemma emit_start:
  "length bs \<le> length buf \<Longrightarrow>
    emit \<lparr>wbuffer = buf, wpos = 0\<rparr> bs = \<lparr>wbuffer = bs @ drop (length bs) buf, wpos = length bs\<rparr>"
  by (simp add: emit_def copy_at_fits)

lemma holds_append: "holds r (a @ b) \<longleftrightarrow> holds r a \<and> holds (advance r (length a)) b"
proof -
  have "take (length a + length b) xs = a @ b \<longleftrightarrow> take (length a) xs = a \<and> take (length b) (drop (length a) xs) = b"
    if "length a + length b \<le> length xs" for xs :: "byte list"
    using that by (auto simp: take_add append_eq_append_conv)
  from this[of "drop (rpos r) (rbuffer r)"] show ?thesis
    by (auto simp: holds_def advance_def ac_simps)
qed

lemma holds_start: "holds \<lparr>rbuffer = bs @ rest, rpos = 0\<rparr> bs"
  by (simp add: holds_def)

lemma holds_dropped: "holds \<lparr>rbuffer = pre @ bs @ rest, rpos = length pre\<rparr> bs"
  by (simp add: holds_def)

lemma advance_advance [simp]: "advance (advance r m) n = advance r (m + n)"
  by (simp add: advance_def ac_simps)

lemma rpos_advance [simp]: "rpos (advance r n) = rpos r + n"
  and rbuffer_advance [simp]: "rbuffer (advance r n) = rbuffer r"
  by (simp_all add: advance_def)

subsection \<open>The interface of a serialised field\<close>

locale codec =
  fixes put :: "writer \<Rightarrow> 'a \<Rightarrow> writer option"
    and get :: "reader \<Rightarrow> ('a \<times> reader) option"
    and enc :: "'a \<Rightarrow> byte list"
    and ok :: "'a \<Rightarrow> bool"
  assumes put_emit: "\<And>w x. ok x \<Longrightarrow> fits w (length (enc x)) \<Longrightarrow> put w x = Some (emit w (enc x))"
    and get_enc: "\<And>r x. ok x \<Longrightarrow> holds r (enc x) \<Longrightarrow> get r = Some (x, advance r (length (enc x)))"
begin

lemma enc_prefix_free:
  assumes "ok x" and "ok y" and "enc x @ as = enc y @ bs"
  shows "x = y"
proof -
  let ?r = "\<lparr>rbuffer = enc x @ as, rpos = 0\<rparr>"
  have "get ?r = Some (x, advance ?r (length (enc x)))"
    by (rule get_enc[OF assms(1) holds_start])
  moreover have "get ?r = Some (y, advance ?r (length (enc y)))"
    by (rule get_enc) (use assms holds_start[of "enc y" bs] in auto)
  ultimately show ?thesis by simp
qed

lemma roundtrip:
  assumes "ok x" and "fits w (length (enc x))"
  shows "\<exists>w'. put w x = Some w' \<and>
    get \<lparr>rbuffer = wbuffer w', rpos = wpos w\<rparr> = Some (x, \<lparr>rbuffer = wbuffer w', rpos = wpos w'\<rparr>)"
proof -
  let ?w = "emit w (enc x)"
  let ?r = "\<lparr>rbuffer = wbuffer ?w, rpos = wpos w\<rparr>"
  have "holds ?r (enc x)"
    using assms(2) by (simp add: holds_def emit_def fits_def copy_at_fits)
  from get_enc[OF assms(1) this] put_emit[OF assms] show ?thesis
    by (simp add: advance_def)
qed

text \<open>A loop that writes \<open>f i\<close> for each \<open>i\<close> in turn emits the concatenation.\<close>

lemma for_put:
  assumes "\<And>i. a \<le> i \<Longrightarrow> i < a + n \<Longrightarrow> ok (f i)"
    and "fits w (length (concat (map (\<lambda>i. enc (f i)) [a..<a + n])))"
  shows "for_range (\<lambda>i w. put w (f i)) a n w = Some (emit w (concat (map (\<lambda>i. enc (f i)) [a..<a + n])))"
  using assms
proof (induction n arbitrary: a w)
  case 0
  then show ?case by (simp add: emit_def fits_def)
next
  case (Suc n)
  let ?rest = "concat (map (\<lambda>i. enc (f i)) [Suc a..<Suc a + n])"
  have upt: "[a..<Suc (a + n)] = a # [Suc a..<Suc (a + n)]"
    by (simp add: upt_conv_Cons)
  have ok: "ok (f a)" using Suc.prems(1) by simp
  have fit: "fits w (length (enc (f a)) + length ?rest)"
    using Suc.prems(2) by (simp add: upt del: upt_Suc)
  have fit1: "fits w (length (enc (f a)))" using fit by (rule fits_le) simp
  have "for_range (\<lambda>i w. put w (f i)) (Suc a) n (emit w (enc (f a))) = Some (emit (emit w (enc (f a))) ?rest)"
    by (rule Suc.IH) (use Suc.prems(1) fit fit1 in \<open>auto simp del: upt_Suc\<close>)
  with put_emit[OF ok fit1] emit_emit[OF fit] show ?case
    by (simp add: upt del: upt_Suc)
qed

end

interpretation u8: codec writer_uint8 reader_uint8 "\<lambda>v. [v]" "\<lambda>_. True"
  by unfold_locales
    (auto simp: writer_uint8_def reader_uint8_def emit_def fits_def holds_def advance_def list_update_copy_at
      hd_drop_conv_nth take_Suc)

interpretation u16: codec writer_uint16 reader_uint16 "le_encode 2" "\<lambda>_. True"
  by unfold_locales
    (auto simp: writer_uint16_def reader_uint16_def emit_def fits_def advance_def holds_def)

interpretation u32: codec writer_uint32 reader_uint32 "le_encode 4" "\<lambda>_. True"
  by unfold_locales
    (auto simp: writer_uint32_def reader_uint32_def emit_def fits_def advance_def holds_def)

interpretation u64: codec writer_uint64 reader_uint64 "le_encode 8" "\<lambda>_. True"
  by unfold_locales
    (auto simp: writer_uint64_def reader_uint64_def emit_def fits_def advance_def holds_def)

interpretation fixed_bytes: codec writer_bytes "reader_bytes n" "\<lambda>v. v" "\<lambda>v. length v = n" for n
  by unfold_locales (auto simp: writer_bytes_def reader_bytes_def emit_def fits_def advance_def holds_def)

lemma writer_bytes_emit: "fits w (length bs) \<Longrightarrow> writer_bytes w bs = Some (emit w bs)"
  by (rule fixed_bytes.put_emit) simp_all

lemmas put_simps =
  u8.put_emit[OF TrueI] u16.put_emit[OF TrueI] u32.put_emit[OF TrueI] u64.put_emit[OF TrueI] writer_bytes_emit

lemma reader_bytes_holds: "holds r bs \<Longrightarrow> length bs = n \<Longrightarrow> reader_bytes n r = Some (bs, advance r n)"
  using fixed_bytes.get_enc[of bs n r] by simp

text \<open>The value read is determined by what the reader holds; \<open>rule\<close>-style facts, one per operation.\<close>

lemmas reader_uint8_holds = u8.get_enc[OF TrueI, simplified]
lemmas reader_uint16_holds = u16.get_enc[OF TrueI, simplified]
lemmas reader_uint32_holds = u32.get_enc[OF TrueI, simplified]
lemmas reader_uint64_holds = u64.get_enc[OF TrueI, simplified]

lemmas get_simps =
  reader_uint8_holds reader_uint16_holds reader_uint32_holds reader_uint64_holds reader_bytes_holds

end
