(* ===== verification/Netcode_Package.thy ===== *)
theory Netcode_Package
  imports Netcode_Prelude
begin

text \<open>
  \<^verbatim>\<open>netcode.go\<close>: the constants of the protocol, the version info, the client states and their
  names, and the disconnect reasons. Constants unfold by \<open>simp\<close>. Log output is not modelled.
\<close>

definition ConnectTokenBytes :: nat where [simp]: "ConnectTokenBytes = 2048"
definition KeyBytes :: nat where [simp]: "KeyBytes = 32"
definition MacBytes :: nat where [simp]: "MacBytes = 16"
definition UserDataBytes :: nat where [simp]: "UserDataBytes = 256"
definition MaxServersPerConnect :: nat where [simp]: "MaxServersPerConnect = 32"
definition MaxClients :: nat where [simp]: "MaxClients = 256"
definition MaxPacketSize :: nat where [simp]: "MaxPacketSize = 1200"

definition connectTokenNonceBytes :: nat where [simp]: "connectTokenNonceBytes = 24"
definition connectTokenPrivateBytes :: nat where [simp]: "connectTokenPrivateBytes = 1024"
definition challengeTokenBytes :: nat where [simp]: "challengeTokenBytes = 300"
definition versionInfoBytes :: nat where [simp]: "versionInfoBytes = 13"
definition maxPacketBytes :: nat where [simp]: "maxPacketBytes = 1300"
definition maxPayloadBytes :: nat where [simp]: "maxPayloadBytes = 1200"
definition maxAddressStringLength :: nat where [simp]: "maxAddressStringLength = 256"
definition packetQueueSize :: nat where [simp]: "packetQueueSize = 256"
definition replayProtectionBufferSize :: nat where [simp]: "replayProtectionBufferSize = 256"

text \<open>"NETCODE 1.02" with its null terminator.\<close>

definition versionInfo :: "byte list" where
  "versionInfo = [78, 69, 84, 67, 79, 68, 69, 32, 49, 46, 48, 50, 0]"

definition packetSendRate :: float64 where [simp]: "packetSendRate = 10"
definition numDisconnectPackets :: nat where [simp]: "numDisconnectPackets = 10"

text \<open>Client states are Go ints; negative values are error states.\<close>

definition ClientStateConnectTokenExpired :: int where [simp]: "ClientStateConnectTokenExpired = -6"
definition ClientStateInvalidConnectToken :: int where [simp]: "ClientStateInvalidConnectToken = -5"
definition ClientStateConnectionTimedOut :: int where [simp]: "ClientStateConnectionTimedOut = -4"
definition ClientStateConnectionResponseTimedOut :: int where
  [simp]: "ClientStateConnectionResponseTimedOut = -3"
definition ClientStateConnectionRequestTimedOut :: int where
  [simp]: "ClientStateConnectionRequestTimedOut = -2"
definition ClientStateConnectionDenied :: int where [simp]: "ClientStateConnectionDenied = -1"
definition ClientStateDisconnected :: int where [simp]: "ClientStateDisconnected = 0"
definition ClientStateSendingConnectionRequest :: int where
  [simp]: "ClientStateSendingConnectionRequest = 1"
definition ClientStateSendingConnectionResponse :: int where
  [simp]: "ClientStateSendingConnectionResponse = 2"
definition ClientStateConnected :: int where [simp]: "ClientStateConnected = 3"

definition ClientStateName :: "int \<Rightarrow> string" where
  "ClientStateName clientState =
     (if clientState = ClientStateConnectTokenExpired then ''connect token expired''
      else if clientState = ClientStateInvalidConnectToken then ''invalid connect token''
      else if clientState = ClientStateConnectionTimedOut then ''connection timed out''
      else if clientState = ClientStateConnectionRequestTimedOut then ''connection request timed out''
      else if clientState = ClientStateConnectionResponseTimedOut then ''connection response timed out''
      else if clientState = ClientStateConnectionDenied then ''connection denied''
      else if clientState = ClientStateDisconnected then ''disconnected''
      else if clientState = ClientStateSendingConnectionRequest then ''sending connection request''
      else if clientState = ClientStateSendingConnectionResponse then ''sending connection response''
      else if clientState = ClientStateConnected then ''connected''
      else ''???'')"

definition DisconnectReasonNone :: int where [simp]: "DisconnectReasonNone = 0"
definition DisconnectReasonTimedOut :: int where [simp]: "DisconnectReasonTimedOut = 1"
definition DisconnectReasonClientDisconnect :: int where [simp]: "DisconnectReasonClientDisconnect = 2"
definition DisconnectReasonServerDisconnect :: int where [simp]: "DisconnectReasonServerDisconnect = 3"

lemma length_versionInfo [simp]: "length versionInfo = 13"
  by (simp add: versionInfo_def)

end
