(* ===== verification/Crypto.thy ===== *)
theory Crypto
  imports Buffer Netcode_Package
begin

text \<open>
  \<^verbatim>\<open>crypto.go\<close>: authenticated encryption in place. The ciphers themselves
  (\<^verbatim>\<open>golang.org/x/crypto/chacha20poly1305\<close>) are not in the repository: they are the argument
  \<open>aead\<close> of every definition that uses them. \<open>aead_ok\<close> names what the code relies on, the
  documented behaviour of the construction (RFC 8439): a 16 byte tag is appended, opening a sealed
  message returns it, and opening succeeds only on the sealed form of the message it returns.
  No secrecy or unforgeability assumption is made anywhere in the development.
\<close>


record aead =
  seal :: "byte list \<Rightarrow> byte list \<Rightarrow> byte list \<Rightarrow> byte list \<Rightarrow> byte list"
  unseal :: "byte list \<Rightarrow> byte list \<Rightarrow> byte list \<Rightarrow> byte list \<Rightarrow> byte list option"

record crypto =
  chacha :: aead
  xchacha :: aead

definition aead_ok :: "aead \<Rightarrow> bool" where
  "aead_ok A \<longleftrightarrow>
     (\<forall>k n a p. length (seal A k n a p) = length p + MacBytes) \<and>
     (\<forall>k n a p. unseal A k n a (seal A k n a p) = Some p) \<and>
     (\<forall>k n a c p. unseal A k n a c = Some p \<longrightarrow> c = seal A k n a p)"

definition crypto_ok :: "crypto \<Rightarrow> bool" where
  "crypto_ok C \<longleftrightarrow> aead_ok (chacha C) \<and> aead_ok (xchacha C)"

text \<open>
  \<open>aead.Seal(message[:0], nonce, message[:messageLength], additional)\<close> after \<open>New(key)\<close>. The
  slice expression panics when \<open>messageLength\<close> exceeds the buffer, \<open>Seal\<close> panics on a nonce of
  the wrong size, and appends to \<open>message[:0]\<close>: in place when the buffer has room for the tag,
  into a fresh array (leaving the buffer as it was) otherwise.
\<close>

definition seal_in_place ::
  "nat \<Rightarrow> aead \<Rightarrow> byte list \<Rightarrow> nat \<Rightarrow> byte list \<Rightarrow> byte list \<Rightarrow> byte list \<Rightarrow> (error + byte list) option" where
  "seal_in_place nonceSize A message messageLength additional nonce key =
     (if length key \<noteq> KeyBytes then Some (Inl KeyLengthError)
      else if messageLength > length message \<or> length nonce \<noteq> nonceSize then None
      else let sealed = seal A key nonce additional (take messageLength message) in
        Some (Inr (if length sealed \<le> length message
                   then sealed @ drop (length sealed) message else message)))"

text \<open>
  \<open>aead.Open(message[:0], nonce, message[:messageLength], additional)\<close>: the plaintext replaces the
  front of the buffer, the bytes of the tag stay where they are.
\<close>

definition open_in_place ::
  "nat \<Rightarrow> aead \<Rightarrow> byte list \<Rightarrow> nat \<Rightarrow> byte list \<Rightarrow> byte list \<Rightarrow> byte list \<Rightarrow> (error + byte list) option" where
  "open_in_place nonceSize A message messageLength additional nonce key =
     (if length key \<noteq> KeyBytes then Some (Inl KeyLengthError)
      else if messageLength > length message \<or> length nonce \<noteq> nonceSize then None
      else case unseal A key nonce additional (take messageLength message) of
          None \<Rightarrow> Some (Inl DecryptFailed)
        | Some plain \<Rightarrow> Some (Inr (plain @ drop (length plain) message)))"

definition encryptAEADBigNonce ::
  "crypto \<Rightarrow> byte list \<Rightarrow> nat \<Rightarrow> byte list \<Rightarrow> byte list \<Rightarrow> byte list \<Rightarrow> (error + byte list) option" where
  "encryptAEADBigNonce C = seal_in_place 24 (xchacha C)"

definition decryptAEADBigNonce ::
  "crypto \<Rightarrow> byte list \<Rightarrow> nat \<Rightarrow> byte list \<Rightarrow> byte list \<Rightarrow> byte list \<Rightarrow> (error + byte list) option" where
  "decryptAEADBigNonce C = open_in_place 24 (xchacha C)"

definition encryptAEAD ::
  "crypto \<Rightarrow> byte list \<Rightarrow> nat \<Rightarrow> byte list \<Rightarrow> byte list \<Rightarrow> byte list \<Rightarrow> (error + byte list) option" where
  "encryptAEAD C = seal_in_place 12 (chacha C)"

definition decryptAEAD ::
  "crypto \<Rightarrow> byte list \<Rightarrow> nat \<Rightarrow> byte list \<Rightarrow> byte list \<Rightarrow> byte list \<Rightarrow> (error + byte list) option" where
  "decryptAEAD C = open_in_place 12 (chacha C)"

definition packetNonce :: "u64 \<Rightarrow> byte list option" where
  "packetNonce sequence = do {
     w \<leftarrow> writer_uint32 \<lparr>wbuffer = replicate 12 0, wpos = 0\<rparr> 0;
     w \<leftarrow> writer_uint64 w sequence;
     Some (wbuffer w) }"

text \<open>
  A concrete instance of the parameter, used to show that \<open>crypto_ok\<close> can hold: the message
  followed by a checksum of everything that is authenticated.
\<close>

definition checksum_tag :: "byte list \<Rightarrow> byte list \<Rightarrow> byte list \<Rightarrow> byte list \<Rightarrow> byte list" where
  "checksum_tag k n a p = replicate 15 0 @ [sum_list k + 3 * sum_list n + 5 * sum_list a + 7 * sum_list p]"

definition checksum_aead :: aead where
  "checksum_aead =
     \<lparr>seal = (\<lambda>k n a p. p @ checksum_tag k n a p),
      unseal = (\<lambda>k n a c.
        if 16 \<le> length c \<and> drop (length c - 16) c = checksum_tag k n a (take (length c - 16) c)
        then Some (take (length c - 16) c) else None)\<rparr>"

definition checksum_crypto :: crypto where
  "checksum_crypto = \<lparr>chacha = checksum_aead, xchacha = checksum_aead\<rparr>"

subsection \<open>Lemmas\<close>

lemma checksum_crypto_ok: "crypto_ok checksum_crypto"
proof -
  have split: "c = take (length c - 16) c @ t" if "drop (length c - 16) c = t" for c t :: "byte list"
    using that by auto
  have "aead_ok checksum_aead"
    by (auto simp: checksum_aead_def aead_ok_def checksum_tag_def intro!: split)
  then show ?thesis by (simp add: crypto_ok_def checksum_crypto_def)
qed

lemma aead_okD:
  assumes "aead_ok A"
  shows length_seal: "length (seal A k n a p) = length p + 16"
    and unseal_seal: "unseal A k n a (seal A k n a p) = Some p"
    and unseal_SomeD: "unseal A k n a c = Some p \<Longrightarrow> c = seal A k n a p"
  using assms by (auto simp: aead_ok_def)

lemma crypto_okD: "crypto_ok C \<Longrightarrow> aead_ok (chacha C)" "crypto_ok C \<Longrightarrow> aead_ok (xchacha C)"
  by (simp_all add: crypto_ok_def)

lemma packetNonce_eq [simp]: "packetNonce s = Some (replicate 4 0 @ le_encode 8 s)"
  by (simp add: packetNonce_def writer_uint32_def writer_uint64_def copy_at_def)

lemma seal_in_place_room:
  assumes "aead_ok A" and "length key = 32" and "length nonce = nonceSize"
    and "messageLength + 16 \<le> length message"
  shows "seal_in_place nonceSize A message messageLength additional nonce key =
    Some (Inr (seal A key nonce additional (take messageLength message) @ drop (messageLength + 16) message))"
  using assms by (simp add: seal_in_place_def length_seal Let_def)

lemma open_in_place_sealed:
  assumes "aead_ok A" and "length key = 32" and "length nonce = nonceSize"
    and "messageLength \<le> length message"
    and "take messageLength message = seal A key nonce additional plain"
  shows "open_in_place nonceSize A message messageLength additional nonce key =
    Some (Inr (plain @ drop (length plain) message))"
  using assms by (simp add: open_in_place_def unseal_seal)

lemma open_in_place_okD:
  assumes "aead_ok A"
    and "open_in_place nonceSize A message messageLength additional nonce key = Some (Inr out)"
  shows "\<exists>plain. take messageLength message = seal A key nonce additional plain \<and>
    out = plain @ drop (length plain) message \<and> length plain + 16 = messageLength \<and>
    messageLength \<le> length message"
proof -
  from assms(2) obtain plain where plain: "unseal A key nonce additional (take messageLength message) = Some plain"
    "out = plain @ drop (length plain) message" "messageLength \<le> length message"
    by (auto simp: open_in_place_def split: if_splits option.splits)
  from unseal_SomeD[OF assms(1) plain(1)] have "take messageLength message = seal A key nonce additional plain" .
  moreover from this have "length plain + 16 = messageLength"
    using length_seal[OF assms(1)] plain(3) by (metis length_take min.absorb2)
  ultimately show ?thesis using plain by blast
qed

lemma open_in_place_total:
  "length message \<ge> messageLength \<Longrightarrow> length nonce = nonceSize \<Longrightarrow>
    \<exists>r. open_in_place nonceSize A message messageLength additional nonce key = Some r"
  by (auto simp: open_in_place_def split: option.splits)

lemmas encrypt_defs = encryptAEADBigNonce_def decryptAEADBigNonce_def encryptAEAD_def decryptAEAD_def

text \<open>
  A packet nonce is built without running past its 12 bytes, and two different sequence
  numbers never give the same nonce.
\<close>

theorem packetNonce_injective:
  "packetNonce s \<noteq> None \<and> (packetNonce s = packetNonce t \<longleftrightarrow> s = t)"
proof -
  have "le_encode 8 s = le_encode 8 t \<Longrightarrow> s = t"
    using u64.enc_prefix_free[where x = s and y = t and as = "[]" and bs = "[]"] by simp
  then show ?thesis by auto
qed

end
