(* ===== verification/Address.thy ===== *)
theory Address
  imports Netcode_Prelude
begin

text \<open>
  \<^verbatim>\<open>address.go\<close>: network addresses, their equality and the port parser. \<open>Equal\<close> is a partial
  equivalence: it ignores the address bytes of the other family, and addresses of type
  \<open>AddressNone\<close> are equal to nothing. Locale \<open>address_eq\<close> states what the clients of \<open>Equal\<close>
  (the encryption manager, the connect token history, the server) rely on.
\<close>

definition AddressNone :: u8 where [simp]: "AddressNone = 0"
definition AddressIPv4 :: u8 where [simp]: "AddressIPv4 = 1"
definition AddressIPv6 :: u8 where [simp]: "AddressIPv6 = 2"

record Address =
  Type :: u8
  IPv4 :: "byte list"
  IPv6 :: "u16 list"
  Port :: u16

text \<open>The Go zero value \<open>Address{}\<close>.\<close>

definition zeroAddress :: Address where
  "zeroAddress = \<lparr>Type = AddressNone, IPv4 = replicate 4 0, IPv6 = replicate 8 0, Port = 0\<rparr>"

definition Equal :: "Address \<Rightarrow> Address \<Rightarrow> bool" where
  "Equal address other =
     (if Type address \<noteq> Type other then False
      else if Port address \<noteq> Port other then False
      else if Type address = AddressIPv4 then IPv4 address = IPv4 other
      else if Type address = AddressIPv6 then IPv6 address = IPv6 other
      else False)"

fun parsePort_loop :: "string \<Rightarrow> nat \<Rightarrow> nat option" where
  "parsePort_loop [] value = Some value"
| "parsePort_loop (c # s) value =
     (if of_char c < (48::nat) \<or> of_char c > (57::nat) then None
      else let value' = value * 10 + (of_char c - 48) in
        if value' > 65535 then None else parsePort_loop s value')"

definition parsePort :: "string \<Rightarrow> u16 option" where
  "parsePort s = (if s = [] then None else map_option of_nat (parsePort_loop s 0))"

text \<open>Byte arrays of the struct have the lengths of their types.\<close>

definition address_wf :: "Address \<Rightarrow> bool" where
  "address_wf a \<longleftrightarrow> length (IPv4 a) = 4 \<and> length (IPv6 a) = 8"

text \<open>The form the parser and the token reader produce: the other family is zero.\<close>

definition address_canonical :: "Address \<Rightarrow> bool" where
  "address_canonical a \<longleftrightarrow> address_wf a \<and>
     (Type a = AddressIPv4 \<and> IPv6 a = replicate 8 0 \<or> Type a = AddressIPv6 \<and> IPv4 a = replicate 4 0)"

subsection \<open>The contract of address equality\<close>

locale address_eq =
  fixes eq :: "'a \<Rightarrow> 'a \<Rightarrow> bool"
    and none :: 'a
  assumes eq_sym: "\<And>a b. eq a b \<Longrightarrow> eq b a"
    and eq_trans: "\<And>a b c. eq a b \<Longrightarrow> eq b c \<Longrightarrow> eq a c"
    and eq_none: "\<And>a. \<not> eq none a"
begin

lemma eq_none_right: "\<not> eq a none"
  using eq_sym eq_none by blast

lemma eq_cong: "eq a b \<Longrightarrow> eq a c \<longleftrightarrow> eq b c"
  using eq_sym eq_trans by blast

lemma eq_cong_right: "eq a b \<Longrightarrow> eq c a \<longleftrightarrow> eq c b"
  using eq_sym eq_trans by blast

lemma eq_refl_left: "eq a b \<Longrightarrow> eq a a"
  using eq_sym eq_trans by blast

end

lemma Equal_sym: "Equal a b \<Longrightarrow> Equal b a"
  by (auto simp: Equal_def split: if_splits)

lemma Equal_trans: "Equal a b \<Longrightarrow> Equal b c \<Longrightarrow> Equal a c"
  by (auto simp: Equal_def split: if_splits)

lemma Equal_none: "Type a = AddressNone \<Longrightarrow> \<not> Equal a b"
  by (auto simp: Equal_def)

lemma Equal_none_right: "Type b = AddressNone \<Longrightarrow> \<not> Equal a b"
  by (auto simp: Equal_def)

interpretation addr: address_eq Equal zeroAddress
  by unfold_locales (auto simp: zeroAddress_def Equal_none intro: Equal_sym Equal_trans)

lemma Equal_Type: "Equal a b \<Longrightarrow> Type a = Type b \<and> Type a \<noteq> AddressNone \<and> Type b \<noteq> AddressNone"
  by (auto simp: Equal_def split: if_splits)

lemma Equal_canonical: "address_canonical a \<Longrightarrow> address_canonical b \<Longrightarrow> Equal a b \<longleftrightarrow> a = b"
  by (cases a; cases b) (auto simp: Equal_def address_canonical_def)

lemma Type_zeroAddress [simp]: "Type zeroAddress = 0"
  by (simp add: zeroAddress_def)

lemma Equal_zero [simp]: "\<not> Equal zeroAddress a" "\<not> Equal a zeroAddress"
  by (simp_all add: Equal_none Equal_none_right)

subsection \<open>Ports\<close>

text \<open>The value of a digit string, by the usual positional reading.\<close>

definition digit :: "char \<Rightarrow> bool" where
  "digit c \<longleftrightarrow> 48 \<le> (of_char c :: nat) \<and> (of_char c :: nat) \<le> 57"

definition decimal :: "nat \<Rightarrow> string \<Rightarrow> nat" where
  "decimal = foldl (\<lambda>v c. v * 10 + (of_char c - 48))"

lemma decimal_Nil [simp]: "decimal v [] = v"
  and decimal_Cons [simp]: "decimal v (c # s) = decimal (v * 10 + (of_char c - 48)) s"
  by (simp_all add: decimal_def)

lemma decimal_ge: "v \<le> decimal v s"
proof (induction s arbitrary: v)
  case Nil
  then show ?case by simp
next
  case (Cons c s)
  have "v \<le> v * 10 + (of_char c - 48)" by simp
  also have "\<dots> \<le> decimal (v * 10 + (of_char c - 48)) s" by (rule Cons)
  finally show ?case by simp
qed

lemma parsePort_loop_eq:
  "v \<le> 65535 \<Longrightarrow>
    parsePort_loop s v = (if list_all digit s \<and> decimal v s \<le> 65535 then Some (decimal v s) else None)"
proof (induction s arbitrary: v)
  case Nil
  then show ?case by simp
next
  case (Cons c s)
  let ?v = "v * 10 + (of_char c - 48)"
  have step: "parsePort_loop (c # s) v =
      (if digit c then if 65535 < ?v then None else parsePort_loop s ?v else None)"
    by (auto simp: digit_def Let_def)
  have "?v \<le> decimal ?v s" by (rule decimal_ge)
  with Cons.IH[of ?v] show ?case by (simp only: step list.pred_inject(2) decimal_Cons) auto
qed

text \<open>
  A port is accepted exactly when it is a non-empty string of decimal digits whose value fits
  in 16 bits, and the result is that value; anything else is an error and never a truncation.
\<close>

theorem parsePort_spec:
  "parsePort s = Some p \<longleftrightarrow>
     s \<noteq> [] \<and> list_all digit s \<and> decimal 0 s \<le> 65535 \<and> unat p = decimal 0 s"
proof -
  have "of_nat n = q \<longleftrightarrow> unat q = n" if "n \<le> 65535" for n and q :: u16
    using that by (auto simp: unat_of_nat take_bit_nat_eq_self_iff)
  then show ?thesis
    by (auto simp: parsePort_def parsePort_loop_eq)
qed

end
