(* ===== verification/Token.thy ===== *)
theory Token
  imports Crypto Address
begin

text \<open>
  \<^verbatim>\<open>token.go\<close>: the private connect token, the challenge token and the public connect token, with
  their binary formats. The \<open>read\<close> methods fill the struct they are called on field by field: the
  model takes the old struct and returns it as the method leaves it, with the error if there is
  one. The format of each token is also given as a plain byte string (\<open>enc_...\<close>); the writers
  emit it, the readers invert it.
\<close>

record connectTokenPrivate =
  ctp_clientID :: u64
  ctp_timeoutSeconds :: i32
  ctp_numServerAddresses :: int
  ctp_serverAddresses :: "Address arr"
  ctp_clientToServerKey :: "byte list"
  ctp_serverToClientKey :: "byte list"
  ctp_userData :: "byte list"

definition zeroConnectTokenPrivate :: connectTokenPrivate where
  "zeroConnectTokenPrivate =
     \<lparr>ctp_clientID = 0, ctp_timeoutSeconds = 0, ctp_numServerAddresses = 0,
      ctp_serverAddresses = (\<lambda>_. zeroAddress),
      ctp_clientToServerKey = replicate KeyBytes 0, ctp_serverToClientKey = replicate KeyBytes 0,
      ctp_userData = replicate UserDataBytes 0\<rparr>"

text \<open>The two keys are what \<open>RandomBytes\<close> delivered.\<close>

definition generateConnectTokenPrivate ::
  "u64 \<Rightarrow> i32 \<Rightarrow> Address list \<Rightarrow> byte list \<Rightarrow> byte list \<Rightarrow> byte list \<Rightarrow> connectTokenPrivate" where
  "generateConnectTokenPrivate clientID timeoutSeconds serverAddresses userData randomKey1 randomKey2 =
     zeroConnectTokenPrivate
       \<lparr>ctp_clientID := clientID, ctp_timeoutSeconds := timeoutSeconds,
        ctp_numServerAddresses := int (length serverAddresses),
        ctp_serverAddresses := (\<lambda>i. if i < length serverAddresses \<and> i < MaxServersPerConnect
                                    then serverAddresses ! i else zeroAddress),
        ctp_clientToServerKey := randomKey1, ctp_serverToClientKey := randomKey2,
        ctp_userData := copy_at (replicate UserDataBytes 0) 0 userData\<rparr>"

definition writeAddress :: "writer \<Rightarrow> Address \<Rightarrow> writer option" where
  "writeAddress w address =
     (if Type address = AddressIPv4 then do {
        w \<leftarrow> writer_uint8 w AddressIPv4;
        w \<leftarrow> writer_bytes w (IPv4 address);
        writer_uint16 w (Port address) }
      else if Type address = AddressIPv6 then do {
        w \<leftarrow> writer_uint8 w AddressIPv6;
        w \<leftarrow> for_range (\<lambda>i w. writer_uint16 w (IPv6 address ! i)) 0 8 w;
        writer_uint16 w (Port address) }
      else None)"

definition readAddress :: "reader \<Rightarrow> Address \<Rightarrow> (error option \<times> Address \<times> reader) option" where
  "readAddress r address = do {
     (t, r) \<leftarrow> reader_uint8 r;
     let address = address\<lparr>Type := t\<rparr>;
     if t = AddressIPv4 then do {
       (ip, r) \<leftarrow> reader_bytes 4 r;
       let address = address\<lparr>IPv4 := ip\<rparr>;
       (port, r) \<leftarrow> reader_uint16 r;
       Some (None, address\<lparr>Port := port\<rparr>, r) }
     else if t = AddressIPv6 then do {
       (address, r) \<leftarrow> for_range (\<lambda>i (address, r). do {
           (group, r) \<leftarrow> reader_uint16 r;
           Some (address\<lparr>IPv6 := (IPv6 address)[i := group]\<rparr>, r) }) 0 8 (address, r);
       (port, r) \<leftarrow> reader_uint16 r;
       Some (None, address\<lparr>Port := port\<rparr>, r) }
     else Some (Some (BadAddressType t), address, r) }"

text \<open>The address loops of the two token formats, over the array \<open>[32]Address\<close>.\<close>

definition write_addresses :: "Address arr \<Rightarrow> int \<Rightarrow> writer \<Rightarrow> writer option" where
  "write_addresses addresses n w =
     for_range (\<lambda>i w. do { j \<leftarrow> idx MaxServersPerConnect (int i); writeAddress w (addresses j) }) 0 (nat n) w"

fun read_addresses :: "nat \<Rightarrow> nat \<Rightarrow> Address arr \<Rightarrow> reader \<Rightarrow> (error option \<times> Address arr \<times> reader) option" where
  "read_addresses i 0 addresses r = Some (None, addresses, r)"
| "read_addresses i (Suc n) addresses r = do {
     j \<leftarrow> idx MaxServersPerConnect (int i);
     (err, address, r) \<leftarrow> readAddress r (addresses j);
     let addresses = addresses(j := address);
     (case err of Some e \<Rightarrow> Some (Some e, addresses, r)
      | None \<Rightarrow> read_addresses (Suc i) n addresses r) }"

text \<open>\<open>clear(buffer[from:to])\<close>.\<close>

definition clear_range :: "byte list \<Rightarrow> nat \<Rightarrow> nat \<Rightarrow> byte list option" where
  "clear_range buffer from to =
     (if from \<le> to \<and> to \<le> length buffer
      then Some (take from buffer @ replicate (to - from) 0 @ drop to buffer) else None)"

definition connectTokenPrivate_write :: "connectTokenPrivate \<Rightarrow> byte list \<Rightarrow> byte list option" where
  "connectTokenPrivate_write token buffer = do {
     w \<leftarrow> writer_uint64 \<lparr>wbuffer = buffer, wpos = 0\<rparr> (ctp_clientID token);
     w \<leftarrow> writer_uint32 w (ctp_timeoutSeconds token);
     w \<leftarrow> writer_uint32 w (of_int (ctp_numServerAddresses token));
     w \<leftarrow> write_addresses (ctp_serverAddresses token) (ctp_numServerAddresses token) w;
     w \<leftarrow> writer_bytes w (ctp_clientToServerKey token);
     w \<leftarrow> writer_bytes w (ctp_serverToClientKey token);
     w \<leftarrow> writer_bytes w (ctp_userData token);
     clear_range (wbuffer w) (wpos w) connectTokenPrivateBytes }"

definition connectTokenPrivate_read ::
  "connectTokenPrivate \<Rightarrow> byte list \<Rightarrow> (error option \<times> connectTokenPrivate) option" where
  "connectTokenPrivate_read token buffer =
     (if length buffer < connectTokenPrivateBytes then Some (Some PrivateTokenTooSmall, token)
      else do {
        (clientID, r) \<leftarrow> reader_uint64 \<lparr>rbuffer = buffer, rpos = 0\<rparr>;
        let token = token\<lparr>ctp_clientID := clientID\<rparr>;
        (timeoutSeconds, r) \<leftarrow> reader_uint32 r;
        let token = token\<lparr>ctp_timeoutSeconds := timeoutSeconds\<rparr>;
        (n, r) \<leftarrow> reader_uint32 r;
        let token = token\<lparr>ctp_numServerAddresses := sint n\<rparr>;
        if ctp_numServerAddresses token \<le> 0 \<or> ctp_numServerAddresses token > int MaxServersPerConnect
        then Some (Some BadNumServerAddresses, token)
        else do {
          (err, addresses, r) \<leftarrow>
            read_addresses 0 (nat (ctp_numServerAddresses token)) (ctp_serverAddresses token) r;
          let token = token\<lparr>ctp_serverAddresses := addresses\<rparr>;
          case err of Some e \<Rightarrow> Some (Some e, token)
          | None \<Rightarrow> do {
              (key, r) \<leftarrow> reader_bytes KeyBytes r;
              let token = token\<lparr>ctp_clientToServerKey := key\<rparr>;
              (key, r) \<leftarrow> reader_bytes KeyBytes r;
              let token = token\<lparr>ctp_serverToClientKey := key\<rparr>;
              (userData, r) \<leftarrow> reader_bytes UserDataBytes r;
              Some (None, token\<lparr>ctp_userData := userData\<rparr>) } } })"

definition connectTokenAdditionalData :: "u64 \<Rightarrow> u64 \<Rightarrow> byte list option" where
  "connectTokenAdditionalData protocolID expireTimestamp = do {
     w \<leftarrow> writer_bytes \<lparr>wbuffer = replicate (versionInfoBytes + 8 + 8) 0, wpos = 0\<rparr> versionInfo;
     w \<leftarrow> writer_uint64 w protocolID;
     w \<leftarrow> writer_uint64 w expireTimestamp;
     Some (wbuffer w) }"

definition encryptConnectTokenPrivate ::
  "crypto \<Rightarrow> byte list \<Rightarrow> u64 \<Rightarrow> u64 \<Rightarrow> byte list \<Rightarrow> byte list \<Rightarrow> (error + byte list) option" where
  "encryptConnectTokenPrivate C buffer protocolID expireTimestamp nonce key = do {
     additional \<leftarrow> connectTokenAdditionalData protocolID expireTimestamp;
     encryptAEADBigNonce C buffer (connectTokenPrivateBytes - MacBytes) additional nonce key }"

definition decryptConnectTokenPrivate ::
  "crypto \<Rightarrow> byte list \<Rightarrow> u64 \<Rightarrow> u64 \<Rightarrow> byte list \<Rightarrow> byte list \<Rightarrow> (error + byte list) option" where
  "decryptConnectTokenPrivate C buffer protocolID expireTimestamp nonce key = do {
     additional \<leftarrow> connectTokenAdditionalData protocolID expireTimestamp;
     decryptAEADBigNonce C buffer connectTokenPrivateBytes additional nonce key }"

subsection \<open>Challenge token\<close>

record challengeToken =
  cht_clientID :: u64
  cht_userData :: "byte list"

definition zeroChallengeToken :: challengeToken where
  "zeroChallengeToken = \<lparr>cht_clientID = 0, cht_userData = replicate UserDataBytes 0\<rparr>"

definition challengeToken_write :: "challengeToken \<Rightarrow> byte list \<Rightarrow> byte list option" where
  "challengeToken_write token buffer = do {
     buffer \<leftarrow> clear_range buffer 0 challengeTokenBytes;
     w \<leftarrow> writer_uint64 \<lparr>wbuffer = buffer, wpos = 0\<rparr> (cht_clientID token);
     w \<leftarrow> writer_bytes w (cht_userData token);
     Some (wbuffer w) }"

definition challengeToken_read ::
  "challengeToken \<Rightarrow> byte list \<Rightarrow> (error option \<times> challengeToken) option" where
  "challengeToken_read token buffer =
     (if length buffer < challengeTokenBytes then Some (Some ChallengeTokenTooSmall, token)
      else do {
        (clientID, r) \<leftarrow> reader_uint64 \<lparr>rbuffer = buffer, rpos = 0\<rparr>;
        let token = token\<lparr>cht_clientID := clientID\<rparr>;
        (userData, r) \<leftarrow> reader_bytes UserDataBytes r;
        Some (None, token\<lparr>cht_userData := userData\<rparr>) })"

definition encryptChallengeToken ::
  "crypto \<Rightarrow> byte list \<Rightarrow> u64 \<Rightarrow> byte list \<Rightarrow> (error + byte list) option" where
  "encryptChallengeToken C buffer sequence key = do {
     nonce \<leftarrow> packetNonce sequence;
     encryptAEAD C buffer (challengeTokenBytes - MacBytes) [] nonce key }"

definition decryptChallengeToken ::
  "crypto \<Rightarrow> byte list \<Rightarrow> u64 \<Rightarrow> byte list \<Rightarrow> (error + byte list) option" where
  "decryptChallengeToken C buffer sequence key = do {
     nonce \<leftarrow> packetNonce sequence;
     decryptAEAD C buffer challengeTokenBytes [] nonce key }"

subsection \<open>Public connect token\<close>

record connectToken =
  ct_protocolID :: u64
  ct_createTimestamp :: u64
  ct_expireTimestamp :: u64
  ct_nonce :: "byte list"
  ct_privateData :: "byte list"
  ct_timeoutSeconds :: i32
  ct_numServerAddresses :: int
  ct_serverAddresses :: "Address arr"
  ct_clientToServerKey :: "byte list"
  ct_serverToClientKey :: "byte list"

definition zeroConnectToken :: connectToken where
  "zeroConnectToken =
     \<lparr>ct_protocolID = 0, ct_createTimestamp = 0, ct_expireTimestamp = 0,
      ct_nonce = replicate connectTokenNonceBytes 0,
      ct_privateData = replicate connectTokenPrivateBytes 0,
      ct_timeoutSeconds = 0, ct_numServerAddresses = 0, ct_serverAddresses = (\<lambda>_. zeroAddress),
      ct_clientToServerKey = replicate KeyBytes 0, ct_serverToClientKey = replicate KeyBytes 0\<rparr>"

definition connectToken_write :: "connectToken \<Rightarrow> byte list \<Rightarrow> byte list option" where
  "connectToken_write token buffer = do {
     w \<leftarrow> writer_bytes \<lparr>wbuffer = buffer, wpos = 0\<rparr> versionInfo;
     w \<leftarrow> writer_uint64 w (ct_protocolID token);
     w \<leftarrow> writer_uint64 w (ct_createTimestamp token);
     w \<leftarrow> writer_uint64 w (ct_expireTimestamp token);
     w \<leftarrow> writer_bytes w (ct_nonce token);
     w \<leftarrow> writer_bytes w (ct_privateData token);
     w \<leftarrow> writer_uint32 w (ct_timeoutSeconds token);
     w \<leftarrow> writer_uint32 w (of_int (ct_numServerAddresses token));
     w \<leftarrow> write_addresses (ct_serverAddresses token) (ct_numServerAddresses token) w;
     w \<leftarrow> writer_bytes w (ct_clientToServerKey token);
     w \<leftarrow> writer_bytes w (ct_serverToClientKey token);
     clear_range (wbuffer w) (wpos w) ConnectTokenBytes }"

definition connectToken_read ::
  "connectToken \<Rightarrow> byte list \<Rightarrow> (error option \<times> connectToken) option" where
  "connectToken_read token buffer =
     (if length buffer \<noteq> ConnectTokenBytes then Some (Some BadTokenLength, token)
      else do {
        (packetVersionInfo, r) \<leftarrow> reader_bytes versionInfoBytes \<lparr>rbuffer = buffer, rpos = 0\<rparr>;
        if packetVersionInfo \<noteq> versionInfo then Some (Some BadVersionInfo, token)
        else do {
          (protocolID, r) \<leftarrow> reader_uint64 r;
          let token = token\<lparr>ct_protocolID := protocolID\<rparr>;
          (createTimestamp, r) \<leftarrow> reader_uint64 r;
          let token = token\<lparr>ct_createTimestamp := createTimestamp\<rparr>;
          (expireTimestamp, r) \<leftarrow> reader_uint64 r;
          let token = token\<lparr>ct_expireTimestamp := expireTimestamp\<rparr>;
          if ct_createTimestamp token > ct_expireTimestamp token
          then Some (Some ExpiresBeforeCreated, token)
          else do {
            (nonce, r) \<leftarrow> reader_bytes connectTokenNonceBytes r;
            let token = token\<lparr>ct_nonce := nonce\<rparr>;
            (privateData, r) \<leftarrow> reader_bytes connectTokenPrivateBytes r;
            let token = token\<lparr>ct_privateData := privateData\<rparr>;
            (timeoutSeconds, r) \<leftarrow> reader_uint32 r;
            let token = token\<lparr>ct_timeoutSeconds := timeoutSeconds\<rparr>;
            (n, r) \<leftarrow> reader_uint32 r;
            let token = token\<lparr>ct_numServerAddresses := sint n\<rparr>;
            if ct_numServerAddresses token \<le> 0 \<or> ct_numServerAddresses token > int MaxServersPerConnect
            then Some (Some BadNumServerAddresses, token)
            else do {
              (err, addresses, r) \<leftarrow>
                read_addresses 0 (nat (ct_numServerAddresses token)) (ct_serverAddresses token) r;
              let token = token\<lparr>ct_serverAddresses := addresses\<rparr>;
              case err of Some e \<Rightarrow> Some (Some e, token)
              | None \<Rightarrow> do {
                  (key, r) \<leftarrow> reader_bytes KeyBytes r;
                  let token = token\<lparr>ct_clientToServerKey := key\<rparr>;
                  (key, r) \<leftarrow> reader_bytes KeyBytes r;
                  Some (None, token\<lparr>ct_serverToClientKey := key\<rparr>) } } } } })"

subsection \<open>Addresses on the wire\<close>

definition enc_groups :: "(nat \<Rightarrow> u16) \<Rightarrow> nat \<Rightarrow> nat \<Rightarrow> byte list" where
  "enc_groups g i n = concat (map (\<lambda>k. le_encode 2 (g k)) [i..<i + n])"

definition enc_address :: "Address \<Rightarrow> byte list" where
  "enc_address a =
     (if Type a = AddressIPv4 then AddressIPv4 # IPv4 a @ le_encode 2 (Port a)
      else AddressIPv6 # enc_groups (\<lambda>k. IPv6 a ! k) 0 8 @ le_encode 2 (Port a))"

lemma length_enc_groups [simp]: "length (enc_groups g i n) = 2 * n"
  by (induction n) (auto simp: enc_groups_def)

lemma enc_groups_Suc: "enc_groups g i (Suc n) = le_encode 2 (g i) @ enc_groups g (Suc i) n"
proof -
  have "[i..<i + Suc n] = i # [Suc i..<Suc i + n]" by (simp add: upt_conv_Cons)
  then show ?thesis by (simp add: enc_groups_def)
qed

lemma read_groups:
  assumes "holds r (enc_groups g i n)" and "i + n \<le> length (IPv6 a)"
  shows "for_range (\<lambda>i (address, r). do {
           (group, r) \<leftarrow> reader_uint16 r;
           Some (address\<lparr>IPv6 := (IPv6 address)[i := group]\<rparr>, r) }) i n (a, r) =
    Some (a\<lparr>IPv6 := take i (IPv6 a) @ map g [i..<i + n] @ drop (i + n) (IPv6 a)\<rparr>, advance r (2 * n))"
  using assms
proof (induction n arbitrary: i a r)
  case 0
  then show ?case by (simp add: advance_def)
next
  case (Suc n)
  let ?a = "a\<lparr>IPv6 := (IPv6 a)[i := g i]\<rparr>"
  from Suc.prems(1) have h: "holds r (le_encode 2 (g i))" "holds (advance r 2) (enc_groups g (Suc i) n)"
    by (simp_all add: enc_groups_Suc holds_append)
  have upd: "take (Suc i) ((IPv6 a)[i := g i]) = take i (IPv6 a) @ [g i]"
    using Suc.prems(2) by (simp add: take_Suc_conv_app_nth)
  have upt: "[i..<Suc (i + n)] = i # [Suc i..<Suc (i + n)]"
    by (simp add: upt_conv_Cons)
  from Suc.IH[OF h(2), of ?a] Suc.prems(2) u16.get_enc[OF TrueI h(1)] show ?case
    by (simp add: upd upt del: upt_Suc)
qed

lemma write_groups:
  assumes "fits w (2 * n)"
  shows "for_range (\<lambda>i w. writer_uint16 w (g i)) 0 n w = Some (emit w (enc_groups g 0 n))"
  using u16.for_put[where a = 0 and n = n and f = g and w = w] assms length_enc_groups[of g 0 n]
  by (simp add: enc_groups_def)

definition getAddress :: "reader \<Rightarrow> (Address \<times> reader) option" where
  "getAddress r = (case readAddress r zeroAddress of Some (None, a, r') \<Rightarrow> Some (a, r') | _ \<Rightarrow> None)"

lemma readAddress_enc:
  assumes "address_canonical a" and "holds r (enc_address a)"
  shows "readAddress r zeroAddress = Some (None, a, advance r (length (enc_address a)))"
proof (cases "Type a = AddressIPv4")
  case True
  with assms(2) have "holds r ([1] @ IPv4 a @ le_encode 2 (Port a))"
    by (simp add: enc_address_def)
  then have h: "holds r [1]" "holds (advance r 1) (IPv4 a)"
    "holds (advance r (Suc (length (IPv4 a)))) (le_encode 2 (Port a))"
    unfolding holds_append by simp_all
  from True assms(1) have a: "length (IPv4 a) = 4" "a = \<lparr>Type = 1, IPv4 = IPv4 a, IPv6 = replicate 8 0, Port = Port a\<rparr>"
    by (auto simp: address_canonical_def address_wf_def)
  have "readAddress r zeroAddress = Some (None, \<lparr>Type = 1, IPv4 = IPv4 a, IPv6 = replicate 8 0, Port = Port a\<rparr>, advance r 7)"
    using h a(1) by (simp add: readAddress_def get_simps zeroAddress_def)
  with True a show ?thesis by (simp add: enc_address_def)
next
  case False
  with assms(1) have t: "Type a = 2" "length (IPv6 a) = 8" "IPv4 a = replicate 4 0"
    by (auto simp: address_canonical_def address_wf_def)
  with assms(2) have "holds r ([2] @ enc_groups (\<lambda>k. IPv6 a ! k) 0 8 @ le_encode 2 (Port a))"
    by (simp add: enc_address_def)
  then have h: "holds r [2]" "holds (advance r 1) (enc_groups (\<lambda>k. IPv6 a ! k) 0 8)"
    "holds (advance r 17) (le_encode 2 (Port a))"
    unfolding holds_append by simp_all
  have "map (\<lambda>k. IPv6 a ! k) [0..<8] = IPv6 a"
    using t(2) map_nth[of "IPv6 a"] by simp
  then have "readAddress r zeroAddress = Some (None, \<lparr>Type = 2, IPv4 = replicate 4 0, IPv6 = IPv6 a, Port = Port a\<rparr>, advance r 19)"
    using h by (simp add: readAddress_def get_simps read_groups zeroAddress_def)
  with t show ?thesis by (simp add: enc_address_def)
qed

lemma writeAddress_emit:
  assumes "address_canonical a" and "fits w (length (enc_address a))"
  shows "writeAddress w a = Some (emit w (enc_address a))"
proof (cases "Type a = AddressIPv4")
  case True
  with assms show ?thesis
    by (auto simp: writeAddress_def put_simps enc_address_def emit_emit fits_le)
next
  case False
  with assms show ?thesis
    by (auto simp: writeAddress_def put_simps write_groups enc_address_def emit_emit fits_le
        address_canonical_def)
qed

interpretation addr_codec: codec writeAddress getAddress enc_address address_canonical
  by unfold_locales (simp_all add: writeAddress_emit getAddress_def readAddress_enc)

lemma length_enc_address: "address_canonical a \<Longrightarrow> length (enc_address a) \<le> 19"
  by (auto simp: enc_address_def address_canonical_def address_wf_def)

definition enc_addresses :: "Address arr \<Rightarrow> nat \<Rightarrow> nat \<Rightarrow> byte list" where
  "enc_addresses A i n = concat (map (\<lambda>k. enc_address (A k)) [i..<i + n])"

definition addresses_ok :: "Address arr \<Rightarrow> int \<Rightarrow> bool" where
  "addresses_ok A n \<longleftrightarrow> 0 < n \<and> n \<le> int MaxServersPerConnect \<and>
     (\<forall>i<nat n. address_canonical (A i)) \<and> (\<forall>i\<ge>nat n. A i = zeroAddress)"

lemma enc_addresses_Suc: "enc_addresses A i (Suc n) = enc_address (A i) @ enc_addresses A (Suc i) n"
proof -
  have "[i..<i + Suc n] = i # [Suc i..<Suc i + n]" by (simp add: upt_conv_Cons)
  then show ?thesis by (simp add: enc_addresses_def)
qed

lemma length_enc_addresses:
  assumes "\<And>k. i \<le> k \<Longrightarrow> k < i + n \<Longrightarrow> address_canonical (A k)"
  shows "length (enc_addresses A i n) \<le> 19 * n"
  using assms
proof (induction n arbitrary: i)
  case 0
  then show ?case by (simp add: enc_addresses_def)
next
  case (Suc n)
  have "length (enc_addresses A (Suc i) n) \<le> 19 * n"
    by (rule Suc.IH) (use Suc.prems in simp)
  moreover have "length (enc_address (A i)) \<le> 19"
    using Suc.prems[of i] by (simp add: length_enc_address)
  ultimately show ?case by (simp add: enc_addresses_Suc)
qed

lemma addresses_okD:
  assumes "addresses_ok A n"
  shows "length (enc_addresses A 0 (nat n)) \<le> 608"
    and "sint (of_int n :: 32 word) = n"
proof -
  from assms have n: "0 < n" "n \<le> 32" by (simp_all add: addresses_ok_def)
  have "length (enc_addresses A 0 (nat n)) \<le> 19 * nat n"
    by (rule length_enc_addresses) (use assms in \<open>simp add: addresses_ok_def\<close>)
  also have "\<dots> \<le> 608" using n by linarith
  finally show "length (enc_addresses A 0 (nat n)) \<le> 608" .
  show "sint (of_int n :: 32 word) = n"
    using n by (simp add: signed_of_int signed_take_bit_int_eq_self)
qed

lemma write_addresses_emit:
  assumes "addresses_ok A n" and "fits w (length (enc_addresses A 0 (nat n)))"
  shows "write_addresses A n w = Some (emit w (enc_addresses A 0 (nat n)))"
proof -
  have n: "nat n \<le> 32" using assms(1) by (auto simp: addresses_ok_def)
  have "write_addresses A n w = for_range (\<lambda>i w. writeAddress w (A i)) 0 (nat n) w"
    unfolding write_addresses_def
    by (rule for_range_cong) (use n in simp)
  also have "\<dots> = Some (emit w (enc_addresses A 0 (nat n)))"
    using addr_codec.for_put[where a = 0 and n = "nat n" and f = A and w = w] assms
    by (simp add: enc_addresses_def addresses_ok_def)
  finally show ?thesis .
qed

lemma read_addresses_enc:
  assumes "holds r (enc_addresses A i n)" and "i + n \<le> 32"
    and "\<And>k. i \<le> k \<Longrightarrow> k < i + n \<Longrightarrow> address_canonical (A k)"
    and "\<And>k. i \<le> k \<Longrightarrow> B k = zeroAddress"
  shows "read_addresses i n B r =
    Some (None, (\<lambda>k. if i \<le> k \<and> k < i + n then A k else B k), advance r (length (enc_addresses A i n)))"
  using assms
proof (induction n arbitrary: i B r)
  case 0
  then show ?case by (auto simp: enc_addresses_def advance_def fun_eq_iff)
next
  case (Suc n)
  let ?B = "B(i := A i)"
  let ?r = "advance r (length (enc_address (A i)))"
  from Suc.prems(1) have h: "holds r (enc_address (A i))" "holds ?r (enc_addresses A (Suc i) n)"
    by (simp_all add: enc_addresses_Suc holds_append)
  have "read_addresses (Suc i) n ?B ?r = Some (None, (\<lambda>k. if Suc i \<le> k \<and> k < Suc i + n then A k else ?B k),
      advance ?r (length (enc_addresses A (Suc i) n)))"
    by (rule Suc.IH[OF h(2)]) (use Suc.prems in auto)
  moreover have "readAddress r (B i) = Some (None, A i, ?r)"
    using readAddress_enc[OF _ h(1)] Suc.prems(3,4) by simp
  moreover have "(\<lambda>k. if Suc i \<le> k \<and> k < Suc i + n then A k else ?B k) = (\<lambda>k. if i \<le> k \<and> k < i + Suc n then A k else B k)"
    by (rule ext) auto
  ultimately show ?case
    using Suc.prems(2) by (simp add: enc_addresses_Suc)
qed

lemma read_addresses_zero:
  assumes "addresses_ok A n" and "holds r (enc_addresses A 0 (nat n))"
  shows "read_addresses 0 (nat n) (\<lambda>_. zeroAddress) r =
    Some (None, A, advance r (length (enc_addresses A 0 (nat n))))"
proof -
  have "(\<lambda>k. if k < nat n then A k else zeroAddress) = A"
    using assms(1) by (auto simp: addresses_ok_def)
  moreover have "nat n \<le> 32" using assms(1) by (auto simp: addresses_ok_def)
  ultimately show ?thesis
    using read_addresses_enc[OF assms(2), of "\<lambda>_. zeroAddress"] assms(1)
    by (simp add: addresses_ok_def)
qed

lemma clear_range_emit:
  assumes "length bs \<le> n" and "n \<le> length buf"
  shows "clear_range (wbuffer (emit \<lparr>wbuffer = buf, wpos = 0\<rparr> bs)) (length bs) n =
    Some (bs @ replicate (n - length bs) 0 @ drop n buf)"
  using assms by (simp add: clear_range_def emit_start)

subsection \<open>Formats and well-formedness of tokens\<close>

definition enc_ctp :: "connectTokenPrivate \<Rightarrow> byte list" where
  "enc_ctp t = le_encode 8 (ctp_clientID t) @ le_encode 4 (ctp_timeoutSeconds t) @
     le_encode 4 (of_int (ctp_numServerAddresses t) :: u32) @
     enc_addresses (ctp_serverAddresses t) 0 (nat (ctp_numServerAddresses t)) @
     ctp_clientToServerKey t @ ctp_serverToClientKey t @ ctp_userData t"

definition ctp_ok :: "connectTokenPrivate \<Rightarrow> bool" where
  "ctp_ok t \<longleftrightarrow> addresses_ok (ctp_serverAddresses t) (ctp_numServerAddresses t) \<and>
     length (ctp_clientToServerKey t) = KeyBytes \<and> length (ctp_serverToClientKey t) = KeyBytes \<and>
     length (ctp_userData t) = UserDataBytes"

lemma length_enc_ctp: "ctp_ok t \<Longrightarrow> length (enc_ctp t) \<le> 944"
  using addresses_okD(1)[of "ctp_serverAddresses t" "ctp_numServerAddresses t"]
  by (simp add: enc_ctp_def ctp_ok_def)

lemma connectTokenPrivate_write_eq:
  assumes "ctp_ok t" and "1024 \<le> length buf"
  shows "connectTokenPrivate_write t buf = Some (enc_ctp t @ replicate (1024 - length (enc_ctp t)) 0 @ drop 1024 buf)"
proof -
  let ?w = "\<lparr>wbuffer = buf, wpos = 0\<rparr>"
  have A: "addresses_ok (ctp_serverAddresses t) (ctp_numServerAddresses t)"
    using assms(1) by (simp add: ctp_ok_def)
  have fit: "fits ?w 1024" using assms(2) by (simp add: fits_def)
  have f: "fits ?w k" if "k \<le> 1024" for k using fits_le[OF fit that] .
  have "connectTokenPrivate_write t buf = clear_range (wbuffer (emit ?w (enc_ctp t))) (length (enc_ctp t)) 1024"
    using addresses_okD(1)[OF A] assms(1)
    by (simp add: connectTokenPrivate_write_def put_simps write_addresses_emit[OF A] emit_emit f enc_ctp_def ctp_ok_def)
  with length_enc_ctp[OF assms(1)] assms(2) show ?thesis
    by (simp add: clear_range_emit)
qed

lemma ctp_ok_fields:
  assumes "ctp_ok t"
  shows "addresses_ok (ctp_serverAddresses t) (ctp_numServerAddresses t)"
    and "length (ctp_clientToServerKey t) = 32" and "length (ctp_serverToClientKey t) = 32"
    and "length (ctp_userData t) = 256"
  using assms by (simp_all add: ctp_ok_def)

lemma holds_enc_ctp:
  assumes "ctp_ok t" and "holds r (enc_ctp t)"
  defines "l \<equiv> length (enc_addresses (ctp_serverAddresses t) 0 (nat (ctp_numServerAddresses t)))"
  shows "holds r (le_encode 8 (ctp_clientID t))"
    "holds (advance r 8) (le_encode 4 (ctp_timeoutSeconds t))"
    "holds (advance r 12) (le_encode 4 (of_int (ctp_numServerAddresses t) :: u32))"
    "holds (advance r 16) (enc_addresses (ctp_serverAddresses t) 0 (nat (ctp_numServerAddresses t)))"
    "holds (advance r (16 + l)) (ctp_clientToServerKey t)"
    "holds (advance r (48 + l)) (ctp_serverToClientKey t)"
    "holds (advance r (80 + l)) (ctp_userData t)"
  using assms(2) ctp_ok_fields[OF assms(1)]
  unfolding enc_ctp_def holds_append l_def by (simp_all add: ac_simps)

lemma connectTokenPrivate_read_eq:
  assumes "ctp_ok t" and "1024 \<le> length buf" and "take (length (enc_ctp t)) buf = enc_ctp t"
  shows "connectTokenPrivate_read zeroConnectTokenPrivate buf = Some (None, t)"
proof -
  let ?r = "\<lparr>rbuffer = buf, rpos = 0\<rparr>"
  have "holds ?r (enc_ctp t)"
    using length_enc_ctp[OF assms(1)] assms(2,3) by (simp add: holds_def)
  note h = holds_enc_ctp[OF assms(1) this] and ok = ctp_ok_fields[OF assms(1)]
  have n: "0 < ctp_numServerAddresses t" "ctp_numServerAddresses t \<le> 32"
    using ok(1) by (simp_all add: addresses_ok_def)
  show ?thesis
    using assms(2) n
    by (simp add: connectTokenPrivate_read_def reader_uint64_holds[OF h(1)] reader_uint32_holds[OF h(2)] reader_uint32_holds[OF h(3)]
        addresses_okD(2)[OF ok(1)] read_addresses_zero[OF ok(1) h(4)]
        reader_bytes_holds[OF h(5) ok(2)] reader_bytes_holds[OF h(6) ok(3)] reader_bytes_holds[OF h(7) ok(4)]
        zeroConnectTokenPrivate_def)
qed

lemma connectTokenAdditionalData_eq [simp]:
  "connectTokenAdditionalData p e = Some (versionInfo @ le_encode 8 p @ le_encode 8 e)"
proof -
  let ?w = "\<lparr>wbuffer = replicate 29 0, wpos = 0\<rparr>"
  have f: "fits ?w k" if "k \<le> 29" for k using that by (simp add: fits_def)
  have "connectTokenAdditionalData p e = Some (wbuffer (emit ?w (versionInfo @ le_encode 8 p @ le_encode 8 e)))"
    by (simp add: connectTokenAdditionalData_def put_simps emit_emit f)
  then show ?thesis by (simp add: emit_start)
qed

text \<open>A sealed buffer opens to the original with the tag in its last 16 bytes.\<close>

lemma encrypt_decrypt_private:
  assumes "crypto_ok C" and "length key = 32" and "length nonce = 24" and "length buf = 1024"
  shows "\<exists>sealed tag. encryptConnectTokenPrivate C buf p e nonce key = Some (Inr sealed) \<and>
    length sealed = 1024 \<and> length tag = 16 \<and> drop 1008 sealed = tag \<and>
    decryptConnectTokenPrivate C sealed p e nonce key = Some (Inr (take 1008 buf @ tag))"
proof -
  let ?ad = "versionInfo @ le_encode 8 p @ le_encode 8 e"
  let ?s = "seal (xchacha C) key nonce ?ad (take 1008 buf)"
  note X = crypto_okD(2)[OF assms(1)]
  have len: "length ?s = 1024" using length_seal[OF X] assms(4) by simp
  have enc: "encryptConnectTokenPrivate C buf p e nonce key = Some (Inr ?s)"
    using seal_in_place_room[OF X assms(2,3), of 1008 buf ?ad] assms(4)
    by (simp add: encryptConnectTokenPrivate_def encrypt_defs)
  have "decryptConnectTokenPrivate C ?s p e nonce key = Some (Inr (take 1008 buf @ drop 1008 ?s))"
    using open_in_place_sealed[OF X assms(2,3), of 1024 ?s ?ad "take 1008 buf"] len assms(4)
    by (simp add: decryptConnectTokenPrivate_def encrypt_defs)
  with enc len show ?thesis by auto
qed

text \<open>A private token, written, sealed and opened again.\<close>

lemma private_token_transfer:
  assumes "crypto_ok C" and "ctp_ok t" and "length buf = 1024" and "length key = 32" and "length nonce = 24"
  shows "\<exists>plain sealed opened. connectTokenPrivate_write t buf = Some plain \<and>
    encryptConnectTokenPrivate C plain p e nonce key = Some (Inr sealed) \<and> length sealed = 1024 \<and>
    decryptConnectTokenPrivate C sealed p e nonce key = Some (Inr opened) \<and> length opened = 1024 \<and>
    drop 1008 opened = drop 1008 sealed \<and>
    connectTokenPrivate_read zeroConnectTokenPrivate opened = Some (None, t)"
proof -
  let ?plain = "enc_ctp t @ replicate (1024 - length (enc_ctp t)) 0"
  note len = length_enc_ctp[OF assms(2)]
  have w: "connectTokenPrivate_write t buf = Some ?plain"
    using connectTokenPrivate_write_eq[OF assms(2)] assms(3) by simp
  have k: "length ?plain = 1024" using len by simp
  obtain sealed tag where s: "encryptConnectTokenPrivate C ?plain p e nonce key = Some (Inr sealed)"
    "length sealed = 1024" "length tag = 16" "drop 1008 sealed = tag"
    "decryptConnectTokenPrivate C sealed p e nonce key = Some (Inr (take 1008 ?plain @ tag))"
    using encrypt_decrypt_private[OF assms(1,4,5) k, of p e] by blast
  have "connectTokenPrivate_read zeroConnectTokenPrivate (take 1008 ?plain @ tag) = Some (None, t)"
    by (rule connectTokenPrivate_read_eq[OF assms(2)]) (use len s(3) in simp_all)
  with w s len show ?thesis by auto
qed

definition enc_ct :: "connectToken \<Rightarrow> byte list" where
  "enc_ct t = versionInfo @ le_encode 8 (ct_protocolID t) @ le_encode 8 (ct_createTimestamp t) @
     le_encode 8 (ct_expireTimestamp t) @ ct_nonce t @ ct_privateData t @
     le_encode 4 (ct_timeoutSeconds t) @ le_encode 4 (of_int (ct_numServerAddresses t) :: u32) @
     enc_addresses (ct_serverAddresses t) 0 (nat (ct_numServerAddresses t)) @
     ct_clientToServerKey t @ ct_serverToClientKey t"

definition ct_ok :: "connectToken \<Rightarrow> bool" where
  "ct_ok t \<longleftrightarrow> addresses_ok (ct_serverAddresses t) (ct_numServerAddresses t) \<and>
     ct_createTimestamp t \<le> ct_expireTimestamp t \<and>
     length (ct_nonce t) = connectTokenNonceBytes \<and> length (ct_privateData t) = connectTokenPrivateBytes \<and>
     length (ct_clientToServerKey t) = KeyBytes \<and> length (ct_serverToClientKey t) = KeyBytes"

lemma ct_ok_fields:
  assumes "ct_ok t"
  shows "addresses_ok (ct_serverAddresses t) (ct_numServerAddresses t)"
    and "length (ct_clientToServerKey t) = 32" and "length (ct_serverToClientKey t) = 32"
    and "length (ct_nonce t) = 24" and "length (ct_privateData t) = 1024"
    and "ct_createTimestamp t \<le> ct_expireTimestamp t"
  using assms by (simp_all add: ct_ok_def)

lemma length_enc_ct: "ct_ok t \<Longrightarrow> length (enc_ct t) \<le> 1765"
  using addresses_okD(1)[of "ct_serverAddresses t" "ct_numServerAddresses t"]
  by (simp add: enc_ct_def ct_ok_def)

lemma connectToken_write_eq:
  assumes "ct_ok t" and "2048 \<le> length buf"
  shows "connectToken_write t buf = Some (enc_ct t @ replicate (2048 - length (enc_ct t)) 0 @ drop 2048 buf)"
proof -
  let ?w = "\<lparr>wbuffer = buf, wpos = 0\<rparr>"
  note A = ct_ok_fields(1)[OF assms(1)]
  have fit: "fits ?w 2048" using assms(2) by (simp add: fits_def)
  have f: "fits ?w k" if "k \<le> 2048" for k using fits_le[OF fit that] .
  have "connectToken_write t buf = clear_range (wbuffer (emit ?w (enc_ct t))) (length (enc_ct t)) 2048"
    using addresses_okD(1)[OF A] ct_ok_fields[OF assms(1)]
    by (simp add: connectToken_write_def put_simps write_addresses_emit[OF A] emit_emit f enc_ct_def)
  with length_enc_ct[OF assms(1)] assms(2) show ?thesis
    by (simp add: clear_range_emit)
qed

lemma holds_enc_ct:
  assumes "ct_ok t" and "holds r (enc_ct t)"
  defines "l \<equiv> length (enc_addresses (ct_serverAddresses t) 0 (nat (ct_numServerAddresses t)))"
  shows "holds r versionInfo"
    "holds (advance r 13) (le_encode 8 (ct_protocolID t))"
    "holds (advance r 21) (le_encode 8 (ct_createTimestamp t))"
    "holds (advance r 29) (le_encode 8 (ct_expireTimestamp t))"
    "holds (advance r 37) (ct_nonce t)"
    "holds (advance r 61) (ct_privateData t)"
    "holds (advance r 1085) (le_encode 4 (ct_timeoutSeconds t))"
    "holds (advance r 1089) (le_encode 4 (of_int (ct_numServerAddresses t) :: u32))"
    "holds (advance r 1093) (enc_addresses (ct_serverAddresses t) 0 (nat (ct_numServerAddresses t)))"
    "holds (advance r (1093 + l)) (ct_clientToServerKey t)"
    "holds (advance r (1125 + l)) (ct_serverToClientKey t)"
  using assms(2) ct_ok_fields[OF assms(1)]
  unfolding enc_ct_def holds_append l_def by (simp_all add: ac_simps)

lemma connectToken_read_eq:
  assumes "ct_ok t" and "length buf = 2048" and "take (length (enc_ct t)) buf = enc_ct t"
  shows "connectToken_read zeroConnectToken buf = Some (None, t)"
proof -
  let ?r = "\<lparr>rbuffer = buf, rpos = 0\<rparr>"
  have "holds ?r (enc_ct t)"
    using length_enc_ct[OF assms(1)] assms(2,3) by (simp add: holds_def)
  note h = holds_enc_ct[OF assms(1) this] and ok = ct_ok_fields[OF assms(1)]
  have n: "0 < ct_numServerAddresses t" "ct_numServerAddresses t \<le> 32"
    using ok(1) by (simp_all add: addresses_ok_def)
  have ts: "\<not> ct_expireTimestamp t < ct_createTimestamp t" using ok(6) by simp
  show ?thesis
    using assms(2) n
    by (simp add: connectToken_read_def reader_bytes_holds[OF h(1)] reader_uint64_holds[OF h(2)]
        reader_uint64_holds[OF h(3)] reader_uint64_holds[OF h(4)] ts
        reader_bytes_holds[OF h(5) ok(4)] reader_bytes_holds[OF h(6) ok(5)]
        reader_uint32_holds[OF h(7)] reader_uint32_holds[OF h(8)]
        addresses_okD(2)[OF ok(1)] read_addresses_zero[OF ok(1) h(9)]
        reader_bytes_holds[OF h(10) ok(2)] reader_bytes_holds[OF h(11) ok(3)]
        zeroConnectToken_def)
qed

subsection \<open>Challenge token round trip\<close>

definition cht_ok :: "challengeToken \<Rightarrow> bool" where
  "cht_ok t \<longleftrightarrow> length (cht_userData t) = UserDataBytes"

lemma challengeToken_write_eq:
  assumes "cht_ok t" and "length buf = 300"
  shows "challengeToken_write t buf = Some (le_encode 8 (cht_clientID t) @ cht_userData t @ replicate 36 0)"
proof -
  let ?w = "\<lparr>wbuffer = replicate 300 0, wpos = 0\<rparr>"
  have f: "fits ?w k" if "k \<le> 300" for k using that by (simp add: fits_def)
  have "challengeToken_write t buf = Some (wbuffer (emit ?w (le_encode 8 (cht_clientID t) @ cht_userData t)))"
    using assms by (simp add: challengeToken_write_def clear_range_def put_simps emit_emit f cht_ok_def)
  with assms(1) show ?thesis by (simp add: emit_start cht_ok_def)
qed

lemma challengeToken_read_eq:
  assumes "cht_ok t" and "length rest = 36"
  shows "challengeToken_read t0 (le_encode 8 (cht_clientID t) @ cht_userData t @ rest) =
    Some (None, t0\<lparr>cht_clientID := cht_clientID t, cht_userData := cht_userData t\<rparr>)"
proof -
  let ?r = "\<lparr>rbuffer = le_encode 8 (cht_clientID t) @ cht_userData t @ rest, rpos = 0\<rparr>"
  have "holds ?r (le_encode 8 (cht_clientID t) @ cht_userData t)"
    using holds_start[of "le_encode 8 (cht_clientID t) @ cht_userData t" rest] by simp
  then have h: "holds ?r (le_encode 8 (cht_clientID t))" "holds (advance ?r 8) (cht_userData t)"
    unfolding holds_append by simp_all
  show ?thesis
    using assms by (simp add: challengeToken_read_def reader_uint64_holds[OF h(1)] reader_bytes_holds[OF h(2)] cht_ok_def)
qed

lemma challenge_roundtrip:
  assumes "crypto_ok C" and "length key = 32" and "cht_ok t" and "length buf = 300"
  shows "\<exists>plain sealed opened. challengeToken_write t buf = Some plain \<and>
    encryptChallengeToken C plain s key = Some (Inr sealed) \<and> length sealed = 300 \<and>
    decryptChallengeToken C sealed s key = Some (Inr opened) \<and>
    challengeToken_read zeroChallengeToken opened = Some (None, t)"
proof -
  let ?p = "le_encode 8 (cht_clientID t) @ cht_userData t @ replicate 36 0"
  let ?n = "replicate 4 0 @ le_encode 8 s"
  let ?s = "seal (chacha C) key ?n [] (take 284 ?p)"
  note A = crypto_okD(1)[OF assms(1)]
  have len: "length ?p = 300" "length ?s = 300" using assms(3) length_seal[OF A] by (simp_all add: cht_ok_def)
  have enc: "encryptChallengeToken C ?p s key = Some (Inr ?s)"
    using seal_in_place_room[OF A assms(2), of ?n 12 284 ?p "[]"] len
    by (simp add: encryptChallengeToken_def encrypt_defs)
  have dec: "decryptChallengeToken C ?s s key = Some (Inr (take 284 ?p @ drop 284 ?s))"
    using open_in_place_sealed[OF A assms(2), of ?n 12 300 ?s "[]" "take 284 ?p"] len
    by (simp add: decryptChallengeToken_def encrypt_defs)
  have split: "take 284 ?p @ drop 284 ?s =
      le_encode 8 (cht_clientID t) @ cht_userData t @ replicate 20 0 @ drop 284 ?s"
    using assms(3) by (simp add: cht_ok_def)
  have "challengeToken_read zeroChallengeToken (take 284 ?p @ drop 284 ?s) = Some (None, t)"
    unfolding split using challengeToken_read_eq[OF assms(3), of "replicate 20 0 @ drop 284 ?s"] len
    by (simp add: zeroChallengeToken_def)
  with challengeToken_write_eq[OF assms(3,4)] enc dec len show ?thesis by blast
qed

subsection \<open>Readers never run past a buffer of the right size\<close>

lemma reader_totals:
  "rpos r + 1 \<le> length (rbuffer r) \<Longrightarrow> reader_uint8 r = Some (rbuffer r ! rpos r, advance r 1)"
  "rpos r + 2 \<le> length (rbuffer r) \<Longrightarrow> reader_uint16 r = Some (le_decode (take 2 (drop (rpos r) (rbuffer r))), advance r 2)"
  "rpos r + 4 \<le> length (rbuffer r) \<Longrightarrow> reader_uint32 r = Some (le_decode (take 4 (drop (rpos r) (rbuffer r))), advance r 4)"
  "rpos r + 8 \<le> length (rbuffer r) \<Longrightarrow> reader_uint64 r = Some (le_decode (take 8 (drop (rpos r) (rbuffer r))), advance r 8)"
  "rpos r + n \<le> length (rbuffer r) \<Longrightarrow> reader_bytes n r = Some (take n (drop (rpos r) (rbuffer r)), advance r n)"
  by (simp_all add: reader_uint8_def reader_uint16_def reader_uint32_def reader_uint64_def reader_bytes_def advance_def)

lemma read_groups_total:
  assumes "rpos r + 2 * n \<le> length (rbuffer r)"
  shows "\<exists>a'. for_range (\<lambda>i (address, r). do {
           (group, r) \<leftarrow> reader_uint16 r;
           Some (address\<lparr>IPv6 := (IPv6 address)[i := group]\<rparr>, r) }) i n (a, r) = Some (a', advance r (2 * n)) \<and>
    Type a' = Type a"
  using assms
proof (induction n arbitrary: i a r)
  case 0
  then show ?case by (simp add: advance_def)
next
  case (Suc n)
  then show ?case
    using Suc.IH[of "advance r 2" "Suc i" "a\<lparr>IPv6 := (IPv6 a)[i := le_decode (take 2 (drop (rpos r) (rbuffer r)))]\<rparr>"]
    by (auto simp: reader_totals)
qed

lemma readAddress_total:
  assumes "rpos r + 19 \<le> length (rbuffer r)"
  shows "\<exists>e a' k. readAddress r a = Some (e, a', advance r k) \<and> k \<le> 19 \<and>
    (e = None \<longrightarrow> Type a' = AddressIPv4 \<or> Type a' = AddressIPv6)"
proof -
  let ?t = "rbuffer r ! rpos r"
  consider (v4) "?t = 1" | (v6) "?t = 2" | (other) "?t \<noteq> 1" "?t \<noteq> 2" by blast
  then show ?thesis
  proof cases
    case v4
    with assms show ?thesis by (auto simp: readAddress_def reader_totals)
  next
    case v6
    obtain a' where "for_range (\<lambda>i (address, r). do {
           (group, r) \<leftarrow> reader_uint16 r;
           Some (address\<lparr>IPv6 := (IPv6 address)[i := group]\<rparr>, r) }) 0 8 (a\<lparr>Type := 2\<rparr>, advance r 1) =
        Some (a', advance r 17)" "Type a' = 2"
      using read_groups_total[of "advance r 1" 8 0 "a\<lparr>Type := 2\<rparr>"] assms by auto
    with v6 assms show ?thesis by (auto simp: readAddress_def reader_totals)
  next
    case other
    with assms show ?thesis by (auto simp: readAddress_def reader_totals)
  qed
qed

lemma read_addresses_total:
  assumes "rpos r + 19 * n \<le> length (rbuffer r)" and "i + n \<le> 32"
  shows "\<exists>e B' k. read_addresses i n B r = Some (e, B', advance r k) \<and> k \<le> 19 * n \<and>
    (e = None \<longrightarrow> (\<forall>j. i \<le> j \<and> j < i + n \<longrightarrow> Type (B' j) \<noteq> AddressNone)) \<and> (\<forall>j<i. B' j = B j)"
  using assms
proof (induction n arbitrary: i B r)
  case 0
  then show ?case by (auto simp: advance_def intro: exI[of _ 0])
next
  case (Suc n)
  have "rpos r + 19 \<le> length (rbuffer r)" using Suc.prems(1) by simp
  then obtain e a' k where rd: "readAddress r (B i) = Some (e, a', advance r k)" "k \<le> 19"
    "e = None \<longrightarrow> Type a' = AddressIPv4 \<or> Type a' = AddressIPv6"
    using readAddress_total by blast
  show ?case
  proof (cases e)
    case (Some err)
    with rd Suc.prems show ?thesis by auto
  next
    case None
    have "rpos (advance r k) + 19 * n \<le> length (rbuffer (advance r k))" using Suc.prems(1) rd(2) by simp
    from Suc.IH[OF this, of "Suc i" "B(i := a')"] Suc.prems(2) obtain e' B' k' where
      IH: "read_addresses (Suc i) n (B(i := a')) (advance r k) = Some (e', B', advance (advance r k) k')"
      "k' \<le> 19 * n" "e' = None \<longrightarrow> (\<forall>j. Suc i \<le> j \<and> j < Suc i + n \<longrightarrow> Type (B' j) \<noteq> AddressNone)"
      "\<forall>j<Suc i. B' j = (B(i := a')) j"
      by (metis add_Suc add_Suc_right)
    have "e' = None \<longrightarrow> (\<forall>j. i \<le> j \<and> j < i + Suc n \<longrightarrow> Type (B' j) \<noteq> AddressNone)"
    proof (intro impI allI)
      fix j assume "e' = None" "i \<le> j \<and> j < i + Suc n"
      then show "Type (B' j) \<noteq> AddressNone"
        using IH(3,4) rd(3) None by (cases "j = i") auto
    qed
    with IH rd None Suc.prems show ?thesis by auto
  qed
qed


lemma sint_range_nat: "0 < sint n \<Longrightarrow> sint n \<le> 32 \<Longrightarrow> 19 * nat (sint (n :: i32)) \<le> 608"
  by linarith

lemma connectTokenPrivate_read_total:
  "\<exists>e t'. connectTokenPrivate_read t buf = Some (e, t') \<and>
    (e = None \<longrightarrow> 0 < ctp_numServerAddresses t' \<and> ctp_numServerAddresses t' \<le> int MaxServersPerConnect \<and>
      (\<forall>i<nat (ctp_numServerAddresses t'). Type (ctp_serverAddresses t' i) \<noteq> AddressNone) \<and>
      length (ctp_clientToServerKey t') = KeyBytes \<and> length (ctp_serverToClientKey t') = KeyBytes \<and>
      length (ctp_userData t') = UserDataBytes)"
proof (cases "length buf < 1024")
  case True
  then show ?thesis by (simp add: connectTokenPrivate_read_def)
next
  case False
  let ?r = "\<lparr>rbuffer = buf, rpos = 0\<rparr>"
  let ?n = "le_decode (take 4 (drop 12 buf)) :: i32"
  show ?thesis
  proof (cases "sint ?n \<le> 0 \<or> sint ?n > 32")
    case True
    with False show ?thesis by (simp add: connectTokenPrivate_read_def reader_totals)
  next
    case n: False
    obtain e B k where rd: "read_addresses 0 (nat (sint ?n)) (ctp_serverAddresses t) (advance ?r 16) =
        Some (e, B, advance (advance ?r 16) k)" "k \<le> 608"
      "e = None \<longrightarrow> (\<forall>j. j < nat (sint ?n) \<longrightarrow> Type (B j) \<noteq> AddressNone)"
      using read_addresses_total[of "advance ?r 16" "nat (sint ?n)" 0 "ctp_serverAddresses t"] n False
        sint_range_nat[of ?n] by (auto intro: order_trans)
    with n False show ?thesis
      by (cases e) (auto simp: connectTokenPrivate_read_def reader_totals)
  qed
qed

lemma connect_token_transfer:
  assumes "ct_ok t" and "length buf = 2048"
  shows "\<exists>out. connectToken_write t buf = Some out \<and> length out = 2048 \<and>
    connectToken_read zeroConnectToken out = Some (None, t)"
proof -
  let ?out = "enc_ct t @ replicate (2048 - length (enc_ct t)) 0"
  note len = length_enc_ct[OF assms(1)]
  have "connectToken_write t buf = Some ?out"
    using connectToken_write_eq[OF assms(1)] assms(2) by simp
  moreover have "connectToken_read zeroConnectToken ?out = Some (None, t)"
    by (rule connectToken_read_eq[OF assms(1)]) (use len in simp_all)
  ultimately show ?thesis using len by simp
qed

lemma connectToken_read_total:
  "\<exists>e t'. connectToken_read t buf = Some (e, t') \<and>
    (e = None \<longrightarrow> 0 < ct_numServerAddresses t' \<and> ct_numServerAddresses t' \<le> int MaxServersPerConnect \<and>
      (\<forall>i<nat (ct_numServerAddresses t'). Type (ct_serverAddresses t' i) \<noteq> AddressNone) \<and>
      ct_createTimestamp t' \<le> ct_expireTimestamp t' \<and>
      length (ct_nonce t') = connectTokenNonceBytes \<and> length (ct_privateData t') = connectTokenPrivateBytes \<and>
      length (ct_clientToServerKey t') = KeyBytes \<and> length (ct_serverToClientKey t') = KeyBytes)"
proof (cases "length buf = 2048 \<and> take 13 buf = versionInfo")
  case False
  then show ?thesis by (auto simp: connectToken_read_def reader_totals)
next
  case len: True
  let ?r = "\<lparr>rbuffer = buf, rpos = 0\<rparr>"
  let ?n = "le_decode (take 4 (drop 1089 buf)) :: i32"
  let ?late = "(le_decode (take 8 (drop 29 buf)) :: u64) < le_decode (take 8 (drop 21 buf))"
  show ?thesis
  proof (cases "\<not> ?late \<and> 0 < sint ?n \<and> sint ?n \<le> 32")
    case False
    with len show ?thesis by (cases ?late) (auto simp: connectToken_read_def reader_totals)
  next
    case n: True
    obtain e B k where rd: "read_addresses 0 (nat (sint ?n)) (ct_serverAddresses t) (advance ?r 1093) =
        Some (e, B, advance (advance ?r 1093) k)" "k \<le> 608"
      "e = None \<longrightarrow> (\<forall>j. j < nat (sint ?n) \<longrightarrow> Type (B j) \<noteq> AddressNone)"
      using read_addresses_total[of "advance ?r 1093" "nat (sint ?n)" 0 "ct_serverAddresses t"] n len
        sint_range_nat[of ?n] by (auto intro: order_trans)
    with n len show ?thesis
      by (cases e) (auto simp: connectToken_read_def reader_totals)
  qed
qed

subsection \<open>Properties\<close>

text \<open>
  A concrete address, private token and public token for the witnesses: one server at
  127.0.0.1:40000.
\<close>

definition sample_address :: Address where
  "sample_address = \<lparr>Type = AddressIPv4, IPv4 = [127, 0, 0, 1], IPv6 = replicate 8 0, Port = 40000\<rparr>"

definition sample_private :: connectTokenPrivate where
  "sample_private = generateConnectTokenPrivate 7 15 [sample_address] [1, 2, 3] (replicate 32 5) (replicate 32 6)"

definition sample_token :: connectToken where
  "sample_token = zeroConnectToken
     \<lparr>ct_protocolID := 9, ct_createTimestamp := 100, ct_expireTimestamp := 130, ct_timeoutSeconds := 15,
      ct_numServerAddresses := 1, ct_serverAddresses := (\<lambda>_. zeroAddress)(0 := sample_address)\<rparr>"

lemma sample_address_canonical: "address_canonical sample_address"
  by (simp add: sample_address_def address_canonical_def address_wf_def)

lemma generateConnectTokenPrivate_ok:
  assumes "0 < length addrs" and "length addrs \<le> 32" and "list_all address_canonical addrs"
    and "length k1 = 32" and "length k2 = 32" and "length ud \<le> 256"
  shows "ctp_ok (generateConnectTokenPrivate i tm addrs ud k1 k2)"
  using assms
  by (auto simp: ctp_ok_def generateConnectTokenPrivate_def addresses_ok_def zeroConnectTokenPrivate_def
      list_all_length copy_at_def)

lemma sample_private_ok: "ctp_ok sample_private"
  unfolding sample_private_def
  by (rule generateConnectTokenPrivate_ok) (simp_all add: sample_address_canonical)

lemma sample_token_ok: "ct_ok sample_token"
  by (simp add: ct_ok_def sample_token_def zeroConnectToken_def addresses_ok_def sample_address_canonical)

text \<open>
  C13: private connect token round trip. A well-formed private token is written into its 1024 bytes,
  sealed with the private key, opened with the same key, protocol id and expire timestamp, and
  read back unchanged. The tag takes the place of padding only (the longest token has 944 bytes),
  and opening leaves the tag in the last 16 bytes, where the connect token history looks for it.
\<close>

theorem private_token_roundtrip:
  assumes "crypto_ok C" and "ctp_ok t" and "length buf = connectTokenPrivateBytes"
    and "length key = KeyBytes" and "length nonce = connectTokenNonceBytes"
  shows "\<exists>plain sealed opened. connectTokenPrivate_write t buf = Some plain \<and>
    encryptConnectTokenPrivate C plain p e nonce key = Some (Inr sealed) \<and>
    length sealed = connectTokenPrivateBytes \<and>
    decryptConnectTokenPrivate C sealed p e nonce key = Some (Inr opened) \<and>
    drop 1008 opened = drop 1008 sealed \<and>
    connectTokenPrivate_read zeroConnectTokenPrivate opened = Some (None, t)"
proof -
  have "length buf = 1024" "length key = 32" "length nonce = 24" using assms(3-5) by simp_all
  from private_token_transfer[OF assms(1,2) this, of p e] show ?thesis by auto
qed

theorem private_token_roundtrip_witness:
  "\<exists>plain sealed opened. connectTokenPrivate_write sample_private (replicate 1024 0) = Some plain \<and>
    encryptConnectTokenPrivate checksum_crypto plain 9 130 (replicate 24 0) (replicate 32 1) = Some (Inr sealed) \<and>
    length sealed = connectTokenPrivateBytes \<and>
    decryptConnectTokenPrivate checksum_crypto sealed 9 130 (replicate 24 0) (replicate 32 1) = Some (Inr opened) \<and>
    drop 1008 opened = drop 1008 sealed \<and>
    connectTokenPrivate_read zeroConnectTokenPrivate opened = Some (None, sample_private)"
  by (rule private_token_roundtrip[OF checksum_crypto_ok sample_private_ok]) simp_all

text \<open>
  A private token that opens is bound to its context. If decryption succeeds for a protocol id
  and an expire timestamp, the data is the seal of the returned plaintext under exactly that
  protocol id, expire timestamp, version, nonce and key: changing any of them on the wire cannot
  go unnoticed.
\<close>

theorem private_token_authentic:
  assumes "crypto_ok C" and "decryptConnectTokenPrivate C buf p e nonce key = Some (Inr out)"
  shows "take 1024 buf = seal (xchacha C) key nonce (versionInfo @ le_encode 8 p @ le_encode 8 e) (take 1008 out) \<and>
    drop 1008 out = drop 1008 buf"
proof -
  obtain plain where "take 1024 buf = seal (xchacha C) key nonce (versionInfo @ le_encode 8 p @ le_encode 8 e) plain"
    "out = plain @ drop (length plain) buf" "length plain + 16 = 1024" "1024 \<le> length buf"
    using open_in_place_okD[OF crypto_okD(2)[OF assms(1)], of 24 buf 1024
        "versionInfo @ le_encode 8 p @ le_encode 8 e" nonce key out] assms(2)
    by (auto simp: decryptConnectTokenPrivate_def encrypt_defs)
  then show ?thesis by simp
qed

theorem private_token_authentic_witness:
  "\<exists>sealed out. decryptConnectTokenPrivate checksum_crypto sealed 9 130 (replicate 24 0) (replicate 32 1) = Some (Inr out) \<and>
    take 1024 sealed = seal (xchacha checksum_crypto) (replicate 32 1) (replicate 24 0)
      (versionInfo @ le_encode 8 (9 :: u64) @ le_encode 8 (130 :: u64)) (take 1008 out) \<and>
    drop 1008 out = drop 1008 sealed"
proof -
  have "\<exists>sealed tag. encryptConnectTokenPrivate checksum_crypto (replicate 1024 0) 9 130 (replicate 24 0) (replicate 32 1) =
      Some (Inr sealed) \<and> length sealed = 1024 \<and> length tag = 16 \<and> drop 1008 sealed = tag \<and>
    decryptConnectTokenPrivate checksum_crypto sealed 9 130 (replicate 24 0) (replicate 32 1) =
      Some (Inr (take 1008 (replicate 1024 0) @ tag))"
    by (rule encrypt_decrypt_private[OF checksum_crypto_ok]) simp_all
  then obtain sealed out where
    "decryptConnectTokenPrivate checksum_crypto sealed 9 130 (replicate 24 0) (replicate 32 1) = Some (Inr out)"
    by blast
  with private_token_authentic[OF checksum_crypto_ok this] show ?thesis by blast
qed

text \<open>
  Public connect token round trip. A well-formed connect token written to 2048 bytes is read
  back unchanged.
\<close>

theorem connect_token_roundtrip:
  assumes "ct_ok t" and "length buf = ConnectTokenBytes"
  shows "\<exists>out. connectToken_write t buf = Some out \<and> length out = ConnectTokenBytes \<and>
    connectToken_read zeroConnectToken out = Some (None, t)"
  using connect_token_transfer[OF assms(1)] assms(2) by simp

theorem connect_token_roundtrip_witness:
  "\<exists>out. connectToken_write sample_token (replicate 2048 0) = Some out \<and> length out = ConnectTokenBytes \<and>
    connectToken_read zeroConnectToken out = Some (None, sample_token)"
  by (rule connect_token_roundtrip[OF sample_token_ok]) simp

text \<open>
  Challenge token round trip. The challenge token the server writes and seals under its
  challenge key and a sequence number fits in 300 bytes, opens under the same key and sequence
  number, and gives back the client id and the user data.
\<close>

theorem challenge_token_roundtrip:
  assumes "crypto_ok C" and "length key = KeyBytes" and "length (cht_userData t) = UserDataBytes"
    and "length buf = challengeTokenBytes"
  shows "\<exists>plain sealed opened. challengeToken_write t buf = Some plain \<and>
    encryptChallengeToken C plain s key = Some (Inr sealed) \<and> length sealed = challengeTokenBytes \<and>
    decryptChallengeToken C sealed s key = Some (Inr opened) \<and>
    challengeToken_read zeroChallengeToken opened = Some (None, t)"
  using challenge_roundtrip[of C key t buf s] assms by (simp add: cht_ok_def)

theorem challenge_token_roundtrip_witness:
  "\<exists>plain sealed opened.
    challengeToken_write \<lparr>cht_clientID = 7, cht_userData = replicate 256 3\<rparr> (replicate 300 0) = Some plain \<and>
    encryptChallengeToken checksum_crypto plain 5 (replicate 32 1) = Some (Inr sealed) \<and>
    length sealed = challengeTokenBytes \<and>
    decryptChallengeToken checksum_crypto sealed 5 (replicate 32 1) = Some (Inr opened) \<and>
    challengeToken_read zeroChallengeToken opened =
      Some (None, \<lparr>cht_clientID = 7, cht_userData = replicate 256 3\<rparr>)"
  by (rule challenge_token_roundtrip[OF checksum_crypto_ok]) simp_all

text \<open>
  The token readers are safe on any input. Whatever bytes they are given, of whatever length,
  reading a public or a private connect token returns (it never runs past the buffer or the
  32 entry address array), and when it reports success the token has between 1 and 32 server
  addresses, all of a valid type, and a public token does not expire before it was created.
\<close>

theorem token_readers_safe:
  "(case connectToken_read t buf of None \<Rightarrow> False | Some (Some e, t') \<Rightarrow> True
    | Some (None, t') \<Rightarrow>
        0 < ct_numServerAddresses t' \<and> ct_numServerAddresses t' \<le> int MaxServersPerConnect \<and>
        list_all (\<lambda>i. Type (ct_serverAddresses t' i) \<noteq> AddressNone) [0..<nat (ct_numServerAddresses t')] \<and>
        ct_createTimestamp t' \<le> ct_expireTimestamp t') \<and>
   (case connectTokenPrivate_read u buf of None \<Rightarrow> False | Some (Some e, u') \<Rightarrow> True
    | Some (None, u') \<Rightarrow>
        0 < ctp_numServerAddresses u' \<and> ctp_numServerAddresses u' \<le> int MaxServersPerConnect \<and>
        list_all (\<lambda>i. Type (ctp_serverAddresses u' i) \<noteq> AddressNone) [0..<nat (ctp_numServerAddresses u')])"
  using connectToken_read_total[of t buf] connectTokenPrivate_read_total[of u buf]
  by (auto simp: list_all_iff split: option.splits)

end
