(* ===== verification/Replay.thy ===== *)
theory Replay
  imports Netcode_Package
begin

text \<open>
  \<^verbatim>\<open>replay.go\<close>: the sliding window that rejects packets received before. The abstract
  specification is the set of sequence numbers accepted so far; locale \<open>replay_window\<close> states the
  contract of a window over that set, its client lemmas follow from the contract alone, and the
  interpretation discharges the contract for the 256 entry buffer of the source.
\<close>

text \<open>The value that marks an empty entry. It is also the greatest sequence number.\<close>

abbreviation max_sequence :: u64 where
  "max_sequence \<equiv> 0xFFFFFFFFFFFFFFFF"

record replayProtection =
  mostRecentSequence :: u64
  receivedPacket :: "u64 arr"

definition replay_reset :: "replayProtection \<Rightarrow> replayProtection" where
  "replay_reset r = r\<lparr>mostRecentSequence := 0, receivedPacket := (\<lambda>_. 0xFFFFFFFFFFFFFFFF)\<rparr>"

definition alreadyReceived :: "replayProtection \<Rightarrow> u64 \<Rightarrow> bool" where
  "alreadyReceived r sequence =
     (if mostRecentSequence r \<ge> of_nat replayProtectionBufferSize \<and>
         sequence \<le> mostRecentSequence r - of_nat replayProtectionBufferSize
      then True
      else let index = unat sequence mod replayProtectionBufferSize in
        if receivedPacket r index = 0xFFFFFFFFFFFFFFFF then False
        else receivedPacket r index \<ge> sequence)"

definition advanceSequence :: "replayProtection \<Rightarrow> u64 \<Rightarrow> replayProtection" where
  "advanceSequence r sequence =
     (let r1 = (if sequence > mostRecentSequence r then r\<lparr>mostRecentSequence := sequence\<rparr> else r) in
      r1\<lparr>receivedPacket := (receivedPacket r1)(unat sequence mod replayProtectionBufferSize := sequence)\<rparr>)"

text \<open>
  The way \<open>readPacket\<close> drives the window: a packet is dropped when its sequence was received,
  and advances the window otherwise. \<open>replay_run\<close> returns the accepted sequence numbers in order.
\<close>

fun replay_run :: "('r \<Rightarrow> u64 \<Rightarrow> bool) \<Rightarrow> ('r \<Rightarrow> u64 \<Rightarrow> 'r) \<Rightarrow> 'r \<Rightarrow> u64 list \<Rightarrow> u64 list \<times> 'r" where
  "replay_run seen mark r [] = ([], r)"
| "replay_run seen mark r (s # ss) =
     (if seen r s then replay_run seen mark r ss
      else (let (acc, r') = replay_run seen mark (mark r s) ss in (s # acc, r')))"

subsection \<open>The contract of a replay window\<close>

definition newest :: "u64 set \<Rightarrow> nat" where
  "newest S = Max (insert 0 (unat ` S))"

definition too_old :: "u64 set \<Rightarrow> u64 \<Rightarrow> bool" where
  "too_old S s \<longleftrightarrow> unat s + replayProtectionBufferSize \<le> newest S"

locale replay_window =
  fixes seen :: "'r \<Rightarrow> u64 \<Rightarrow> bool"
    and mark :: "'r \<Rightarrow> u64 \<Rightarrow> 'r"
    and rel :: "'r \<Rightarrow> u64 set \<Rightarrow> bool"
  assumes rel_mark: "\<And>r S s. rel r S \<Longrightarrow> \<not> seen r s \<Longrightarrow> rel (mark r s) (insert s S)"
    and seen_iff: "\<And>r S s. rel r S \<Longrightarrow> seen r s \<longleftrightarrow> too_old S s \<or> s \<in> S \<and> s \<noteq> max_sequence"
begin

lemma run_rel: "rel r S \<Longrightarrow> replay_run seen mark r ss = (acc, r') \<Longrightarrow> rel r' (S \<union> set acc)"
proof (induction ss arbitrary: r S acc)
  case Nil
  then show ?case by simp
next
  case (Cons s ss)
  show ?case
  proof (cases "seen r s")
    case True
    with Cons show ?thesis by auto
  next
    case False
    with Cons.prems(2) obtain acc1 where acc1: "acc = s # acc1" "replay_run seen mark (mark r s) ss = (acc1, r')"
      by (auto split: prod.splits)
    from Cons.IH[OF rel_mark[OF Cons.prems(1) False] acc1(2)] show ?thesis
      by (simp add: acc1(1))
  qed
qed

lemma run_avoids:
  "rel r S \<Longrightarrow> replay_run seen mark r ss = (acc, r') \<Longrightarrow> s \<in> S \<Longrightarrow> s \<noteq> max_sequence \<Longrightarrow> s \<notin> set acc"
proof (induction ss arbitrary: r S acc)
  case Nil
  then show ?case by simp
next
  case (Cons x ss)
  show ?case
  proof (cases "seen r x")
    case True
    with Cons show ?thesis by auto
  next
    case False
    with Cons.prems(2) obtain acc1 where acc1: "acc = x # acc1" "replay_run seen mark (mark r x) ss = (acc1, r')"
      by (auto split: prod.splits)
    have "x \<noteq> s" using False seen_iff[OF Cons.prems(1)] Cons.prems(3,4) by auto
    moreover have "s \<notin> set acc1"
      by (rule Cons.IH[OF rel_mark[OF Cons.prems(1) False] acc1(2)]) (use Cons.prems in auto)
    ultimately show ?thesis by (simp add: acc1(1))
  qed
qed

lemma run_distinct:
  "rel r S \<Longrightarrow> replay_run seen mark r ss = (acc, r') \<Longrightarrow> distinct (filter (\<lambda>s. s \<noteq> max_sequence) acc)"
proof (induction ss arbitrary: r S acc)
  case Nil
  then show ?case by simp
next
  case (Cons s ss)
  show ?case
  proof (cases "seen r s")
    case True
    with Cons show ?thesis by auto
  next
    case False
    with Cons.prems(2) obtain acc1 where acc1: "acc = s # acc1" "replay_run seen mark (mark r s) ss = (acc1, r')"
      by (auto split: prod.splits)
    note rel1 = rel_mark[OF Cons.prems(1) False]
    from run_avoids[OF rel1 acc1(2)] Cons.IH[OF rel1 acc1(2)] show ?thesis
      by (simp add: acc1(1))
  qed
qed

lemma seen_after_run:
  assumes "rel r S" and "replay_run seen mark r ss = (acc, r')"
  shows "seen r' s \<longleftrightarrow> too_old (S \<union> set acc) s \<or> s \<in> S \<union> set acc \<and> s \<noteq> max_sequence"
  using seen_iff[OF run_rel[OF assms]] .

end

subsection \<open>The 256 entry buffer meets the contract\<close>

definition replay_rel :: "replayProtection \<Rightarrow> u64 set \<Rightarrow> bool" where
  "replay_rel r S \<longleftrightarrow>
     unat (mostRecentSequence r) = newest S \<and>
     (\<forall>j<256. receivedPacket r j = max_sequence \<and> (\<forall>s\<in>S. unat s mod 256 \<noteq> j) \<or>
        receivedPacket r j \<in> S \<and> unat (receivedPacket r j) mod 256 = j \<and>
        (\<forall>s\<in>S. unat s mod 256 = j \<longrightarrow> s \<le> receivedPacket r j))"

lemma finite_u64 [simp]: "finite (S :: u64 set)"
  by (rule finite_subset[OF subset_UNIV]) simp

lemma newest_empty [simp]: "newest {} = 0"
  by (simp add: newest_def)

lemma newest_insert: "newest (insert s S) = max (unat s) (newest S)"
  by (cases "S = {}") (simp_all add: newest_def)

lemma newest_ge: "s \<in> S \<Longrightarrow> unat s \<le> newest S"
  by (simp add: newest_def)

lemma newest_less: "newest S < 2 ^ 64"
proof -
  have "\<forall>n \<in> insert 0 (unat ` S). n < 2 ^ 64"
    by (auto intro: order_less_le_trans[OF unsigned_less])
  then show ?thesis by (simp add: newest_def)
qed

lemma unat_max_sequence: "unat (s :: u64) \<le> unat max_sequence"
proof -
  have "unat s < 2 ^ LENGTH(64)" by (rule unsigned_less)
  then show ?thesis by simp
qed

lemma window_bound:
  "(m \<ge> 256 \<and> s \<le> m - 256) \<longleftrightarrow> unat s + 256 \<le> unat (m :: u64)"
  by (auto simp: word_le_nat_alt unat_sub)

lemma alreadyReceived_alt:
  "alreadyReceived r s \<longleftrightarrow>
     unat s + 256 \<le> unat (mostRecentSequence r) \<or>
     receivedPacket r (unat s mod 256) \<noteq> max_sequence \<and> s \<le> receivedPacket r (unat s mod 256)"
  using window_bound[of "mostRecentSequence r" s]
  by (auto simp: alreadyReceived_def Let_def)

lemma same_slot_in_window:
  assumes "unat (x :: u64) mod 256 = unat s mod 256" and "s \<le> x" and "unat x < unat s + 256"
  shows "x = s"
proof -
  have "unat s \<le> unat x" using assms(2) by (simp add: word_le_nat_alt)
  with assms(1,3) have "unat x = unat s"
    by (metis add.commute le_add_diff_inverse2 mod_eq_dvd_iff_nat less_diff_conv2 nat_dvd_not_less
        not_gr_zero add_0 order.strict_iff_order zero_less_diff)
  then show ?thesis by (rule unsigned_word_eqI)
qed

lemma replay_rel_reset: "replay_rel (replay_reset r) {}"
  by (simp add: replay_rel_def replay_reset_def)

lemma replay_rel_slot:
  assumes "replay_rel r S"
  shows "receivedPacket r (unat s mod 256) = max_sequence \<and> (\<forall>t\<in>S. unat t mod 256 \<noteq> unat s mod 256) \<or>
      receivedPacket r (unat s mod 256) \<in> S \<and>
      unat (receivedPacket r (unat s mod 256)) mod 256 = unat s mod 256 \<and>
      (\<forall>t\<in>S. unat t mod 256 = unat s mod 256 \<longrightarrow> t \<le> receivedPacket r (unat s mod 256))"
  using assms by (simp add: replay_rel_def)

lemma replay_rel_seen:
  assumes "replay_rel r S"
  shows "alreadyReceived r s \<longleftrightarrow> too_old S s \<or> s \<in> S \<and> s \<noteq> max_sequence"
proof (cases "unat s + 256 \<le> newest S")
  case True
  with assms show ?thesis by (simp add: alreadyReceived_alt replay_rel_def too_old_def)
next
  case False
  let ?j = "unat s mod 256"
  let ?x = "receivedPacket r ?j"
  note slot = replay_rel_slot[OF assms, of s]
  from assms have recent: "unat (mostRecentSequence r) = newest S"
    by (simp add: replay_rel_def)
  have win: "unat t < unat s + 256" if "t \<in> S" for t
    using newest_ge[OF that] False by simp
  have "(?x \<noteq> max_sequence \<and> s \<le> ?x) \<longleftrightarrow> s \<in> S \<and> s \<noteq> max_sequence"
    using slot same_slot_in_window[of ?x s] win
    by (metis order_refl)
  with False recent show ?thesis by (simp add: alreadyReceived_alt too_old_def)
qed

lemma replay_rel_mark:
  assumes "replay_rel r S" and "\<not> alreadyReceived r s"
  shows "replay_rel (advanceSequence r s) (insert s S)"
proof -
  have recent: "unat (mostRecentSequence (advanceSequence r s)) = newest (insert s S)"
    using assms(1) by (auto simp: advanceSequence_def replay_rel_def newest_insert word_less_nat_alt Let_def max_def)
  have recv: "receivedPacket (advanceSequence r s) = (receivedPacket r)(unat s mod 256 := s)"
    by (simp add: advanceSequence_def Let_def)
  have top: "t \<le> s" if "t \<in> S" "unat t mod 256 = unat s mod 256" for t
  proof -
    let ?x = "receivedPacket r (unat s mod 256)"
    have x: "?x \<in> S" "unat ?x mod 256 = unat s mod 256" "t \<le> ?x"
      using replay_rel_slot[OF assms(1), of s] that by auto
    have "unat ?x < unat s + 256"
      using assms newest_ge[OF x(1)] by (auto simp: alreadyReceived_alt replay_rel_def)
    moreover have "?x = max_sequence \<or> ?x < s"
      using assms(2) by (auto simp: alreadyReceived_alt)
    moreover have "?x = max_sequence \<Longrightarrow> s \<le> ?x"
      using unat_max_sequence[of s] by (simp only: word_le_nat_alt)
    ultimately have "?x = s \<or> ?x < s" using same_slot_in_window[OF x(2)] by blast
    with x(3) show ?thesis by auto
  qed
  show ?thesis
    unfolding replay_rel_def
  proof (intro conjI allI impI)
    show "unat (mostRecentSequence (advanceSequence r s)) = newest (insert s S)" by (rule recent)
  next
    fix j :: nat assume "j < 256"
    then show "receivedPacket (advanceSequence r s) j = max_sequence \<and> (\<forall>t\<in>insert s S. unat t mod 256 \<noteq> j) \<or>
        receivedPacket (advanceSequence r s) j \<in> insert s S \<and>
        unat (receivedPacket (advanceSequence r s) j) mod 256 = j \<and>
        (\<forall>t\<in>insert s S. unat t mod 256 = j \<longrightarrow> t \<le> receivedPacket (advanceSequence r s) j)"
      using assms(1) top by (auto simp: recv replay_rel_def)
  qed
qed

interpretation window: replay_window alreadyReceived advanceSequence replay_rel
  by unfold_locales (auto simp: replay_rel_mark replay_rel_seen)

subsection \<open>Properties\<close>

text \<open>
  C9: at-most-once delivery. Whatever sequence numbers arrive, in whatever order and however
  often, no sequence number other than the reserved top value is accepted twice by a window
  that starts reset.
\<close>

theorem replay_at_most_once:
  "distinct (filter (\<lambda>s. s \<noteq> max_sequence)
     (fst (replay_run alreadyReceived advanceSequence (replay_reset r) ss)))"
  by (rule window.run_distinct[OF replay_rel_reset prod.collapse[symmetric]])

text \<open>
  C20: the window is exact. After any history, a sequence number is rejected precisely when it is at
  least 256 behind the newest accepted one, or was accepted before and is not the reserved top value,
  of which the window keeps no record; in particular a fresh packet
  inside the window is never lost, also for sequence numbers near the top of the 64 bit range,
  where a test written with wrapping addition would reject it.
\<close>

theorem replay_window_exact:
  "alreadyReceived (snd (replay_run alreadyReceived advanceSequence (replay_reset r) ss)) s \<longleftrightarrow>
     too_old (set (fst (replay_run alreadyReceived advanceSequence (replay_reset r) ss))) s \<or>
     s \<in> set (fst (replay_run alreadyReceived advanceSequence (replay_reset r) ss)) \<and> s \<noteq> max_sequence"
  using window.seen_after_run[OF replay_rel_reset prod.collapse[symmetric], of r ss s] by simp

text \<open>
  C24: the exception is real. The top sequence number coincides with the empty-entry mark, so it is
  accepted again right after it has been received: replay protection does not cover it.
\<close>

theorem replay_top_sequence_unprotected:
  "\<not> alreadyReceived (advanceSequence r max_sequence) max_sequence"
proof -
  let ?r = "advanceSequence r max_sequence"
  have "receivedPacket ?r (unat max_sequence mod 256) = max_sequence"
    by (simp add: advanceSequence_def Let_def)
  with unat_max_sequence[of "mostRecentSequence ?r"] show ?thesis
    by (simp add: alreadyReceived_alt)
qed

end
