(* ===== verification/Packet.thy ===== *)
theory Packet
  imports Token Replay
begin

unbundle bit_operations_syntax

text \<open>
  \<^verbatim>\<open>packet.go\<close>: the packet types, \<open>writePacket\<close> and \<open>readPacket\<close>. The buffer \<open>readPacket\<close>
  decrypts in place belongs to the caller, who does not look at it again; the model returns the
  packet (\<open>None\<close> for nil), the sequence number and the replay window as the call leaves them.
\<close>

definition connectionRequestPacket :: u8 where [simp]: "connectionRequestPacket = 0"
definition connectionDeniedPacket :: u8 where [simp]: "connectionDeniedPacket = 1"
definition connectionChallengePacket :: u8 where [simp]: "connectionChallengePacket = 2"
definition connectionResponsePacket :: u8 where [simp]: "connectionResponsePacket = 3"
definition connectionKeepAlivePacket :: u8 where [simp]: "connectionKeepAlivePacket = 4"
definition connectionPayloadPacket :: u8 where [simp]: "connectionPayloadPacket = 5"
definition connectionDisconnectPacket :: u8 where [simp]: "connectionDisconnectPacket = 6"
definition connectionNumPackets :: u8 where [simp]: "connectionNumPackets = 7"

record connectionRequest =
  req_versionInfo :: "byte list"
  req_protocolID :: u64
  req_connectTokenExpireTimestamp :: u64
  req_connectTokenNonce :: "byte list"
  req_connectTokenData :: "byte list"

datatype packet =
    ConnectionRequest connectionRequest
  | ConnectionDenied
  | ConnectionChallenge (challengeTokenSequence: u64) (challengeTokenData: "byte list")
  | ConnectionResponse (responseTokenSequence: u64) (responseTokenData: "byte list")
  | ConnectionKeepAlive (keepAliveClientIndex: i32) (keepAliveMaxClients: i32)
  | ConnectionPayload (payloadData: "byte list")
  | ConnectionDisconnect

fun packetType :: "packet \<Rightarrow> u8" where
  "packetType (ConnectionRequest _) = connectionRequestPacket"
| "packetType ConnectionDenied = connectionDeniedPacket"
| "packetType (ConnectionChallenge _ _) = connectionChallengePacket"
| "packetType (ConnectionResponse _ _) = connectionResponsePacket"
| "packetType (ConnectionKeepAlive _ _) = connectionKeepAlivePacket"
| "packetType (ConnectionPayload _) = connectionPayloadPacket"
| "packetType ConnectionDisconnect = connectionDisconnectPacket"

function sequence_bytes_loop :: "u64 \<Rightarrow> u64 \<Rightarrow> nat \<Rightarrow> nat" where
  "sequence_bytes_loop sequence m i =
     (if i < 7 then
        if sequence AND m \<noteq> 0 then i
        else sequence_bytes_loop sequence (drop_bit 8 m) (i + 1)
      else i)"
  by pat_completeness auto
termination
  by (relation "measure (\<lambda>(s, m, i). 7 - i)") auto

definition sequenceNumberBytesRequired :: "u64 \<Rightarrow> nat" where
  "sequenceNumberBytesRequired sequence = 8 - sequence_bytes_loop sequence 0xFF00000000000000 0"

definition packetAdditionalData :: "u64 \<Rightarrow> u8 \<Rightarrow> byte list option" where
  "packetAdditionalData protocolID prefixByte = do {
     w \<leftarrow> writer_bytes \<lparr>wbuffer = replicate (versionInfoBytes + 8 + 1) 0, wpos = 0\<rparr> versionInfo;
     w \<leftarrow> writer_uint64 w protocolID;
     w \<leftarrow> writer_uint8 w prefixByte;
     Some (wbuffer w) }"

definition write_request :: "connectionRequest \<Rightarrow> byte list \<Rightarrow> (nat \<times> byte list) option" where
  "write_request request buffer = do {
     w \<leftarrow> writer_uint8 \<lparr>wbuffer = buffer, wpos = 0\<rparr> connectionRequestPacket;
     w \<leftarrow> writer_bytes w (req_versionInfo request);
     w \<leftarrow> writer_uint64 w (req_protocolID request);
     w \<leftarrow> writer_uint64 w (req_connectTokenExpireTimestamp request);
     w \<leftarrow> writer_bytes w (req_connectTokenNonce request);
     w \<leftarrow> writer_bytes w (req_connectTokenData request);
     Some (wpos w, wbuffer w) }"

text \<open>The variable length sequence number of the header.\<close>

definition write_sequence :: "nat \<Rightarrow> u64 \<Rightarrow> writer \<Rightarrow> writer option" where
  "write_sequence sequenceBytes sequence w = do {
     (w, sequenceTemp) \<leftarrow> for_range (\<lambda>i (w, sequenceTemp). do {
         w \<leftarrow> writer_uint8 w (ucast (sequenceTemp AND 0xFF));
         Some (w, drop_bit 8 sequenceTemp) }) 0 sequenceBytes (w, sequence);
     Some w }"

text \<open>The type switch. A connection request never reaches it.\<close>

fun write_body :: "packet \<Rightarrow> writer \<Rightarrow> writer option" where
  "write_body ConnectionDenied w = Some w"
| "write_body (ConnectionChallenge sequence tokenData) w = do {
     w \<leftarrow> writer_uint64 w sequence;
     writer_bytes w tokenData }"
| "write_body (ConnectionResponse sequence tokenData) w = do {
     w \<leftarrow> writer_uint64 w sequence;
     writer_bytes w tokenData }"
| "write_body (ConnectionKeepAlive clientIndex maxClients) w = do {
     w \<leftarrow> writer_uint32 w clientIndex;
     writer_uint32 w maxClients }"
| "write_body (ConnectionPayload payload) w = writer_bytes w payload"
| "write_body ConnectionDisconnect w = Some w"
| "write_body (ConnectionRequest _) w = None"

definition write_encrypted ::
  "crypto \<Rightarrow> packet \<Rightarrow> byte list \<Rightarrow> u64 \<Rightarrow> byte list \<Rightarrow> u64 \<Rightarrow> (nat \<times> byte list) option" where
  "write_encrypted C p buffer sequence writePacketKey protocolID = do {
     let sequenceBytes = sequenceNumberBytesRequired sequence;
     let prefixByte = packetType p OR push_bit 4 (of_nat sequenceBytes);
     w \<leftarrow> writer_uint8 \<lparr>wbuffer = buffer, wpos = 0\<rparr> prefixByte;
     w \<leftarrow> write_sequence sequenceBytes sequence w;
     let encryptedStart = wpos w;
     w \<leftarrow> write_body p w;
     let encryptedFinish = wpos w;
     additional \<leftarrow> packetAdditionalData protocolID prefixByte;
     nonce \<leftarrow> packetNonce sequence;
     (if encryptedStart \<le> length (wbuffer w) then do {
        result \<leftarrow> encryptAEAD C (drop encryptedStart (wbuffer w)) (encryptedFinish - encryptedStart)
                    additional nonce writePacketKey;
        case result of
          Inl _ \<Rightarrow> Some (0, wbuffer w)
        | Inr encrypted \<Rightarrow> Some (encryptedFinish + MacBytes, take encryptedStart (wbuffer w) @ encrypted) }
      else None) }"

definition writePacket ::
  "crypto \<Rightarrow> packet \<Rightarrow> byte list \<Rightarrow> u64 \<Rightarrow> byte list \<Rightarrow> u64 \<Rightarrow> (nat \<times> byte list) option" where
  "writePacket C p buffer sequence writePacketKey protocolID =
     (case p of ConnectionRequest request \<Rightarrow> write_request request buffer
      | _ \<Rightarrow> write_encrypted C p buffer sequence writePacketKey protocolID)"

type_synonym read_result = "packet option \<times> u64 \<times> replayProtection option"

definition read_request ::
  "crypto \<Rightarrow> byte list \<Rightarrow> reader \<Rightarrow> u64 \<Rightarrow> u64 \<Rightarrow> u64 \<Rightarrow> byte list option \<Rightarrow> bool arr \<Rightarrow>
     packet option option" where
  "read_request C buffer r protocolID currentTimestamp minConnectTokenExpireTimestamp privateKey allowedPackets =
     (if \<not> allowedPackets (unat connectionRequestPacket) then Some None
      else if length buffer \<noteq> 1 + versionInfoBytes + 8 + 8 + connectTokenNonceBytes + connectTokenPrivateBytes
      then Some None
      else case privateKey of None \<Rightarrow> Some None
      | Some privateKey \<Rightarrow> do {
          (packetVersionInfo, r) \<leftarrow> reader_bytes versionInfoBytes r;
          if packetVersionInfo \<noteq> versionInfo then Some None
          else do {
            (packetProtocolID, r) \<leftarrow> reader_uint64 r;
            if packetProtocolID \<noteq> protocolID then Some None
            else do {
              (packetConnectTokenExpireTimestamp, r) \<leftarrow> reader_uint64 r;
              if packetConnectTokenExpireTimestamp \<le> currentTimestamp then Some None
              else if packetConnectTokenExpireTimestamp < minConnectTokenExpireTimestamp then Some None
              else do {
                (packetConnectTokenNonce, r) \<leftarrow> reader_bytes connectTokenNonceBytes r;
                result \<leftarrow> decryptConnectTokenPrivate C (drop (rpos r) buffer) protocolID
                            packetConnectTokenExpireTimestamp packetConnectTokenNonce privateKey;
                case result of Inl _ \<Rightarrow> Some None
                | Inr decrypted \<Rightarrow> do {
                    (connectTokenData, r) \<leftarrow> reader_bytes connectTokenPrivateBytes
                        \<lparr>rbuffer = take (rpos r) buffer @ decrypted, rpos = rpos r\<rparr>;
                    Some (Some (ConnectionRequest
                      \<lparr>req_versionInfo = packetVersionInfo, req_protocolID = packetProtocolID,
                       req_connectTokenExpireTimestamp = packetConnectTokenExpireTimestamp,
                       req_connectTokenNonce = packetConnectTokenNonce,
                       req_connectTokenData = connectTokenData\<rparr>)) } } } } })"

definition read_sequence :: "nat \<Rightarrow> reader \<Rightarrow> (u64 \<times> reader) option" where
  "read_sequence sequenceBytes r =
     for_range (\<lambda>i (sequence, r). do {
         (value, r) \<leftarrow> reader_uint8 r;
         Some (sequence OR push_bit (8 * i) (ucast value), r) }) 0 sequenceBytes (0, r)"

text \<open>The switch over the packet type, on the decrypted bytes.\<close>

definition read_body :: "u8 \<Rightarrow> nat \<Rightarrow> reader \<Rightarrow> packet option option" where
  "read_body ptype decryptedBytes r =
     (if ptype = connectionDeniedPacket then
        if decryptedBytes \<noteq> 0 then Some None else Some (Some ConnectionDenied)
      else if ptype = connectionChallengePacket then
        if decryptedBytes \<noteq> 8 + challengeTokenBytes then Some None
        else do {
          (sequence, r) \<leftarrow> reader_uint64 r;
          (tokenData, r) \<leftarrow> reader_bytes challengeTokenBytes r;
          Some (Some (ConnectionChallenge sequence tokenData)) }
      else if ptype = connectionResponsePacket then
        if decryptedBytes \<noteq> 8 + challengeTokenBytes then Some None
        else do {
          (sequence, r) \<leftarrow> reader_uint64 r;
          (tokenData, r) \<leftarrow> reader_bytes challengeTokenBytes r;
          Some (Some (ConnectionResponse sequence tokenData)) }
      else if ptype = connectionKeepAlivePacket then
        if decryptedBytes \<noteq> 8 then Some None
        else do {
          (clientIndex, r) \<leftarrow> reader_uint32 r;
          (maxClients, r) \<leftarrow> reader_uint32 r;
          Some (Some (ConnectionKeepAlive clientIndex maxClients)) }
      else if ptype = connectionPayloadPacket then
        if decryptedBytes < 1 then Some None
        else if decryptedBytes > maxPayloadBytes then Some None
        else do {
          (payload, r) \<leftarrow> reader_bytes decryptedBytes r;
          Some (Some (ConnectionPayload payload)) }
      else if ptype = connectionDisconnectPacket then
        if decryptedBytes \<noteq> 0 then Some None else Some (Some ConnectionDisconnect)
      else Some None)"

definition read_encrypted ::
  "crypto \<Rightarrow> byte list \<Rightarrow> u8 \<Rightarrow> reader \<Rightarrow> byte list option \<Rightarrow> u64 \<Rightarrow> bool arr \<Rightarrow>
     replayProtection option \<Rightarrow> read_result option" where
  "read_encrypted C buffer prefixByte r readPacketKey protocolID allowedPackets replay =
     (case readPacketKey of None \<Rightarrow> Some (None, 0, replay)
      | Some key \<Rightarrow>
        if length buffer < 1 + 1 + MacBytes then Some (None, 0, replay)
        else let ptype = prefixByte AND 0xF in
        if ptype \<ge> connectionNumPackets then Some (None, 0, replay)
        else if \<not> allowedPackets (unat ptype) then Some (None, 0, replay)
        else let sequenceBytes = unat (drop_bit 4 prefixByte) in
        if sequenceBytes < 1 \<or> sequenceBytes > 8 then Some (None, 0, replay)
        else if length buffer < 1 + sequenceBytes + MacBytes then Some (None, 0, replay)
        else do {
          (sequence, r) \<leftarrow> read_sequence sequenceBytes r;
          if (case replay of None \<Rightarrow> False
              | Some rp \<Rightarrow> ptype \<ge> connectionKeepAlivePacket \<and> alreadyReceived rp sequence)
          then Some (None, sequence, replay)
          else do {
            additional \<leftarrow> packetAdditionalData protocolID prefixByte;
            nonce \<leftarrow> packetNonce sequence;
            let encryptedBytes = length buffer - rpos r;
            if encryptedBytes < MacBytes then Some (None, sequence, replay)
            else do {
              result \<leftarrow> decryptAEAD C (drop (rpos r) buffer) encryptedBytes additional nonce key;
              case result of Inl _ \<Rightarrow> Some (None, sequence, replay)
              | Inr decrypted \<Rightarrow> do {
                  let decryptedBytes = encryptedBytes - MacBytes;
                  let replay = (case replay of None \<Rightarrow> None
                      | Some rp \<Rightarrow> Some (if ptype \<ge> connectionKeepAlivePacket
                                        then advanceSequence rp sequence else rp));
                  p \<leftarrow> read_body ptype decryptedBytes
                         \<lparr>rbuffer = take (rpos r) buffer @ decrypted, rpos = rpos r\<rparr>;
                  Some (p, sequence, replay) } } } })"

definition readPacket ::
  "crypto \<Rightarrow> byte list \<Rightarrow> byte list option \<Rightarrow> u64 \<Rightarrow> u64 \<Rightarrow> u64 \<Rightarrow> byte list option \<Rightarrow> bool arr \<Rightarrow>
     replayProtection option \<Rightarrow> read_result option" where
  "readPacket C buffer readPacketKey protocolID currentTimestamp minConnectTokenExpireTimestamp privateKey
     allowedPackets replay =
     (if length buffer < 1 then Some (None, 0, replay)
      else do {
        (prefixByte, r) \<leftarrow> reader_uint8 \<lparr>rbuffer = buffer, rpos = 0\<rparr>;
        if prefixByte = connectionRequestPacket then do {
          p \<leftarrow> read_request C buffer r protocolID currentTimestamp minConnectTokenExpireTimestamp
                 privateKey allowedPackets;
          Some (p, 0, replay) }
        else read_encrypted C buffer prefixByte r readPacketKey protocolID allowedPackets replay })"

subsection \<open>Sequence numbers and the prefix byte\<close>

declare sequence_bytes_loop.simps [simp del]

abbreviation top_byte :: u64 where
  "top_byte \<equiv> push_bit 56 (mask 8)"

lemma top_byte_eq: "0xFF00000000000000 = top_byte"
  by (simp add: mask_eq_exp_minus_1 push_bit_eq_mult)

lemma top_byte_zero:
  assumes "(s :: u64) AND drop_bit (8 * i) top_byte = 0" and "drop_bit (64 - 8 * i) s = 0" and "i \<le> 7"
  shows "drop_bit (56 - 8 * i) s = 0"
proof (rule bit_word_eqI)
  fix k assume "k < LENGTH(64)"
  have "\<not> bit s (56 - 8 * i + k)"
  proof (cases "k < 8")
    case True
    from arg_cong[OF assms(1), of "\<lambda>w. bit w (56 - 8 * i + k)"] True assms(3) show ?thesis
      by (auto simp: bit_simps)
  next
    case False
    from arg_cong[OF assms(2), of "\<lambda>w. bit w (k - 8)"] False assms(3) show ?thesis
      by (auto simp: bit_simps Suc_diff_le)
  qed
  then show "bit (drop_bit (56 - 8 * i) s) k \<longleftrightarrow> bit 0 k" by (simp add: bit_simps)
qed

lemma top_byte_nonzero:
  assumes "(s :: u64) AND drop_bit (8 * i) top_byte \<noteq> 0" and "i \<le> 7"
  shows "drop_bit (56 - 8 * i) s \<noteq> 0"
proof
  assume z: "drop_bit (56 - 8 * i) s = 0"
  have "s AND drop_bit (8 * i) top_byte = 0"
  proof (rule bit_word_eqI)
    fix k assume "k < LENGTH(64)"
    show "bit (s AND drop_bit (8 * i) top_byte) k \<longleftrightarrow> bit 0 k"
      using arg_cong[OF z, of "\<lambda>w. bit w (k - (56 - 8 * i))"] assms(2)
      by (auto simp: bit_simps)
  qed
  with assms(1) show False ..
qed

lemma sequence_bytes_loop_spec:
  assumes "i \<le> 7" and "drop_bit (64 - 8 * i) (s :: u64) = 0" and "m = drop_bit (8 * i) top_byte"
  defines "j \<equiv> sequence_bytes_loop s m i"
  shows "i \<le> j \<and> j \<le> 7 \<and> drop_bit (64 - 8 * j) s = 0 \<and> (j = 7 \<or> drop_bit (56 - 8 * j) s \<noteq> 0)"
  using assms(1-3) unfolding j_def
proof (induction s m i rule: sequence_bytes_loop.induct)
  case (1 s m i)
  show ?case
  proof (cases "i < 7 \<and> s AND m = 0")
    case True
    then have step: "sequence_bytes_loop s m i = sequence_bytes_loop s (drop_bit 8 m) (i + 1)"
      by (subst sequence_bytes_loop.simps) simp
    have "drop_bit (64 - 8 * (i + 1)) s = 0"
      using top_byte_zero[of s i] True "1.prems" by simp
    moreover have "drop_bit 8 m = drop_bit (8 * (i + 1)) top_byte"
      unfolding "1.prems"(3) drop_bit_drop_bit by (simp only: distrib_left mult_1_right add.commute)
    ultimately have "i + 1 \<le> sequence_bytes_loop s (drop_bit 8 m) (i + 1) \<and>
        sequence_bytes_loop s (drop_bit 8 m) (i + 1) \<le> 7 \<and>
        drop_bit (64 - 8 * sequence_bytes_loop s (drop_bit 8 m) (i + 1)) s = 0 \<and>
        (sequence_bytes_loop s (drop_bit 8 m) (i + 1) = 7 \<or>
         drop_bit (56 - 8 * sequence_bytes_loop s (drop_bit 8 m) (i + 1)) s \<noteq> 0)"
      using "1.IH" True by simp
    then show ?thesis unfolding step by linarith
  next
    case False
    then have "sequence_bytes_loop s m i = i"
      by (subst sequence_bytes_loop.simps) auto
    with False "1.prems" top_byte_nonzero[of s i] show ?thesis by auto
  qed
qed

lemma sequence_bytes:
  fixes s :: u64
  defines "n \<equiv> sequenceNumberBytesRequired s"
  shows "1 \<le> n" "n \<le> 8" "drop_bit (8 * n) s = 0" "n = 1 \<or> drop_bit (8 * (n - 1)) s \<noteq> 0"
proof -
  define j where "j = sequence_bytes_loop s 0xFF00000000000000 0"
  have "drop_bit 64 s = 0" by (rule bit_word_eqI) (auto simp: bit_simps dest: bit_imp_le_length)
  then have j: "j \<le> 7" "drop_bit (64 - 8 * j) s = 0" "j = 7 \<or> drop_bit (56 - 8 * j) s \<noteq> 0"
    using sequence_bytes_loop_spec[of 0 s top_byte] by (auto simp: j_def top_byte_eq)
  have n: "n = 8 - j" by (simp add: n_def sequenceNumberBytesRequired_def j_def)
  have "8 * n = 64 - 8 * j" "8 * (n - 1) = 56 - 8 * j" using j(1) n by auto
  with j n show "1 \<le> n" "n \<le> 8" "drop_bit (8 * n) s = 0" "n = 1 \<or> drop_bit (8 * (n - 1)) s \<noteq> 0"
    by auto
qed

definition prefix_byte :: "packet \<Rightarrow> u64 \<Rightarrow> u8" where
  "prefix_byte p s = packetType p OR push_bit 4 (of_nat (sequenceNumberBytesRequired s))"

lemma prefix_fields:
  assumes "1 \<le> n" and "n \<le> 8"
  shows "(packetType p OR push_bit 4 (of_nat n)) AND 0xF = packetType p"
    and "unat (drop_bit 4 (packetType p OR push_bit 4 (of_nat n) :: u8)) = n"
    and "packetType p OR push_bit 4 (of_nat n) \<noteq> 0"
proof -
  have n: "n = 1 \<or> n = 2 \<or> n = 3 \<or> n = 4 \<or> n = 5 \<or> n = 6 \<or> n = 7 \<or> n = 8" using assms by arith
  show "(packetType p OR push_bit 4 (of_nat n)) AND 0xF = packetType p"
    using n by (elim disjE; cases p) simp_all
  show "unat (drop_bit 4 (packetType p OR push_bit 4 (of_nat n) :: u8)) = n"
    using n by (elim disjE; cases p) simp_all
  show "packetType p OR push_bit 4 (of_nat n) \<noteq> 0"
    using n by (elim disjE; cases p) simp_all
qed

lemma ucast_low_byte: "ucast (s AND 0xFF) = (ucast (s :: u64) :: byte)"
proof -
  have "(0xFF :: u64) = mask 8" by (simp add: mask_eq_exp_minus_1)
  then have "s AND 0xFF = take_bit 8 s" by (simp only: take_bit_eq_mask)
  then show ?thesis by (auto intro!: bit_word_eqI simp: bit_simps)
qed

lemma write_sequence_emit:
  assumes "fits w n"
  shows "write_sequence n s w = Some (emit w (le_encode n s))"
proof -
  have "for_range (\<lambda>i (w, t). do { w \<leftarrow> writer_uint8 w (ucast (t AND 0xFF)); Some (w, drop_bit 8 t) }) i n (w, s) =
      Some (emit w (le_encode n s), drop_bit (8 * n) s)" for i
    using assms
  proof (induction n arbitrary: i w s)
    case 0
    then show ?case by (simp add: emit_def fits_def)
  next
    case (Suc n)
    have f: "fits w 1" "fits w (length [ucast s :: byte] + length (le_encode n (drop_bit 8 s)))"
      using Suc.prems by (simp_all add: fits_def)
    then have "fits (emit w [ucast s]) n" by simp
    from Suc.IH[OF this] f emit_emit[OF f(2)] show ?case
      by (simp add: ucast_low_byte put_simps drop_bit_drop_bit ac_simps)
  qed
  then show ?thesis by (simp add: write_sequence_def)
qed

lemma read_sequence_holds:
  assumes "holds r bs" and "length bs = n"
  shows "read_sequence n r = Some (le_decode bs, advance r n)"
proof -
  have "for_range (\<lambda>i (s, r). do { (v, r) \<leftarrow> reader_uint8 r; Some (s OR push_bit (8 * i) (ucast v), r) }) i n (acc, r) =
      Some (acc OR push_bit (8 * i) (le_decode bs), advance r n)" for i and acc :: u64
    using assms
  proof (induction bs arbitrary: i n r acc)
    case Nil
    then show ?case by (simp add: advance_def)
  next
    case (Cons b bs)
    have "holds r ([b] @ bs)" using Cons.prems by simp
    then have h: "holds r [b]" "holds (advance r 1) bs" unfolding holds_append by simp_all
    have "(acc OR push_bit (8 * i) (ucast b)) OR push_bit (8 * Suc i) (le_decode bs) =
        acc OR push_bit (8 * i) (ucast b OR push_bit 8 (le_decode bs) :: u64)"
      by (simp only: or.assoc push_bit_or push_bit_push_bit mult_Suc_right add.commute)
    with Cons.IH[OF h(2) refl, of "Suc i" "acc OR push_bit (8 * i) (ucast b)"]
      reader_uint8_holds[OF h(1)] show ?case
      unfolding Cons.prems(2)[symmetric] by (simp del: mult_Suc_right push_bit_or)
  qed
  from this[of 0 0] show ?thesis by (simp add: read_sequence_def)
qed

lemma packetAdditionalData_eq [simp]:
  "packetAdditionalData p b = Some (versionInfo @ le_encode 8 p @ [b])"
proof -
  let ?w = "\<lparr>wbuffer = replicate 22 0, wpos = 0\<rparr>"
  have f: "fits ?w k" if "k \<le> 22" for k using that by (simp add: fits_def)
  have "packetAdditionalData p b = Some (wbuffer (emit ?w (versionInfo @ le_encode 8 p @ [b])))"
    by (simp add: packetAdditionalData_def put_simps emit_emit f)
  then show ?thesis by (simp add: emit_start)
qed

subsection \<open>Packet bodies on the wire\<close>

fun enc_body :: "packet \<Rightarrow> byte list" where
  "enc_body (ConnectionChallenge s d) = le_encode 8 s @ d"
| "enc_body (ConnectionResponse s d) = le_encode 8 s @ d"
| "enc_body (ConnectionKeepAlive i m) = le_encode 4 i @ le_encode 4 m"
| "enc_body (ConnectionPayload d) = d"
| "enc_body _ = []"

fun packet_ok :: "packet \<Rightarrow> bool" where
  "packet_ok (ConnectionRequest q) \<longleftrightarrow>
     length (req_versionInfo q) = versionInfoBytes \<and> length (req_connectTokenNonce q) = connectTokenNonceBytes \<and>
     length (req_connectTokenData q) = connectTokenPrivateBytes"
| "packet_ok (ConnectionChallenge s d) \<longleftrightarrow> length d = challengeTokenBytes"
| "packet_ok (ConnectionResponse s d) \<longleftrightarrow> length d = challengeTokenBytes"
| "packet_ok (ConnectionPayload d) \<longleftrightarrow> 1 \<le> length d \<and> length d \<le> maxPayloadBytes"
| "packet_ok _ \<longleftrightarrow> True"

definition is_request :: "packet \<Rightarrow> bool" where
  "is_request p \<longleftrightarrow> packetType p = connectionRequestPacket"

lemma is_request_simps [simp]:
  "is_request (ConnectionRequest q)" "\<not> is_request ConnectionDenied" "\<not> is_request (ConnectionChallenge s d)"
  "\<not> is_request (ConnectionResponse s d)" "\<not> is_request (ConnectionKeepAlive i m)"
  "\<not> is_request (ConnectionPayload d)" "\<not> is_request ConnectionDisconnect"
  by (simp_all add: is_request_def)

lemma packetType_less: "packetType p < 7"
  by (cases p) simp_all

lemma length_enc_body: "packet_ok p \<Longrightarrow> length (enc_body p) \<le> 1200"
  by (cases p) simp_all

lemma emit_Nil: "fits w n \<Longrightarrow> emit w [] = w"
  by (simp add: emit_def fits_def)

lemma write_body_emit:
  "\<not> is_request p \<Longrightarrow> fits w (length (enc_body p)) \<Longrightarrow> write_body p w = Some (emit w (enc_body p))"
  by (cases p) (auto simp: put_simps emit_emit emit_Nil fits_le)

lemma read_body_enc:
  assumes "packet_ok p" and "\<not> is_request p" and "holds r (enc_body p)"
  shows "read_body (packetType p) (length (enc_body p)) r = Some (Some p)"
proof (cases p)
  case (ConnectionChallenge s d)
  with assms have "holds r (le_encode 8 s @ d)" "length d = 300" by simp_all
  then have h: "holds r (le_encode 8 s)" "holds (advance r 8) d" "length d = 300"
    unfolding holds_append by simp_all
  with ConnectionChallenge show ?thesis
    by (simp add: read_body_def reader_uint64_holds[OF h(1)] reader_bytes_holds[OF h(2,3)])
next
  case (ConnectionResponse s d)
  with assms have "holds r (le_encode 8 s @ d)" "length d = 300" by simp_all
  then have h: "holds r (le_encode 8 s)" "holds (advance r 8) d" "length d = 300"
    unfolding holds_append by simp_all
  with ConnectionResponse show ?thesis
    by (simp add: read_body_def reader_uint64_holds[OF h(1)] reader_bytes_holds[OF h(2,3)])
next
  case (ConnectionKeepAlive i m)
  with assms have "holds r (le_encode 4 i @ le_encode 4 m)" by simp
  then have h: "holds r (le_encode 4 i)" "holds (advance r 4) (le_encode 4 m)"
    unfolding holds_append by simp_all
  with ConnectionKeepAlive show ?thesis
    by (simp add: read_body_def reader_uint32_holds[OF h(1)] reader_uint32_holds[OF h(2)])
next
  case (ConnectionPayload d)
  with assms have h: "holds r d" "1 \<le> length d" "length d \<le> 1200" by simp_all
  with ConnectionPayload show ?thesis
    by (auto simp: read_body_def reader_bytes_holds[OF h(1)])
qed (use assms in \<open>simp_all add: read_body_def\<close>)

lemma holds_le_decode:
  assumes "rpos r + n \<le> length (rbuffer r)" and "8 * n \<le> LENGTH('a::len)"
  shows "le_encode n (le_decode (take n (drop (rpos r) (rbuffer r))) :: 'a word) = take n (drop (rpos r) (rbuffer r))"
  using le_encode_decode[of "take n (drop (rpos r) (rbuffer r))", where 'a = 'a] assms by simp

lemma read_body_total:
  assumes "rpos r + n \<le> length (rbuffer r)"
  shows "\<exists>q. read_body t n r = Some q \<and>
    (\<forall>p. q = Some p \<longrightarrow> packetType p = t \<and> packet_ok p \<and> \<not> is_request p \<and>
       enc_body p = take n (drop (rpos r) (rbuffer r)))"
proof -
  have split: "take (a + b) xs = take a xs @ take b (drop a xs)" for a b and xs :: "byte list"
    by (rule take_add)
  consider "t = 1" | "t = 2" | "t = 3" | "t = 4" | "t = 5" | "t = 6" | "t \<notin> {1, 2, 3, 4, 5, 6}" by auto
  then show ?thesis
  proof cases
    case 2
    with assms holds_le_decode[of r 8, where 'a = 64] split[of 8 300 "drop (rpos r) (rbuffer r)"] show ?thesis
      by (auto simp: read_body_def reader_totals add.commute)
  next
    case 3
    with assms holds_le_decode[of r 8, where 'a = 64] split[of 8 300 "drop (rpos r) (rbuffer r)"] show ?thesis
      by (auto simp: read_body_def reader_totals add.commute)
  next
    case 4
    with assms holds_le_decode[of r 4, where 'a = 32] holds_le_decode[of "advance r 4" 4, where 'a = 32]
      split[of 4 4 "drop (rpos r) (rbuffer r)"] show ?thesis
      by (auto simp: read_body_def reader_totals add.commute)
  qed (use assms in \<open>auto simp: read_body_def reader_totals\<close>)
qed

subsection \<open>Writing\<close>

definition packet_ad :: "u64 \<Rightarrow> u8 \<Rightarrow> byte list" where
  "packet_ad protocolID prefixByte = versionInfo @ le_encode 8 protocolID @ [prefixByte]"

definition nonce_bytes :: "u64 \<Rightarrow> byte list" where
  "nonce_bytes s = replicate 4 0 @ le_encode 8 s"

lemma length_nonce_bytes [simp]: "length (nonce_bytes s) = 12"
  by (simp add: nonce_bytes_def)

definition packet_header :: "packet \<Rightarrow> u64 \<Rightarrow> byte list" where
  "packet_header p s = prefix_byte p s # le_encode (sequenceNumberBytesRequired s) s"

definition sealed_packet :: "crypto \<Rightarrow> packet \<Rightarrow> u64 \<Rightarrow> byte list \<Rightarrow> u64 \<Rightarrow> byte list" where
  "sealed_packet C p s key protocolID =
     packet_header p s @ seal (chacha C) key (nonce_bytes s) (packet_ad protocolID (prefix_byte p s)) (enc_body p)"

lemma length_packet_header: "length (packet_header p s) = 1 + sequenceNumberBytesRequired s"
  by (simp add: packet_header_def)

lemma length_sealed_packet:
  "crypto_ok C \<Longrightarrow>
    length (sealed_packet C p s key pid) = 1 + sequenceNumberBytesRequired s + length (enc_body p) + 16"
  by (simp add: sealed_packet_def length_packet_header length_seal[OF crypto_okD(1)])

lemma write_encrypted_eq:
  assumes "crypto_ok C" and "length key = 32" and "\<not> is_request p"
    and room: "length (sealed_packet C p s key pid) \<le> length buf"
  shows "write_encrypted C p buf s key pid =
    Some (length (sealed_packet C p s key pid),
      sealed_packet C p s key pid @ drop (length (sealed_packet C p s key pid)) buf)"
proof -
  let ?n = "sequenceNumberBytesRequired s" and ?b = "enc_body p" and ?w = "\<lparr>wbuffer = buf, wpos = 0\<rparr>"
  let ?h = "packet_header p s"
  note len = length_sealed_packet[OF assms(1), of p s key pid]
  have f: "fits ?w k" if "k \<le> 1 + ?n + length ?b" for k using that room len by (simp add: fits_def)
  have bufw: "wbuffer (emit ?w (?h @ ?b)) = ?h @ ?b @ drop (1 + ?n + length ?b) buf"
    using emit_start[of "?h @ ?b" buf] room len by (simp add: length_packet_header)
  have body: "write_body p (emit ?w ?h) = Some (emit ?w (?h @ ?b))"
    using write_body_emit[OF assms(3), of "emit ?w ?h"] f emit_emit[of ?w ?h ?b]
    by (simp add: length_packet_header)
  have head: "writer_uint8 ?w (prefix_byte p s) = Some (emit ?w [prefix_byte p s])"
    "write_sequence ?n s (emit ?w [prefix_byte p s]) = Some (emit ?w ?h)"
    using f write_sequence_emit[of "emit ?w [prefix_byte p s]" ?n s]
      emit_emit[of ?w "[prefix_byte p s]" "le_encode ?n s"]
    by (simp_all add: put_simps packet_header_def)
  let ?buf = "?b @ drop (1 + ?n + length ?b) buf"
  have "encryptAEAD C ?buf (length ?b) (packet_ad pid (prefix_byte p s)) (nonce_bytes s) key =
      Some (Inr (seal (chacha C) key (nonce_bytes s) (packet_ad pid (prefix_byte p s)) ?b @
        drop (length (sealed_packet C p s key pid)) buf))"
    using seal_in_place_room[OF crypto_okD(1)[OF assms(1)] assms(2), of "nonce_bytes s" 12 "length ?b" ?buf
        "packet_ad pid (prefix_byte p s)"] room len
    by (simp add: encrypt_defs ac_simps)
  then show ?thesis
    using len bufw head body
    by (simp add: write_encrypted_def Let_def prefix_byte_def[symmetric] length_packet_header
        packet_ad_def[symmetric] nonce_bytes_def[symmetric] sealed_packet_def)
qed

subsection \<open>Reading\<close>

definition replay_blocks :: "replayProtection option \<Rightarrow> u8 \<Rightarrow> u64 \<Rightarrow> bool" where
  "replay_blocks replay t s \<longleftrightarrow>
     (case replay of None \<Rightarrow> False | Some rp \<Rightarrow> t \<ge> connectionKeepAlivePacket \<and> alreadyReceived rp s)"

definition replay_mark :: "replayProtection option \<Rightarrow> u8 \<Rightarrow> u64 \<Rightarrow> replayProtection option" where
  "replay_mark replay t s =
     (case replay of None \<Rightarrow> None
      | Some rp \<Rightarrow> Some (if t \<ge> connectionKeepAlivePacket then advanceSequence rp s else rp))"

text \<open>The checks before anything is decrypted.\<close>

definition header_ok :: "byte list \<Rightarrow> u8 \<Rightarrow> bool arr \<Rightarrow> bool" where
  "header_ok buf b allowed \<longleftrightarrow> 18 \<le> length buf \<and> b AND 0xF < 7 \<and> allowed (unat (b AND 0xF)) \<and>
     1 \<le> unat (drop_bit 4 b) \<and> unat (drop_bit 4 b) \<le> 8 \<and> 1 + unat (drop_bit 4 b) + 16 \<le> length buf"

lemma read_encrypted_reject:
  "key = None \<or> \<not> header_ok buf b allowed \<Longrightarrow>
    read_encrypted C buf b r key pid allowed replay = Some (None, 0, replay)"
  by (auto simp: read_encrypted_def header_ok_def Let_def not_le not_less split: option.splits)

lemma read_encrypted_eq:
  fixes sq :: "byte list"
  defines "s \<equiv> le_decode sq :: u64"
  assumes "header_ok (b # sq @ ct) b allowed" and "length sq = unat (drop_bit 4 b)"
  shows "read_encrypted C (b # sq @ ct) b \<lparr>rbuffer = b # sq @ ct, rpos = 1\<rparr> (Some k) pid allowed replay =
    (if replay_blocks replay (b AND 0xF) s \<or> length k \<noteq> 32 then Some (None, s, replay)
     else case unseal (chacha C) k (nonce_bytes s) (packet_ad pid b) ct of
         None \<Rightarrow> Some (None, s, replay)
       | Some plain \<Rightarrow> do {
           q \<leftarrow> read_body (b AND 0xF) (length ct - 16)
                 \<lparr>rbuffer = b # sq @ plain @ drop (length plain) ct, rpos = 1 + length sq\<rparr>;
           Some (q, s, replay_mark replay (b AND 0xF) s) })"
proof -
  let ?r = "\<lparr>rbuffer = b # sq @ ct, rpos = Suc 0\<rparr>"
  have "holds ?r sq" by (simp add: holds_def)
  from read_sequence_holds[OF this assms(3)]
  have seq: "read_sequence (unat (drop_bit 4 b)) ?r = Some (s, advance ?r (length sq))"
    by (simp add: s_def assms(3))
  have ct: "16 \<le> length ct" using assms(2,3) by (simp add: header_ok_def)
  have guards: "\<not> length (b # sq @ ct) < 18" "\<not> 7 \<le> b AND 0xF" "allowed (unat (b AND 0xF))"
    "\<not> (unat (drop_bit 4 b) < 1 \<or> 8 < unat (drop_bit 4 b))" "\<not> length (b # sq @ ct) < 1 + unat (drop_bit 4 b) + 16"
    using assms(2) unfolding header_ok_def by (simp_all add: not_le not_less)
  have dec: "decryptAEAD C ct (length ct) (packet_ad pid b) (nonce_bytes s) k =
      (if length k \<noteq> 32 then Some (Inl KeyLengthError)
       else case unseal (chacha C) k (nonce_bytes s) (packet_ad pid b) ct of
          None \<Rightarrow> Some (Inl DecryptFailed)
        | Some plain \<Rightarrow> Some (Inr (plain @ drop (length plain) ct)))"
    by (simp add: encrypt_defs open_in_place_def)
  show ?thesis
    using guards ct
    by (auto simp: read_encrypted_def Let_def seq dec replay_blocks_def replay_mark_def
        packet_ad_def[symmetric] nonce_bytes_def[symmetric] advance_def split: option.splits)
qed

text \<open>Every way \<open>readPacket\<close> can answer for an encrypted packet.\<close>

definition encrypted_accept ::
  "crypto \<Rightarrow> byte list \<Rightarrow> byte list option \<Rightarrow> u64 \<Rightarrow> bool arr \<Rightarrow> replayProtection option \<Rightarrow> packet option \<Rightarrow> u64 \<Rightarrow> bool" where
  "encrypted_accept C buf key pid allowed replay q s \<longleftrightarrow>
     (\<exists>k b sq plain. key = Some k \<and> length k = 32 \<and> header_ok buf b allowed \<and>
        length sq = unat (drop_bit 4 b) \<and> s = le_decode sq \<and>
        \<not> replay_blocks replay (b AND 0xF) s \<and>
        buf = b # sq @ seal (chacha C) k (nonce_bytes s) (packet_ad pid b) plain \<and>
        (\<forall>p. q = Some p \<longrightarrow> packetType p = b AND 0xF \<and> packet_ok p \<and> \<not> is_request p \<and> enc_body p = plain))"

lemma read_encrypted_cases:
  assumes "crypto_ok C" and "buf = b # rest"
  shows "\<exists>q s. read_encrypted C buf b \<lparr>rbuffer = buf, rpos = 1\<rparr> key pid allowed replay = Some (q, s, replay) \<and> q = None \<or>
    read_encrypted C buf b \<lparr>rbuffer = buf, rpos = 1\<rparr> key pid allowed replay =
      Some (q, s, replay_mark replay (b AND 0xF) s) \<and> encrypted_accept C buf key pid allowed replay q s"
proof (cases "key = None \<or> \<not> header_ok buf b allowed")
  case True
  from read_encrypted_reject[OF this] show ?thesis by auto
next
  case False
  then obtain k where key: "key = Some k" and head: "header_ok buf b allowed" by auto
  define n sq ct where "n = unat (drop_bit 4 b)" and "sq = take n rest" and "ct = drop n rest"
  let ?s = "le_decode sq :: u64"
  have buf: "buf = b # sq @ ct" "length sq = unat (drop_bit 4 b)"
    using head assms(2) by (simp_all add: sq_def ct_def n_def header_ok_def)
  note eq = read_encrypted_eq[of b sq ct allowed C k pid replay, folded buf(1), OF head buf(2)]
  show ?thesis
  proof (cases "replay_blocks replay (b AND 0xF) ?s \<or> length k \<noteq> 32")
    case True
    then show ?thesis using eq key by auto
  next
    case ok: False
    show ?thesis
    proof (cases "unseal (chacha C) k (nonce_bytes ?s) (packet_ad pid b) ct")
      case None
      then show ?thesis using eq key ok by auto
    next
      case (Some plain)
      from unseal_SomeD[OF crypto_okD(1)[OF assms(1)] Some]
      have ct: "ct = seal (chacha C) k (nonce_bytes ?s) (packet_ad pid b) plain" .
      then have len: "length plain = length ct - 16" "16 \<le> length ct"
        using length_seal[OF crypto_okD(1)[OF assms(1)]] by simp_all
      let ?r = "\<lparr>rbuffer = b # sq @ plain @ drop (length plain) ct, rpos = 1 + length sq\<rparr>"
      have "rpos ?r + (length ct - 16) \<le> length (rbuffer ?r)"
        "take (length ct - 16) (drop (rpos ?r) (rbuffer ?r)) = plain" using len by simp_all
      with read_body_total[of ?r "length ct - 16" "b AND 0xF"]
      obtain q where q: "read_body (b AND 0xF) (length ct - 16) ?r = Some q"
        "\<forall>p. q = Some p \<longrightarrow> packetType p = b AND 0xF \<and> packet_ok p \<and> \<not> is_request p \<and> enc_body p = plain"
        by auto
      have "encrypted_accept C buf key pid allowed replay q ?s"
        unfolding encrypted_accept_def using key head ok q(2) buf(2) buf(1)[unfolded ct] by blast
      moreover have "read_encrypted C buf b \<lparr>rbuffer = buf, rpos = 1\<rparr> key pid allowed replay =
          Some (q, ?s, replay_mark replay (b AND 0xF) ?s)"
        using eq key ok Some q(1) by simp
      ultimately show ?thesis by blast
    qed
  qed
qed

text \<open>A request that is accepted.\<close>

definition request_accept ::
  "crypto \<Rightarrow> byte list \<Rightarrow> u64 \<Rightarrow> u64 \<Rightarrow> u64 \<Rightarrow> byte list option \<Rightarrow> bool arr \<Rightarrow> connectionRequest \<Rightarrow> bool" where
  "request_accept C buf pid now minExpire privateKey allowed q \<longleftrightarrow>
     allowed 0 \<and> req_versionInfo q = versionInfo \<and> req_protocolID q = pid \<and>
     now < req_connectTokenExpireTimestamp q \<and> minExpire \<le> req_connectTokenExpireTimestamp q \<and>
     packet_ok (ConnectionRequest q) \<and>
     (\<exists>key sealed. privateKey = Some key \<and> length sealed = 1024 \<and>
        buf = 0 # versionInfo @ le_encode 8 pid @ le_encode 8 (req_connectTokenExpireTimestamp q) @
              req_connectTokenNonce q @ sealed \<and>
        decryptConnectTokenPrivate C sealed pid (req_connectTokenExpireTimestamp q) (req_connectTokenNonce q) key =
          Some (Inr (req_connectTokenData q)))"

lemma decryptConnectTokenPrivate_total:
  assumes "crypto_ok C" and "length sealed = 1024" and "length nonce = 24"
  shows "\<exists>res. decryptConnectTokenPrivate C sealed p e nonce key = Some res \<and>
    (\<forall>out. res = Inr out \<longrightarrow> length out = 1024)"
proof -
  let ?ad = "versionInfo @ le_encode 8 p @ le_encode 8 e"
  obtain res where res: "open_in_place 24 (xchacha C) sealed 1024 ?ad nonce key = Some res"
    using open_in_place_total[of 1024 sealed nonce 24] assms(2,3) by fastforce
  moreover have "length out = 1024" if "res = Inr out" for out
    using open_in_place_okD[OF crypto_okD(2)[OF assms(1)], of 24 sealed 1024 ?ad nonce key out] res that assms(2)
    by auto
  ultimately show ?thesis
    by (auto simp: decryptConnectTokenPrivate_def encrypt_defs)
qed

lemma read_request_eq:
  fixes pid' e :: u64
  assumes "allowed 0" and "length v = 13" and "length nonce = 24" and "length sealed = 1024"
    and "buf = 0 # v @ le_encode 8 pid' @ le_encode 8 e @ nonce @ sealed"
  shows "read_request C buf \<lparr>rbuffer = buf, rpos = 1\<rparr> pid now minE (Some key) allowed =
    (if v \<noteq> versionInfo \<or> pid' \<noteq> pid \<or> e \<le> now \<or> e < minE then Some None
     else do {
       res \<leftarrow> decryptConnectTokenPrivate C sealed pid e nonce key;
       case res of Inl _ \<Rightarrow> Some None
       | Inr decrypted \<Rightarrow> do {
           (d, r) \<leftarrow> reader_bytes 1024 \<lparr>rbuffer = take 54 buf @ decrypted, rpos = 54\<rparr>;
           Some (Some (ConnectionRequest
             \<lparr>req_versionInfo = v, req_protocolID = pid', req_connectTokenExpireTimestamp = e,
              req_connectTokenNonce = nonce, req_connectTokenData = d\<rparr>)) } })"
proof -
  let ?r = "\<lparr>rbuffer = buf, rpos = Suc 0\<rparr>"
  have "holds ?r (v @ le_encode 8 pid' @ le_encode 8 e @ nonce @ sealed)"
    by (simp add: holds_def assms(5))
  then have h: "holds ?r v" "holds (advance ?r 13) (le_encode 8 pid')" "holds (advance ?r 21) (le_encode 8 e)"
    "holds (advance ?r 29) nonce"
    unfolding holds_append using assms(2) by simp_all
  have "length buf = 1078" "drop 54 buf = sealed" using assms by simp_all
  then show ?thesis
    using assms(1)
    by (simp add: read_request_def reader_bytes_holds[OF h(1) assms(2)] reader_uint64_holds[OF h(2)]
        reader_uint64_holds[OF h(3)] reader_bytes_holds[OF h(4) assms(3)] cong: if_cong)
qed

lemma read_request_cases:
  assumes "crypto_ok C" and "buf = 0 # rest"
  shows "\<exists>q. read_request C buf \<lparr>rbuffer = buf, rpos = 1\<rparr> pid now minE priv allowed = Some q \<and>
    (q = None \<or> (\<exists>req. q = Some (ConnectionRequest req) \<and> request_accept C buf pid now minE priv allowed req))"
proof (cases "allowed 0 \<and> length buf = 1078 \<and> priv \<noteq> None")
  case False
  then show ?thesis by (auto simp: read_request_def split: option.splits)
next
  case True
  then obtain key where priv: "priv = Some key" and allowed: "allowed 0" and len: "length rest = 1077"
    using assms(2) by auto
  define v pb eb nonce sealed where "v = take 13 rest" and "pb = take 8 (drop 13 rest)"
    and "eb = take 8 (drop 21 rest)" and "nonce = take 24 (drop 29 rest)" and "sealed = drop 53 rest"
  define pid' e where "pid' = (le_decode pb :: u64)" and "e = (le_decode eb :: u64)"
  have "rest = v @ drop 13 rest" "drop 13 rest = pb @ drop 21 rest" "drop 21 rest = eb @ drop 29 rest"
    "drop 29 rest = nonce @ sealed"
    using append_take_drop_id[of 13 rest] append_take_drop_id[of 8 "drop 13 rest"]
      append_take_drop_id[of 8 "drop 21 rest"] append_take_drop_id[of 24 "drop 29 rest"]
    by (simp_all add: v_def pb_def eb_def nonce_def sealed_def)
  then have "rest = v @ pb @ eb @ nonce @ sealed" by metis
  moreover have "le_encode 8 pid' = pb" "le_encode 8 e = eb"
    using le_encode_decode[of pb, where 'a = 64] le_encode_decode[of eb, where 'a = 64] len
    by (simp_all add: pid'_def e_def pb_def eb_def)
  ultimately have buf: "buf = 0 # v @ le_encode 8 pid' @ le_encode 8 e @ nonce @ sealed"
    using assms(2) by simp
  have lens: "length v = 13" "length nonce = 24" "length sealed = 1024"
    using len by (simp_all add: v_def nonce_def sealed_def)
  obtain res where res: "decryptConnectTokenPrivate C sealed pid e nonce key = Some res"
    "\<forall>out. res = Inr out \<longrightarrow> length out = 1024"
    using decryptConnectTokenPrivate_total[OF assms(1) lens(3,2)] by blast
  note eq = read_request_eq[where allowed = allowed and C = C and pid = pid and now = now and minE = minE and key = key,
      OF allowed lens buf]
  show ?thesis
  proof (cases "v \<noteq> versionInfo \<or> pid' \<noteq> pid \<or> e \<le> now \<or> e < minE")
    case True
    then show ?thesis using eq priv by simp
  next
    case ok: False
    show ?thesis
    proof (cases res)
      case (Inl err)
      then show ?thesis using eq priv ok res(1) by simp
    next
      case (Inr out)
      let ?q = "\<lparr>req_versionInfo = v, req_protocolID = pid', req_connectTokenExpireTimestamp = e,
              req_connectTokenNonce = nonce, req_connectTokenData = out\<rparr>"
      have "length out = 1024" "length buf = 1078" using res(2) Inr len assms(2) by simp_all
      then have rd: "reader_bytes 1024 \<lparr>rbuffer = take 54 buf @ out, rpos = 54\<rparr> =
          Some (out, advance \<lparr>rbuffer = take 54 buf @ out, rpos = 54\<rparr> 1024)"
        by (simp add: reader_totals)
      have "request_accept C buf pid now minE priv allowed ?q"
        using ok priv allowed lens buf res(1) Inr \<open>length out = 1024\<close>
        by (auto simp: request_accept_def not_le not_less)
      moreover have "read_request C buf \<lparr>rbuffer = buf, rpos = 1\<rparr> pid now minE priv allowed =
          Some (Some (ConnectionRequest ?q))"
        unfolding priv eq using ok res(1) Inr rd by simp
      ultimately show ?thesis by blast
    qed
  qed
qed

text \<open>Every way \<open>readPacket\<close> can answer.\<close>

lemma readPacket_cases:
  assumes "crypto_ok C"
  obtains (ignored) s where "readPacket C buf key pid now minE priv allowed replay = Some (None, s, replay)"
  | (request) req where
      "readPacket C buf key pid now minE priv allowed replay = Some (Some (ConnectionRequest req), 0, replay)"
      "request_accept C buf pid now minE priv allowed req"
  | (encrypted) q s b rest where "buf = b # rest"
      "readPacket C buf key pid now minE priv allowed replay = Some (q, s, replay_mark replay (b AND 0xF) s)"
      "encrypted_accept C buf key pid allowed replay q s"
proof (cases buf)
  case Nil
  then show thesis by (intro ignored[of 0]) (simp add: readPacket_def)
next
  case (Cons b rest)
  have prefix: "reader_uint8 \<lparr>rbuffer = b # rest, rpos = 0\<rparr> = Some (b, \<lparr>rbuffer = b # rest, rpos = 1\<rparr>)"
    by (simp add: reader_uint8_def)
  show thesis
  proof (cases "b = 0")
    case True
    with prefix Cons have eq: "readPacket C buf key pid now minE priv allowed replay = do {
        p \<leftarrow> read_request C buf \<lparr>rbuffer = buf, rpos = 1\<rparr> pid now minE priv allowed; Some (p, 0, replay) }"
      by (simp add: readPacket_def)
    obtain q where q: "read_request C buf \<lparr>rbuffer = buf, rpos = 1\<rparr> pid now minE priv allowed = Some q"
      "q = None \<or> (\<exists>req. q = Some (ConnectionRequest req) \<and> request_accept C buf pid now minE priv allowed req)"
      using read_request_cases[OF assms, of buf rest pid now minE priv allowed] Cons True by blast
    from q(2) show thesis
    proof
      assume "q = None"
      with eq q(1) show thesis by (intro ignored[of 0]) simp
    next
      assume "\<exists>req. q = Some (ConnectionRequest req) \<and> request_accept C buf pid now minE priv allowed req"
      with eq q(1) request show thesis by auto
    qed
  next
    case False
    with prefix Cons have "readPacket C buf key pid now minE priv allowed replay =
        read_encrypted C buf b \<lparr>rbuffer = buf, rpos = 1\<rparr> key pid allowed replay"
      by (simp add: readPacket_def)
    with read_encrypted_cases[OF assms Cons, of key pid allowed replay] encrypted[OF Cons] ignored show thesis
      by auto
  qed
qed

lemma readPacket_sealed:
  assumes "crypto_ok C" and "packet_ok p" and "\<not> is_request p" and "length key = 32"
    and "allowed (unat (packetType p))" and "\<not> replay_blocks replay (packetType p) s"
  shows "readPacket C (sealed_packet C p s key pid) (Some key) pid now minE priv allowed replay =
    Some (Some p, s, replay_mark replay (packetType p) s)"
proof -
  define n b sq where "n = sequenceNumberBytesRequired s" and "b = prefix_byte p s" and "sq = le_encode n s"
  define ct where "ct = seal (chacha C) key (nonce_bytes s) (packet_ad pid b) (enc_body p)"
  note A = crypto_okD(1)[OF assms(1)]
  have n: "1 \<le> n" "n \<le> 8" "drop_bit (8 * n) s = 0" using sequence_bytes[of s] by (simp_all add: n_def)
  have b: "b AND 0xF = packetType p" "unat (drop_bit 4 b) = n" "b \<noteq> 0"
    using prefix_fields[OF n(1,2), of p] by (simp_all add: b_def prefix_byte_def n_def)
  have s: "le_decode sq = s" "length sq = unat (drop_bit 4 b)"
    using le_decode_encode_bytes[OF n(3)] b(2) by (simp_all add: sq_def)
  have ct: "length ct = length (enc_body p) + 16" by (simp add: ct_def length_seal[OF A])
  have buf: "sealed_packet C p s key pid = b # sq @ ct"
    by (simp add: sealed_packet_def packet_header_def b_def sq_def n_def ct_def)
  have head: "header_ok (b # sq @ ct) b allowed"
    using b assms(5) packetType_less n(1,2) s(2) ct by (simp add: header_ok_def)
  let ?r = "\<lparr>rbuffer = b # sq @ enc_body p @ drop (length (enc_body p)) ct, rpos = 1 + length sq\<rparr>"
  have "holds ?r (enc_body p)"
    by (simp add: holds_def)
  from read_body_enc[OF assms(2,3) this] ct
  have body: "read_body (b AND 0xF) (length ct - 16) ?r = Some (Some p)" by (simp add: b)
  have opened: "unseal (chacha C) key (nonce_bytes s) (packet_ad pid b) ct = Some (enc_body p)"
    by (simp add: ct_def unseal_seal[OF A])
  have "read_encrypted C (b # sq @ ct) b \<lparr>rbuffer = b # sq @ ct, rpos = 1\<rparr> (Some key) pid allowed replay =
      Some (Some p, s, replay_mark replay (packetType p) s)"
    unfolding read_encrypted_eq[OF head s(2)] s(1) using assms(4,6) body opened by (simp add: b(1))
  with b(3) show ?thesis
    by (simp add: buf readPacket_def reader_uint8_def)
qed

lemma sealed_packet_size: "crypto_ok C \<Longrightarrow> packet_ok p \<Longrightarrow> length (sealed_packet C p s key pid) \<le> 1225"
  using length_sealed_packet[of C p s key pid] length_enc_body[of p] sequence_bytes(2)[of s] by simp

lemma accepted_length:
  assumes "encrypted_accept C buf key pid allowed replay (Some p) q" and "crypto_ok C"
  shows "length (enc_body p) + 18 \<le> length buf" "packet_ok p" "\<not> is_request p"
  using assms(1) length_seal[OF crypto_okD(1)[OF assms(2)]]
  by (auto simp: encrypted_accept_def header_ok_def)

lemma writePacket_sealed:
  assumes "crypto_ok C" and "packet_ok p" and "\<not> is_request p" and "length key = 32" and "length buf = 1300"
  shows "writePacket C p buf s key pid =
    Some (length (sealed_packet C p s key pid),
      sealed_packet C p s key pid @ drop (length (sealed_packet C p s key pid)) buf)"
proof -
  have "writePacket C p buf s key pid = write_encrypted C p buf s key pid"
    using assms(3) by (cases p) (simp_all add: writePacket_def)
  with write_encrypted_eq[OF assms(1,4,3)] sealed_packet_size[OF assms(1,2), of s key pid] assms(5)
  show ?thesis by simp
qed

subsection \<open>Properties\<close>

text \<open>
  The sequence number of a packet is sent with the fewest bytes that hold it: between 1 and 8,
  enough for every nonzero byte, and one byte fewer would not do.
\<close>

theorem sequence_bytes_minimal:
  "1 \<le> sequenceNumberBytesRequired s \<and> sequenceNumberBytesRequired s \<le> 8 \<and>
   le_decode (le_encode (sequenceNumberBytesRequired s) s) = s \<and>
   (sequenceNumberBytesRequired s = 1 \<or>
    le_decode (le_encode (sequenceNumberBytesRequired s - 1) s) \<noteq> s)"
proof -
  let ?n = "sequenceNumberBytesRequired s"
  note n = sequence_bytes[of s]
  have "le_decode (le_encode (?n - 1) s) \<noteq> s" if nz: "drop_bit (8 * (?n - 1)) s \<noteq> 0"
  proof
    assume eq: "le_decode (le_encode (?n - 1) s) = s"
    have "drop_bit (8 * (?n - 1)) s = 0"
    proof (rule bit_word_eqI)
      fix k assume "k < LENGTH(64)"
      show "bit (drop_bit (8 * (?n - 1)) s) k \<longleftrightarrow> bit 0 k"
        using bit_le_decode_encode[of "?n - 1" s "8 * (?n - 1) + k"] eq by (simp add: bit_simps)
    qed
    with nz show False ..
  qed
  with n le_decode_encode_bytes[OF n(3)] show ?thesis by blast
qed

theorem sequence_bytes_minimal_witness:
  "sequenceNumberBytesRequired 0x1234 = 2 \<and> le_decode (le_encode 2 (0x1234 :: u64)) = (0x1234 :: u64)"
proof -
  have n: "sequenceNumberBytesRequired 0x1234 = 2"
    by (simp add: sequenceNumberBytesRequired_def sequence_bytes_loop.simps)
  from sequence_bytes_minimal[where s = "0x1234"] show ?thesis unfolding n by blast
qed

text \<open>
  C14: encrypted packet round trip. Every packet but a connection request, written with any
  sequence number into a packet buffer of 1300 bytes, fits (the packet takes at most 1225 bytes)
  and is read back as the same packet with the same sequence number under the same key and
  protocol id, provided its type is allowed and the replay window has not seen it; the window then
  records it if it is a keep-alive, payload or disconnect packet.
\<close>

theorem packet_roundtrip:
  assumes "crypto_ok C" and "packet_ok p" and "packetType p \<noteq> connectionRequestPacket"
    and "length key = KeyBytes" and "length buf = maxPacketBytes" and "allowed (unat (packetType p))"
    and "case replay of None \<Rightarrow> True | Some rp \<Rightarrow> \<not> alreadyReceived rp s"
  shows "\<exists>n out. writePacket C p buf s key pid = Some (n, out) \<and> 0 < n \<and> n \<le> 1225 \<and> length out = maxPacketBytes \<and>
    readPacket C (take n out) (Some key) pid now minExpire privateKey allowed replay =
      Some (Some p, s, map_option (\<lambda>rp. if packetType p \<ge> connectionKeepAlivePacket then advanceSequence rp s else rp) replay)"
proof -
  let ?m = "sealed_packet C p s key pid"
  have r: "\<not> is_request p" using assms(3) by (simp add: is_request_def)
  have "\<not> replay_blocks replay (packetType p) s"
    using assms(7) by (auto simp: replay_blocks_def split: option.splits)
  from readPacket_sealed[where allowed = allowed, OF assms(1,2) r _ assms(6) this] writePacket_sealed[OF assms(1,2) r] assms(4,5)
    sealed_packet_size[OF assms(1,2), of s key pid] length_sealed_packet[OF assms(1), of p s key pid]
  show ?thesis
    by (auto simp: replay_mark_def split: option.splits)
qed

theorem packet_roundtrip_witness:
  "\<exists>n out. writePacket checksum_crypto (ConnectionPayload [1, 2, 3]) (replicate 1300 0) 300 (replicate 32 1) 9 =
      Some (n, out) \<and> 0 < n \<and> n \<le> 1225 \<and> length out = maxPacketBytes \<and>
    readPacket checksum_crypto (take n out) (Some (replicate 32 1)) 9 100 0 None (\<lambda>_. True)
        (Some (replay_reset \<lparr>mostRecentSequence = 0, receivedPacket = (\<lambda>_. 0)\<rparr>)) =
      Some (Some (ConnectionPayload [1, 2, 3]), 300,
        map_option (\<lambda>rp. if packetType (ConnectionPayload [1, 2, 3]) \<ge> connectionKeepAlivePacket
          then advanceSequence rp 300 else rp)
          (Some (replay_reset \<lparr>mostRecentSequence = 0, receivedPacket = (\<lambda>_. 0)\<rparr>)))"
  by (rule packet_roundtrip[OF checksum_crypto_ok]) (simp_all add: alreadyReceived_def replay_reset_def)

text \<open>
  Reading a packet is safe on any input. For any bytes of any length, any keys, any allowed
  set and any replay window, \<open>readPacket\<close> returns; and if the packet is ignored for a reason that
  precedes or includes failed decryption, so that the bytes are not the seal of anything under the
  read key, nothing is returned and the replay window is left as it was: forged packets cannot
  move the window.
\<close>

theorem readPacket_safe:
  assumes "crypto_ok C"
  shows "\<exists>q s replay'. readPacket C buf key pid now minExpire privateKey allowed replay = Some (q, s, replay') \<and>
    (replay' = replay \<or>
     (\<exists>k b sq plain. key = Some k \<and>
        buf = b # sq @ seal (chacha C) k (replicate 4 0 @ le_encode 8 s) (versionInfo @ le_encode 8 pid @ [b]) plain \<and>
        le_decode sq = s))"
proof (rule readPacket_cases[OF assms, of buf key pid now minExpire privateKey allowed replay])
  fix q s b rest
  assume "readPacket C buf key pid now minExpire privateKey allowed replay = Some (q, s, replay_mark replay (b AND 0xF) s)"
    and "encrypted_accept C buf key pid allowed replay q s"
  then show ?thesis
    unfolding encrypted_accept_def nonce_bytes_def packet_ad_def by blast
qed blast+

theorem readPacket_safe_witness:
  "\<exists>q s replay'. readPacket checksum_crypto [80, 1, 2] (Some (replicate 32 1)) 9 100 0 None (\<lambda>_. True) None =
      Some (q, s, replay') \<and>
    (replay' = None \<or>
     (\<exists>k b sq plain. Some (replicate 32 1) = Some k \<and>
        [80, 1, 2] = b # sq @ seal (chacha checksum_crypto) k (replicate 4 0 @ le_encode 8 s)
          (versionInfo @ le_encode 8 (9 :: u64) @ [b]) plain \<and>
        le_decode sq = s))"
  by (rule readPacket_safe[OF checksum_crypto_ok])

text \<open>
  C8: authenticity of encrypted packets. A packet that is accepted with sequence number \<open>s\<close> has
  an allowed type, its wire form is exactly the seal of its body under the read key, with the nonce
  of \<open>s\<close> and with the version, the protocol id and the prefix byte as associated data, its fields
  have their proper sizes, and where a replay window is given it had not seen \<open>s\<close> if the packet is a
  keep-alive, payload or disconnect packet. The other types are not checked for replays, and without a
  window no type is.
\<close>

theorem encrypted_packet_authentic:
  assumes "crypto_ok C"
    and "readPacket C buf key pid now minExpire privateKey allowed replay = Some (Some p, s, replay')"
    and "packetType p \<noteq> connectionRequestPacket"
  shows "\<exists>k b sq. key = Some k \<and> b AND 0xF = packetType p \<and> length sq = unat (drop_bit 4 b) \<and> le_decode sq = s \<and>
    buf = b # sq @ seal (chacha C) k (replicate 4 0 @ le_encode 8 s) (versionInfo @ le_encode 8 pid @ [b]) (enc_body p) \<and>
    allowed (unat (packetType p)) \<and> packet_ok p \<and>
    (case replay of None \<Rightarrow> replay' = None
     | Some rp \<Rightarrow> if packetType p \<ge> connectionKeepAlivePacket
         then \<not> alreadyReceived rp s \<and> replay' = Some (advanceSequence rp s) else replay' = Some rp)"
proof (rule readPacket_cases[OF assms(1), of buf key pid now minExpire privateKey allowed replay])
  fix q s' b rest
  assume buf: "buf = b # rest"
    and rd: "readPacket C buf key pid now minExpire privateKey allowed replay =
      Some (q, s', replay_mark replay (b AND 0xF) s')"
    and acc: "encrypted_accept C buf key pid allowed replay q s'"
  from rd assms(2) have q: "q = Some p" "s' = s" "replay' = replay_mark replay (b AND 0xF) s" by simp_all
  from acc[unfolded encrypted_accept_def] q(1,2) buf obtain k sq where
    k: "key = Some k" "header_ok buf b allowed" "length sq = unat (drop_bit 4 b)" "s = le_decode sq"
    "\<not> replay_blocks replay (b AND 0xF) s"
    "buf = b # sq @ seal (chacha C) k (nonce_bytes s) (packet_ad pid b) (enc_body p)"
    "packetType p = b AND 0xF" "packet_ok p"
    by auto
  then show ?thesis
    using q(3) unfolding nonce_bytes_def packet_ad_def
    by (intro exI[of _ k] exI[of _ b] exI[of _ sq])
      (auto simp: header_ok_def replay_blocks_def replay_mark_def split: option.splits)
qed (use assms(2,3) in auto)

theorem encrypted_packet_authentic_witness:
  "\<exists>buf k b sq.
    readPacket checksum_crypto buf (Some (replicate 32 1)) 9 100 0 None (\<lambda>_. True) None =
      Some (Some (ConnectionKeepAlive 3 16), 70000, None) \<and>
    Some (replicate 32 1) = Some k \<and> b AND 0xF = packetType (ConnectionKeepAlive 3 16) \<and>
    length sq = unat (drop_bit 4 b) \<and> le_decode sq = (70000 :: u64) \<and>
    buf = b # sq @ seal (chacha checksum_crypto) k (replicate 4 0 @ le_encode 8 (70000 :: u64))
      (versionInfo @ le_encode 8 (9 :: u64) @ [b]) (enc_body (ConnectionKeepAlive 3 16))"
proof -
  let ?buf = "sealed_packet checksum_crypto (ConnectionKeepAlive 3 16) 70000 (replicate 32 1) 9"
  have rd: "readPacket checksum_crypto ?buf (Some (replicate 32 1)) 9 100 0 None (\<lambda>_. True) None =
      Some (Some (ConnectionKeepAlive 3 16), 70000, None)"
    using readPacket_sealed[OF checksum_crypto_ok, of "ConnectionKeepAlive 3 16" "replicate 32 1" "\<lambda>_. True"
        None 70000 9 100 0 None] by (simp add: replay_blocks_def replay_mark_def)
  have t: "packetType (ConnectionKeepAlive 3 16) \<noteq> connectionRequestPacket" by simp
  from encrypted_packet_authentic[OF checksum_crypto_ok rd t] rd show ?thesis by blast
qed

text \<open>What the client sends for a token and how the server reads it.\<close>

text \<open>The bytes of a connection request, and what they read as.\<close>

definition request_bytes :: "u64 \<Rightarrow> u64 \<Rightarrow> byte list \<Rightarrow> byte list \<Rightarrow> byte list" where
  "request_bytes pid e nonce sealed = 0 # versionInfo @ le_encode 8 pid @ le_encode 8 e @ nonce @ sealed"

lemma length_request_bytes [simp]: "length (request_bytes pid e nonce sealed) = 30 + length nonce + length sealed"
  by (simp add: request_bytes_def)

lemma writePacket_request:
  assumes "length nonce = 24" and "length sealed = 1024" and "1078 \<le> length buf"
  shows "writePacket C (ConnectionRequest \<lparr>req_versionInfo = versionInfo, req_protocolID = pid,
      req_connectTokenExpireTimestamp = e, req_connectTokenNonce = nonce, req_connectTokenData = sealed\<rparr>)
    buf s key pid' = Some (1078, request_bytes pid e nonce sealed @ drop 1078 buf)"
proof -
  let ?wire = "request_bytes pid e nonce sealed"
  let ?w = "\<lparr>wbuffer = buf, wpos = 0\<rparr>"
  have f: "fits ?w n" if "n \<le> 1078" for n using assms(3) that by (simp add: fits_def)
  have "writePacket C (ConnectionRequest \<lparr>req_versionInfo = versionInfo, req_protocolID = pid,
      req_connectTokenExpireTimestamp = e, req_connectTokenNonce = nonce, req_connectTokenData = sealed\<rparr>) buf s key pid' =
    Some (wpos (emit ?w ?wire), wbuffer (emit ?w ?wire))"
    using assms(1,2) by (simp add: writePacket_def write_request_def put_simps emit_emit f request_bytes_def)
  then show ?thesis using emit_start[of ?wire buf] assms by simp
qed

lemma readPacket_request:
  assumes "length nonce = 24" and "length sealed = 1024" and "length opened = 1024"
    and "decryptConnectTokenPrivate C sealed pid e nonce privateKey = Some (Inr opened)"
    and "now < e" and "minExpire \<le> e" and "allowed 0"
  shows "readPacket C (request_bytes pid e nonce sealed) readKey pid now minExpire (Some privateKey) allowed replay =
    Some (Some (ConnectionRequest \<lparr>req_versionInfo = versionInfo, req_protocolID = pid,
      req_connectTokenExpireTimestamp = e, req_connectTokenNonce = nonce, req_connectTokenData = opened\<rparr>), 0, replay)"
proof -
  let ?wire = "request_bytes pid e nonce sealed"
  have rd: "reader_bytes 1024 \<lparr>rbuffer = take 54 ?wire @ opened, rpos = 54\<rparr> =
      Some (opened, advance \<lparr>rbuffer = take 54 ?wire @ opened, rpos = 54\<rparr> 1024)"
    using assms(1-3) by (simp add: reader_totals)
  have live: "\<not> e \<le> now" "\<not> e < minExpire" using assms(5,6) by simp_all
  have "read_request C ?wire \<lparr>rbuffer = ?wire, rpos = 1\<rparr> pid now minExpire (Some privateKey) allowed =
      Some (Some (ConnectionRequest \<lparr>req_versionInfo = versionInfo, req_protocolID = pid,
        req_connectTokenExpireTimestamp = e, req_connectTokenNonce = nonce, req_connectTokenData = opened\<rparr>))"
    using read_request_eq[where allowed = allowed and buf = ?wire and C = C and pid = pid and now = now and
        minE = minExpire and key = privateKey, OF assms(7) length_versionInfo assms(1,2) request_bytes_def]
      assms(4) rd live
    by simp
  moreover have "reader_uint8 \<lparr>rbuffer = ?wire, rpos = 0\<rparr> = Some (0, \<lparr>rbuffer = ?wire, rpos = 1\<rparr>)"
    by (simp add: reader_uint8_def request_bytes_def)
  ultimately show ?thesis using assms(1,2) by (simp add: readPacket_def)
qed

lemma request_transfer:
  assumes "crypto_ok C" and "ctp_ok t" and "length privateKey = 32" and "length nonce = 24"
    and "now < e" and "minExpire \<le> e" and "allowed 0" and "1078 \<le> length buf"
  shows "\<exists>plain sealed out opened. connectTokenPrivate_write t (replicate 1024 0) = Some plain \<and>
    encryptConnectTokenPrivate C plain pid e nonce privateKey = Some (Inr sealed) \<and>
    writePacket C (ConnectionRequest \<lparr>req_versionInfo = versionInfo, req_protocolID = pid,
        req_connectTokenExpireTimestamp = e, req_connectTokenNonce = nonce, req_connectTokenData = sealed\<rparr>)
      buf s key pid = Some (1078, out) \<and>
    readPacket C (take 1078 out) readKey pid now minExpire (Some privateKey) allowed replay =
      Some (Some (ConnectionRequest \<lparr>req_versionInfo = versionInfo, req_protocolID = pid,
        req_connectTokenExpireTimestamp = e, req_connectTokenNonce = nonce, req_connectTokenData = opened\<rparr>), 0, replay) \<and>
    drop 1008 opened = drop 1008 sealed \<and>
    connectTokenPrivate_read zeroConnectTokenPrivate opened = Some (None, t)"
proof -
  obtain plain sealed opened where t: "connectTokenPrivate_write t (replicate 1024 0) = Some plain"
    "encryptConnectTokenPrivate C plain pid e nonce privateKey = Some (Inr sealed)" "length sealed = 1024"
    "decryptConnectTokenPrivate C sealed pid e nonce privateKey = Some (Inr opened)" "length opened = 1024"
    "drop 1008 opened = drop 1008 sealed" "connectTokenPrivate_read zeroConnectTokenPrivate opened = Some (None, t)"
    using private_token_transfer[OF assms(1,2) length_replicate assms(3,4), of 0 pid e] by blast
  have "take 1078 (request_bytes pid e nonce sealed @ drop 1078 buf) = request_bytes pid e nonce sealed"
    using assms(4) t(3) by simp
  with writePacket_request[OF assms(4) t(3) assms(8)] readPacket_request[where allowed = allowed, OF assms(4) t(3,5,4) assms(5-7)] t
  show ?thesis by metis
qed

text \<open>
  C22: a connection request is accepted only in order: its type is allowed and a private key is
  set, it has exactly 1078 bytes, it carries the version info and the protocol id of the server, it
  is neither expired nor older than the server, and the private token in it is sealed under the
  private key for that very protocol id, expire timestamp and nonce. The replay window does not
  change.
\<close>

theorem request_authentic:
  assumes "crypto_ok C"
    and "readPacket C buf key pid now minExpire privateKey allowed replay = Some (Some (ConnectionRequest req), s, replay')"
  shows "allowed 0 \<and> now < req_connectTokenExpireTimestamp req \<and> minExpire \<le> req_connectTokenExpireTimestamp req \<and>
    s = 0 \<and> replay' = replay \<and>
    (\<exists>k plain. privateKey = Some k \<and> req_connectTokenData req = plain @ drop 1062 buf \<and> length plain = 1008 \<and>
       buf = 0 # versionInfo @ le_encode 8 pid @ le_encode 8 (req_connectTokenExpireTimestamp req) @
         req_connectTokenNonce req @
         seal (xchacha C) k (req_connectTokenNonce req)
           (versionInfo @ le_encode 8 pid @ le_encode 8 (req_connectTokenExpireTimestamp req)) plain)"
proof (rule readPacket_cases[OF assms(1), of buf key pid now minExpire privateKey allowed replay])
  fix req'
  assume rd: "readPacket C buf key pid now minExpire privateKey allowed replay = Some (Some (ConnectionRequest req'), 0, replay)"
    and acc: "request_accept C buf pid now minExpire privateKey allowed req'"
  from rd assms(2) have eq: "req' = req" "s = 0" "replay' = replay" by simp_all
  let ?ad = "versionInfo @ le_encode 8 pid @ le_encode 8 (req_connectTokenExpireTimestamp req)"
  from acc[unfolded eq request_accept_def] obtain k sealed where
    k: "privateKey = Some k" "length sealed = 1024" "length (req_connectTokenNonce req) = 24"
    "buf = 0 # versionInfo @ le_encode 8 pid @ le_encode 8 (req_connectTokenExpireTimestamp req) @
       req_connectTokenNonce req @ sealed"
    "decryptConnectTokenPrivate C sealed pid (req_connectTokenExpireTimestamp req) (req_connectTokenNonce req) k =
       Some (Inr (req_connectTokenData req))"
    by auto
  obtain plain where plain: "take 1024 sealed = seal (xchacha C) k (req_connectTokenNonce req) ?ad plain"
    "req_connectTokenData req = plain @ drop (length plain) sealed" "length plain + 16 = 1024"
    using open_in_place_okD[OF crypto_okD(2)[OF assms(1)], of 24 sealed 1024 ?ad "req_connectTokenNonce req" k
        "req_connectTokenData req"] k(5)
    by (auto simp: decryptConnectTokenPrivate_def encrypt_defs)
  have "drop 1062 buf = drop 1008 sealed" using k(3) by (simp add: k(4))
  with k plain acc eq show ?thesis
    by (auto simp: request_accept_def)
next
  fix q s' b rest
  assume "readPacket C buf key pid now minExpire privateKey allowed replay = Some (q, s', replay_mark replay (b AND 0xF) s')"
    and "encrypted_accept C buf key pid allowed replay q s'"
  with assms(2) show ?thesis by (auto simp: encrypted_accept_def)
qed (use assms(2) in auto)

theorem request_authentic_witness:
  "\<exists>buf req. readPacket checksum_crypto buf None 9 100 0 (Some (replicate 32 1)) (\<lambda>_. True) None =
      Some (Some (ConnectionRequest req), 0, None) \<and>
    True \<and> 100 < req_connectTokenExpireTimestamp req \<and> 0 \<le> req_connectTokenExpireTimestamp req \<and>
    (0 :: u64) = 0 \<and> None = (None :: replayProtection option) \<and>
    (\<exists>k plain. Some (replicate 32 1) = Some k \<and> req_connectTokenData req = plain @ drop 1062 buf \<and> length plain = 1008 \<and>
       buf = 0 # versionInfo @ le_encode 8 (9 :: u64) @ le_encode 8 (req_connectTokenExpireTimestamp req) @
         req_connectTokenNonce req @
         seal (xchacha checksum_crypto) k (req_connectTokenNonce req)
           (versionInfo @ le_encode 8 (9 :: u64) @ le_encode 8 (req_connectTokenExpireTimestamp req)) plain)"
proof -
  obtain buf req where rd: "readPacket checksum_crypto buf None 9 100 0 (Some (replicate 32 1)) (\<lambda>_. True) None =
      Some (Some (ConnectionRequest req), 0, None)"
    using request_transfer[OF checksum_crypto_ok sample_private_ok, of "replicate 32 1" "replicate 24 0" 100 130 0
        "\<lambda>_. True" "replicate 1300 0" 9 0 "[]" None None] by auto
  from request_authentic[OF checksum_crypto_ok rd] rd show ?thesis by blast
qed

text \<open>
  Connection request transfer. The private token a backend writes and seals, carried in the
  connection request packet a client writes, is read by \<open>readPacket\<close> on a server with the same
  private key and protocol id as long as it is neither expired nor too old, and gives the server
  exactly the token that was written, with its authentication tag in the last 16 bytes. The request
  takes 1078 bytes.
\<close>

theorem request_roundtrip:
  assumes "crypto_ok C" and "ctp_ok t" and "length privateKey = KeyBytes" and "length nonce = connectTokenNonceBytes"
    and "now < e" and "minExpire \<le> e" and "allowed 0" and "length buf = maxPacketBytes"
  shows "\<exists>plain sealed out opened. connectTokenPrivate_write t (replicate 1024 0) = Some plain \<and>
    encryptConnectTokenPrivate C plain pid e nonce privateKey = Some (Inr sealed) \<and>
    writePacket C (ConnectionRequest \<lparr>req_versionInfo = versionInfo, req_protocolID = pid,
        req_connectTokenExpireTimestamp = e, req_connectTokenNonce = nonce, req_connectTokenData = sealed\<rparr>)
      buf s key pid = Some (1078, out) \<and>
    readPacket C (take 1078 out) readKey pid now minExpire (Some privateKey) allowed replay =
      Some (Some (ConnectionRequest \<lparr>req_versionInfo = versionInfo, req_protocolID = pid,
        req_connectTokenExpireTimestamp = e, req_connectTokenNonce = nonce, req_connectTokenData = opened\<rparr>), 0, replay) \<and>
    drop 1008 opened = drop 1008 sealed \<and>
    connectTokenPrivate_read zeroConnectTokenPrivate opened = Some (None, t)"
  by (rule request_transfer) (use assms in simp_all)

theorem request_roundtrip_witness:
  "\<exists>plain sealed out opened. connectTokenPrivate_write sample_private (replicate 1024 0) = Some plain \<and>
    encryptConnectTokenPrivate checksum_crypto plain 9 130 (replicate 24 0) (replicate 32 1) = Some (Inr sealed) \<and>
    writePacket checksum_crypto (ConnectionRequest \<lparr>req_versionInfo = versionInfo, req_protocolID = 9,
        req_connectTokenExpireTimestamp = 130, req_connectTokenNonce = replicate 24 0, req_connectTokenData = sealed\<rparr>)
      (replicate 1300 0) 0 [] 9 = Some (1078, out) \<and>
    readPacket checksum_crypto (take 1078 out) None 9 100 0 (Some (replicate 32 1)) (\<lambda>_. True) None =
      Some (Some (ConnectionRequest \<lparr>req_versionInfo = versionInfo, req_protocolID = 9,
        req_connectTokenExpireTimestamp = 130, req_connectTokenNonce = replicate 24 0, req_connectTokenData = opened\<rparr>), 0, None) \<and>
    drop 1008 opened = drop 1008 sealed \<and>
    connectTokenPrivate_read zeroConnectTokenPrivate opened = Some (None, sample_private)"
  by (rule request_roundtrip[OF checksum_crypto_ok sample_private_ok]) simp_all

end
