(* ===== verification/Packet_Queue.thy ===== *)
theory Packet_Queue
  imports Netcode_Package
begin

text \<open>
  \<^verbatim>\<open>queue.go\<close>: the ring buffer of received payloads. Locale \<open>bounded_fifo\<close> is the contract of a
  queue of bounded capacity against a list; the ring buffer is an interpretation of it, and every
  run of operations gives the answers of the list model.
\<close>

text \<open>\<open>'p\<close> is the payload type; a nil pointer is \<open>None\<close>.\<close>

record 'p packetQueue =
  numPackets :: nat
  startIndex :: nat
  packets :: "'p option arr"
  sequences :: "u64 arr"

definition packetQueue_clear :: "'p packetQueue \<Rightarrow> 'p packetQueue" where
  "packetQueue_clear q =
     q\<lparr>numPackets := 0, startIndex := 0, packets := (\<lambda>_. None), sequences := (\<lambda>_. 0)\<rparr>"

definition packetQueue_push :: "'p packetQueue \<Rightarrow> 'p \<Rightarrow> u64 \<Rightarrow> bool \<times> 'p packetQueue" where
  "packetQueue_push q packet sequence =
     (if numPackets q = packetQueueSize then (False, q)
      else let index = (startIndex q + numPackets q) mod packetQueueSize in
        (True, q\<lparr>packets := (packets q)(index := Some packet),
                 sequences := (sequences q)(index := sequence),
                 numPackets := numPackets q + 1\<rparr>))"

definition packetQueue_pop :: "'p packetQueue \<Rightarrow> ('p option \<times> u64) \<times> 'p packetQueue" where
  "packetQueue_pop q =
     (if numPackets q = 0 then ((None, 0), q)
      else let packet = packets q (startIndex q);
               sequence = sequences q (startIndex q)
        in ((packet, sequence),
            q\<lparr>packets := (packets q)(startIndex q := None),
              startIndex := (startIndex q + 1) mod packetQueueSize,
              numPackets := numPackets q - 1\<rparr>))"

definition new_packetQueue :: "'p packetQueue" where
  "new_packetQueue = \<lparr>numPackets = 0, startIndex = 0, packets = (\<lambda>_. None), sequences = (\<lambda>_. 0)\<rparr>"

subsection \<open>Abstraction to a list\<close>

definition ring :: "'p packetQueue \<Rightarrow> nat \<Rightarrow> nat" where
  "ring q i = (startIndex q + i) mod packetQueueSize"

definition queue_list :: "'p packetQueue \<Rightarrow> ('p \<times> u64) list" where
  "queue_list q = map (\<lambda>i. (the (packets q (ring q i)), sequences q (ring q i))) [0..<numPackets q]"

definition queue_inv :: "'p packetQueue \<Rightarrow> bool" where
  "queue_inv q \<longleftrightarrow> startIndex q < packetQueueSize \<and> numPackets q \<le> packetQueueSize \<and>
     (\<forall>i<numPackets q. packets q (ring q i) \<noteq> None)"

subsection \<open>The contract of a bounded queue\<close>

datatype 'x queue_op = Push 'x | Pop | Clear
datatype 'x queue_out = Pushed bool | Popped "'x option" | Cleared

fun fifo_step :: "nat \<Rightarrow> 'x list \<Rightarrow> 'x queue_op \<Rightarrow> 'x queue_out \<times> 'x list" where
  "fifo_step cap xs (Push x) = (if length xs < cap then (Pushed True, xs @ [x]) else (Pushed False, xs))"
| "fifo_step cap xs Pop = (case xs of [] \<Rightarrow> (Popped None, []) | x # xs \<Rightarrow> (Popped (Some x), xs))"
| "fifo_step cap xs Clear = (Cleared, [])"

fun run_ops :: "('q \<Rightarrow> 'x queue_op \<Rightarrow> 'x queue_out \<times> 'q) \<Rightarrow> 'q \<Rightarrow> 'x queue_op list \<Rightarrow> 'x queue_out list" where
  "run_ops step q [] = []"
| "run_ops step q (op # ops) = (let (out, q') = step q op in out # run_ops step q' ops)"

locale bounded_fifo =
  fixes step :: "'q \<Rightarrow> 'x queue_op \<Rightarrow> 'x queue_out \<times> 'q"
    and abs :: "'q \<Rightarrow> 'x list"
    and inv :: "'q \<Rightarrow> bool"
    and cap :: nat
  assumes step_out: "\<And>q op. inv q \<Longrightarrow> fst (step q op) = fst (fifo_step cap (abs q) op)"
    and step_abs: "\<And>q op. inv q \<Longrightarrow> abs (snd (step q op)) = snd (fifo_step cap (abs q) op)"
    and step_inv: "\<And>q op. inv q \<Longrightarrow> inv (snd (step q op))"
    and abs_bound: "\<And>q. inv q \<Longrightarrow> length (abs q) \<le> cap"
begin

lemma run_refines: "inv q \<Longrightarrow> run_ops step q ops = run_ops (fifo_step cap) (abs q) ops"
proof (induction ops arbitrary: q)
  case Nil
  then show ?case by simp
next
  case (Cons op ops)
  from Cons.IH[OF step_inv[OF Cons.prems, of op]] step_abs[OF Cons.prems, of op] step_out[OF Cons.prems, of op]
  show ?case by (simp add: split_beta)
qed

end

subsection \<open>The ring buffer meets the contract\<close>

fun ring_step :: "'p packetQueue \<Rightarrow> ('p \<times> u64) queue_op \<Rightarrow> ('p \<times> u64) queue_out \<times> 'p packetQueue" where
  "ring_step q (Push (p, s)) = (let (b, q') = packetQueue_push q p s in (Pushed b, q'))"
| "ring_step q Pop =
     (let ((p, s), q') = packetQueue_pop q in (Popped (map_option (\<lambda>p. (p, s)) p), q'))"
| "ring_step q Clear = (Cleared, packetQueue_clear q)"

lemma ring_inj:
  assumes "ring q i = ring q j" and "i < packetQueueSize" and "j < packetQueueSize"
  shows "i = j"
proof -
  have "int (startIndex q + i) mod 256 = int (startIndex q + j) mod 256"
    using arg_cong[OF assms(1), of int] by (simp add: ring_def zmod_int)
  then have "256 dvd int i - int j"
    by (simp add: mod_eq_dvd_iff)
  then obtain k where k: "int i - int j = 256 * k" ..
  with assms(2,3) have "k < 1" "- 1 < k" by simp_all
  with k show ?thesis by simp
qed

lemma length_queue_list [simp]: "length (queue_list q) = numPackets q"
  by (simp add: queue_list_def)

lemma queue_inv_clear [simp]: "queue_inv (packetQueue_clear q)"
  and queue_list_clear [simp]: "queue_list (packetQueue_clear q) = []"
  by (simp_all add: queue_inv_def packetQueue_clear_def queue_list_def)

lemma queue_inv_new [simp]: "queue_inv new_packetQueue"
  and queue_list_new [simp]: "queue_list new_packetQueue = []"
  by (simp_all add: queue_inv_def new_packetQueue_def queue_list_def)

lemma ring_pushed [simp]: "ring (q\<lparr>packets := P, sequences := S, numPackets := n\<rparr>) i = ring q i"
  by (simp add: ring_def)

lemma ring_popped [simp]:
  "ring (q\<lparr>packets := P, startIndex := Suc (startIndex q) mod 256, numPackets := n\<rparr>) i = ring q (Suc i)"
  by (simp add: ring_def mod_simps)

lemma queue_push:
  assumes "queue_inv q" and "numPackets q < packetQueueSize"
  shows "\<exists>q'. packetQueue_push q p s = (True, q') \<and> queue_list q' = queue_list q @ [(p, s)] \<and> queue_inv q'"
proof -
  let ?k = "ring q (numPackets q)"
  let ?q = "q\<lparr>packets := (packets q)(?k := Some p), sequences := (sequences q)(?k := s),
              numPackets := numPackets q + 1\<rparr>"
  have push: "packetQueue_push q p s = (True, ?q)"
    using assms(2) by (simp add: packetQueue_push_def ring_def Let_def)
  have fresh: "ring q i \<noteq> ?k" if "i < numPackets q" for i
    using ring_inj[of q i "numPackets q"] that assms(2) by auto
  have "queue_list ?q = queue_list q @ [(p, s)]"
    using fresh by (simp add: queue_list_def)
  moreover have "queue_inv ?q"
    using assms fresh by (auto simp: queue_inv_def less_Suc_eq)
  ultimately show ?thesis using push by blast
qed

lemma queue_push_full: "numPackets q = packetQueueSize \<Longrightarrow> packetQueue_push q p s = (False, q)"
  by (simp add: packetQueue_push_def)

lemma queue_pop_empty: "numPackets q = 0 \<Longrightarrow> packetQueue_pop q = ((None, 0), q)"
  by (simp add: packetQueue_pop_def)

lemma queue_pop:
  assumes "queue_inv q" and "0 < numPackets q"
  shows "\<exists>p s q'. packetQueue_pop q = ((Some p, s), q') \<and> queue_list q = (p, s) # queue_list q' \<and> queue_inv q'"
proof -
  let ?q = "q\<lparr>packets := (packets q)(startIndex q := None),
              startIndex := Suc (startIndex q) mod 256, numPackets := numPackets q - 1\<rparr>"
  have start: "ring q 0 = startIndex q" using assms(1) by (simp add: ring_def queue_inv_def)
  obtain p where p: "packets q (startIndex q) = Some p"
    using assms start by (metis queue_inv_def option.exhaust)
  have pop: "packetQueue_pop q = ((Some p, sequences q (startIndex q)), ?q)"
    using assms(2) p by (simp add: packetQueue_pop_def Let_def)
  have fresh: "ring q (Suc i) \<noteq> startIndex q" if "Suc i < numPackets q" for i
    using ring_inj[of q "Suc i" 0] that assms(1) start by (auto simp: queue_inv_def)
  have upt: "[0..<numPackets q] = 0 # map Suc [0..<numPackets q - 1]"
    using assms(2) by (simp add: map_Suc_upt upt_conv_Cons)
  have "queue_list q = (p, sequences q (startIndex q)) # queue_list ?q"
    using fresh p start by (auto simp: queue_list_def upt simp del: upt_Suc)
  moreover have "queue_inv ?q"
    using assms fresh by (auto simp: queue_inv_def)
  ultimately show ?thesis using pop by blast
qed

lemma ring_step_refines:
  assumes "queue_inv q"
  shows "fst (ring_step q op) = fst (fifo_step packetQueueSize (queue_list q) op) \<and>
    queue_list (snd (ring_step q op)) = snd (fifo_step packetQueueSize (queue_list q) op) \<and>
    queue_inv (snd (ring_step q op))"
proof (cases op)
  case (Push x)
  obtain p s where x: "x = (p, s)" by (cases x)
  show ?thesis
  proof (cases "numPackets q < packetQueueSize")
    case True
    from queue_push[OF assms this, of p s] True show ?thesis by (auto simp: Push x)
  next
    case False
    then have "numPackets q = packetQueueSize" using assms by (simp add: queue_inv_def)
    with assms queue_push_full[OF this, of p s] show ?thesis by (simp add: Push x)
  qed
next
  case Pop
  show ?thesis
  proof (cases "numPackets q = 0")
    case True
    then have "queue_list q = []" by (simp add: queue_list_def)
    with True assms queue_pop_empty[OF True] show ?thesis by (simp add: Pop)
  next
    case False
    with queue_pop[OF assms] show ?thesis by (auto simp: Pop)
  qed
next
  case Clear
  then show ?thesis by simp
qed

interpretation ring: bounded_fifo ring_step queue_list queue_inv packetQueueSize
  by unfold_locales (simp_all add: ring_step_refines, simp add: queue_inv_def)

lemma queue_inv_push [simp]: "queue_inv q \<Longrightarrow> queue_inv (snd (packetQueue_push q p s))"
  using ring.step_inv[of q "Push (p, s)"] by (simp add: split_beta)

lemma queue_inv_pop [simp]: "queue_inv q \<Longrightarrow> queue_inv (snd (packetQueue_pop q))"
  using ring.step_inv[of q Pop] by (simp add: split_beta)

text \<open>
  C21: the ring buffer is a bounded FIFO queue. Any sequence of pushes, pops and clears on a fresh
  queue answers exactly as a list of capacity 256 that appends at one end and removes at the
  other: packets come out in arrival order, none is lost or duplicated, and only a push on a full
  queue is refused.
\<close>

theorem queue_is_bounded_fifo:
  "run_ops ring_step new_packetQueue ops = run_ops (fifo_step packetQueueSize) [] ops"
  using ring.run_refines[OF queue_inv_new] by simp

end
