(* ===== verification/Token_Entries.thy ===== *)
theory Token_Entries
  imports Netcode_Package Address
begin

text \<open>
  \<^verbatim>\<open>token_entries.go\<close>: the history of connect tokens the server has seen, keyed by the
  authentication tag of the private token. The tag slice converts to a 16 byte array only if it is
  long enough, which the loop does for occupied entries; a shorter slice panics there.
\<close>

definition maxConnectTokenEntries :: nat where [simp]: "maxConnectTokenEntries = MaxClients * 8"

definition connectTokenEntryFree :: int where [simp]: "connectTokenEntryFree = 0"
definition connectTokenEntryPending :: int where [simp]: "connectTokenEntryPending = 1"
definition connectTokenEntryConsumed :: int where [simp]: "connectTokenEntryConsumed = 2"
definition connectTokenEntryRefused :: int where [simp]: "connectTokenEntryRefused = -1"
definition connectTokenHistoryFull :: int where [simp]: "connectTokenHistoryFull = -2"

record connectTokenEntry =
  te_state :: int
  te_time :: float64
  te_expireTimestamp :: u64
  te_mac :: "byte list"
  te_address :: Address

type_synonym token_entries = "connectTokenEntry arr"

definition connectTokenEntriesReset :: "token_entries \<Rightarrow> token_entries" where
  "connectTokenEntriesReset entries =
     (\<lambda>i. if i < maxConnectTokenEntries then
        (entries i)\<lparr>te_state := connectTokenEntryFree, te_time := -1000, te_expireTimestamp := 0,
                    te_mac := replicate MacBytes 0, te_address := zeroAddress\<rparr>
      else entries i)"

text \<open>One round of the search loop, on \<open>matchingTokenIndex\<close> and \<open>freeTokenIndex\<close>.\<close>

definition find_entry_step ::
  "token_entries \<Rightarrow> byte list \<Rightarrow> u64 \<Rightarrow> nat \<Rightarrow> int \<times> int \<Rightarrow> (int \<times> int) option" where
  "find_entry_step entries mac currentTimestamp i = (\<lambda>(matchingTokenIndex, freeTokenIndex). do {
     matchingTokenIndex \<leftarrow>
       (if te_state (entries i) \<noteq> connectTokenEntryFree
        then if length mac < MacBytes then None
          else Some (if take MacBytes mac = te_mac (entries i) then int i else matchingTokenIndex)
        else Some matchingTokenIndex);
     let freeTokenIndex =
       (if freeTokenIndex = -1 \<and>
           (te_state (entries i) = connectTokenEntryFree \<or> te_expireTimestamp (entries i) \<le> currentTimestamp)
        then int i else freeTokenIndex);
     Some (matchingTokenIndex, freeTokenIndex) })"

definition connectTokenEntriesFindOrAdd ::
  "token_entries \<Rightarrow> Address \<Rightarrow> byte list \<Rightarrow> u64 \<Rightarrow> u64 \<Rightarrow> float64 \<Rightarrow> (int \<times> token_entries) option" where
  "connectTokenEntriesFindOrAdd entries address mac expireTimestamp currentTimestamp time = do {
     (matchingTokenIndex, freeTokenIndex) \<leftarrow>
       for_range (find_entry_step entries mac currentTimestamp) 0 maxConnectTokenEntries (-1, -1);
     if matchingTokenIndex = -1 then
       if freeTokenIndex = -1 then Some (connectTokenHistoryFull, entries)
       else do {
         i \<leftarrow> idx maxConnectTokenEntries freeTokenIndex;
         Some (freeTokenIndex, entries(i :=
           (entries i)\<lparr>te_state := connectTokenEntryPending, te_time := time,
             te_expireTimestamp := expireTimestamp, te_address := address,
             te_mac := copy_at (te_mac (entries i)) 0 mac\<rparr>)) }
     else do {
       i \<leftarrow> idx maxConnectTokenEntries matchingTokenIndex;
       if te_state (entries i) = connectTokenEntryPending \<and> Equal (te_address (entries i)) address
       then Some (matchingTokenIndex, entries)
       else Some (connectTokenEntryRefused, entries) } }"

definition connectTokenEntriesConsume :: "token_entries \<Rightarrow> int \<Rightarrow> token_entries" where
  "connectTokenEntriesConsume entries index =
     (if index \<ge> 0 \<and> index < int maxConnectTokenEntries
      then entries(nat index := (entries (nat index))\<lparr>te_state := connectTokenEntryConsumed\<rparr>)
      else entries)"

subsection \<open>The search loop\<close>

text \<open>Entry \<open>i\<close> records the tag \<open>mac\<close>; entry \<open>i\<close> may take a new token.\<close>

definition entry_matches :: "token_entries \<Rightarrow> byte list \<Rightarrow> nat \<Rightarrow> bool" where
  "entry_matches es mac i \<longleftrightarrow> te_state (es i) \<noteq> connectTokenEntryFree \<and> te_mac (es i) = mac"

definition entry_available :: "token_entries \<Rightarrow> u64 \<Rightarrow> nat \<Rightarrow> bool" where
  "entry_available es now i \<longleftrightarrow> te_state (es i) = connectTokenEntryFree \<or> te_expireTimestamp (es i) \<le> now"

text \<open>No two entries record the same tag, and tags have 16 bytes.\<close>

definition entries_inv :: "token_entries \<Rightarrow> bool" where
  "entries_inv es \<longleftrightarrow> (\<forall>i<2048. length (te_mac (es i)) = 16) \<and>
     (\<forall>i<2048. \<forall>j<2048. te_state (es i) \<noteq> 0 \<and> te_state (es j) \<noteq> 0 \<and> te_mac (es i) = te_mac (es j) \<longrightarrow> i = j)"

lemma find_entry_loop:
  assumes "length mac = 16"
  shows "\<exists>m. for_range (find_entry_step es mac now) 0 n (-1, -1) = Some (m, find_index (entry_available es now) n) \<and>
    (m = -1 \<and> (\<forall>i<n. \<not> entry_matches es mac i) \<or> 0 \<le> m \<and> nat m < n \<and> entry_matches es mac (nat m))"
proof -
  define P where "P = (\<lambda>k s. snd s = find_index (entry_available es now) k \<and>
    (fst s = -1 \<and> (\<forall>i<k. \<not> entry_matches es mac i) \<or> 0 \<le> fst s \<and> nat (fst s) < k \<and> entry_matches es mac (nat (fst s))))"
  have "\<exists>s'. for_range (find_entry_step es mac now) 0 n (-1, -1) = Some s' \<and> P (0 + n) s'"
  proof (rule for_range_inv)
    fix i and s :: "int \<times> int" assume P: "P i s"
    let ?m = "if entry_matches es mac i then int i else fst s"
    let ?f = "if snd s = -1 \<and> entry_available es now i then int i else snd s"
    have "find_entry_step es mac now i s = Some (?m, ?f)"
      using assms by (cases s) (auto simp: find_entry_step_def entry_matches_def entry_available_def Let_def)
    moreover have "P (Suc i) (?m, ?f)"
      using P by (auto simp: P_def find_index_Suc less_Suc_eq)
    ultimately show "\<exists>s'. find_entry_step es mac now i s = Some s' \<and> P (Suc i) s'" by blast
  next
    show "P 0 (-1, -1)" by (simp add: P_def find_index_def)
  qed
  then show ?thesis by (auto simp: P_def)
qed

text \<open>The position of a tag in the history, \<open>-1\<close> when it is absent.\<close>

definition entry_index :: "token_entries \<Rightarrow> byte list \<Rightarrow> int" where
  "entry_index es mac = find_index (entry_matches es mac) maxConnectTokenEntries"

lemma entries_unique:
  "entries_inv es \<Longrightarrow> i < 2048 \<Longrightarrow> j < 2048 \<Longrightarrow> entry_matches es mac i \<Longrightarrow> entry_matches es mac j \<Longrightarrow> i = j"
  by (auto simp: entries_inv_def entry_matches_def)

lemma entry_index_eq:
  assumes "entries_inv es" and "entry_matches es mac i" and "i < 2048"
  shows "entry_index es mac = int i"
  unfolding entry_index_def
proof (rule find_index_eq)
  fix j assume "j < i"
  with assms(3) entries_unique[OF assms(1) _ assms(3) _ assms(2), of j] show "\<not> entry_matches es mac j" by auto
qed (use assms in simp_all)

lemma findOrAdd_eq:
  assumes "entries_inv es" and "length mac = 16"
  shows "connectTokenEntriesFindOrAdd es address mac e now time = Some
    (let m = entry_index es mac; f = find_index (entry_available es now) 2048 in
     if m = -1 then
       if f = -1 then (-2, es)
       else (f, es(nat f := (es (nat f))\<lparr>te_state := 1, te_time := time, te_expireTimestamp := e,
                             te_address := address, te_mac := mac\<rparr>))
     else if te_state (es (nat m)) = 1 \<and> Equal (te_address (es (nat m))) address then (m, es)
     else (-1, es))"
proof -
  let ?f = "find_index (entry_available es now) 2048"
  obtain m where loop: "for_range (find_entry_step es mac now) 0 2048 (-1, -1) = Some (m, ?f)"
    and m: "m = -1 \<and> (\<forall>i<2048. \<not> entry_matches es mac i) \<or> 0 \<le> m \<and> nat m < 2048 \<and> entry_matches es mac (nat m)"
    using find_entry_loop[OF assms(2), of es now 2048] by auto
  have idx: "entry_index es mac = m"
  proof (cases "m = -1")
    case True
    with m show ?thesis by (auto simp: entry_index_def find_index_neg)
  next
    case False
    with m entry_index_eq[OF assms(1), of mac "nat m"] show ?thesis by auto
  qed
  have f: "?f = -1 \<or> 0 \<le> ?f \<and> ?f < 2048 \<and> length (te_mac (es (nat ?f))) = 16"
    using find_index_Some[OF refl, of "entry_available es now" 2048] assms(1) by (auto simp: entries_inv_def)
  have copy: "length b = 16 \<Longrightarrow> copy_at b 0 mac = mac" for b
    using assms(2) by (simp add: copy_at_fits)
  show ?thesis
    using m f by (elim disjE) (auto simp: connectTokenEntriesFindOrAdd_def loop idx copy Let_def)
qed

lemma entries_inv_findOrAdd:
  assumes "entries_inv es" and "length mac = 16"
    and "connectTokenEntriesFindOrAdd es address mac e now time = Some (k, es')"
  shows "entries_inv es'"
proof (cases "entry_index es mac = -1 \<and> find_index (entry_available es now) 2048 \<noteq> -1")
  case True
  define f where "f = nat (find_index (entry_available es now) 2048)"
  have es': "es' = es(f := (es f)\<lparr>te_state := 1, te_time := time, te_expireTimestamp := e,
      te_address := address, te_mac := mac\<rparr>)"
    using True assms(3) findOrAdd_eq[OF assms(1,2)] by (auto simp: f_def Let_def)
  have fresh: "te_state (es i) \<noteq> 0 \<longrightarrow> te_mac (es i) \<noteq> mac" if "i < 2048" for i
    using True that by (auto simp: entry_index_def find_index_neg entry_matches_def)
  show ?thesis
    unfolding entries_inv_def
  proof (intro conjI allI impI)
    fix i :: nat assume "i < 2048"
    with assms(1,2) show "length (te_mac (es' i)) = 16" by (simp add: es' entries_inv_def)
  next
    fix i j :: nat assume ij: "i < 2048" "j < 2048"
      and eq: "te_state (es' i) \<noteq> 0 \<and> te_state (es' j) \<noteq> 0 \<and> te_mac (es' i) = te_mac (es' j)"
    consider "i = f" | "j = f" | "i \<noteq> f" "j \<noteq> f" by blast
    then show "i = j"
    proof cases
      case 1
      with eq fresh[OF ij(2)] show ?thesis by (auto simp: es' split: if_splits)
    next
      case 2
      with eq fresh[OF ij(1)] show ?thesis by (auto simp: es' split: if_splits)
    next
      case 3
      with eq ij assms(1) show ?thesis by (auto simp: es' entries_inv_def)
    qed
  qed
next
  case False
  then have "es' = es"
    using assms(3) findOrAdd_eq[OF assms(1,2)] by (auto simp: Let_def split: if_splits)
  with assms(1) show ?thesis by simp
qed

lemma entries_inv_reset: "entries_inv (connectTokenEntriesReset es)"
  by (simp add: entries_inv_def connectTokenEntriesReset_def)

lemma entries_inv_consume:
  assumes "entries_inv es" and "0 \<le> k" and "nat k < 2048" and "te_state (es (nat k)) \<noteq> 0"
  shows "entries_inv (connectTokenEntriesConsume es k)"
proof -
  let ?es = "connectTokenEntriesConsume es k"
  have "te_state (?es i) \<noteq> 0 \<longleftrightarrow> te_state (es i) \<noteq> 0" "te_mac (?es i) = te_mac (es i)" for i
    using assms by (simp_all add: connectTokenEntriesConsume_def)
  with assms(1) show ?thesis by (simp add: entries_inv_def)
qed

lemma findOrAdd_range:
  assumes "entries_inv es" and "length mac = 16"
    and "connectTokenEntriesFindOrAdd es address mac e now time = Some (k, es')"
  shows "k = -2 \<or> k = -1 \<or> 0 \<le> k \<and> k < 2048 \<and> te_state (es' (nat k)) = 1"
proof -
  let ?f = "find_index (entry_available es now) 2048"
  have "?f = -1 \<or> 0 \<le> ?f \<and> ?f < 2048" using find_index_Some[OF refl, of "entry_available es now" 2048] by auto
  moreover have "entry_index es mac = -1 \<or> 0 \<le> entry_index es mac \<and> entry_index es mac < 2048"
    using find_index_Some[OF refl, of "entry_matches es mac" 2048] by (auto simp: entry_index_def)
  ultimately show ?thesis
    using assms(3) findOrAdd_eq[OF assms(1,2)] by (auto simp: Let_def split: if_splits)
qed

lemma findOrAdd_occupied:
  assumes "entries_inv es" and "length mac = 16"
    and "connectTokenEntriesFindOrAdd es address mac e now time = Some (k, es')"
    and "te_state (es i) \<noteq> 0"
  shows "te_state (es' i) \<noteq> 0"
  using assms(3,4) findOrAdd_eq[OF assms(1,2)] by (auto simp: Let_def split: if_splits)

lemma findOrAdd_live:
  assumes "entries_inv es" and "length mac = 16"
    and "connectTokenEntriesFindOrAdd es address mac e now time = Some (k, es')"
    and "te_state (es i) \<noteq> 0" and "now < te_expireTimestamp (es i)"
  shows "es' i = es i"
proof -
  let ?f = "find_index (entry_available es now) 2048"
  have "?f \<noteq> -1 \<longrightarrow> nat ?f \<noteq> i"
  proof
    assume "?f \<noteq> -1"
    from find_index_Some[OF refl this] assms(4,5) show "nat ?f \<noteq> i"
      by (auto simp: entry_available_def)
  qed
  with assms(3) findOrAdd_eq[OF assms(1,2)] show ?thesis by (auto simp: Let_def split: if_splits)
qed

lemma findOrAdd_consumed:
  assumes "entries_inv es" and "length mac = 16" and "i < 2048"
    and "te_state (es i) = 2" and "te_mac (es i) = mac"
  shows "connectTokenEntriesFindOrAdd es address mac e now time = Some (-1, es)"
proof -
  have "entry_index es mac = int i"
    by (rule entry_index_eq[OF assms(1)]) (use assms in \<open>simp_all add: entry_matches_def\<close>)
  with assms(4) show ?thesis by (simp add: findOrAdd_eq[OF assms(1,2)])
qed

text \<open>A token is spent: some entry records its tag as consumed, until the given time.\<close>

definition token_spent :: "token_entries \<Rightarrow> byte list \<Rightarrow> u64 \<Rightarrow> bool" where
  "token_spent es mac e \<longleftrightarrow> (\<exists>i<2048. te_state (es i) = 2 \<and> te_mac (es i) = mac \<and> te_expireTimestamp (es i) = e)"

lemma token_spent_refused:
  "entries_inv es \<Longrightarrow> length mac = 16 \<Longrightarrow> token_spent es mac e \<Longrightarrow>
    connectTokenEntriesFindOrAdd es address mac e' now time = Some (-1, es)"
  by (auto simp: token_spent_def findOrAdd_consumed)

lemma token_spent_findOrAdd:
  assumes "entries_inv es" and "length mac' = 16" and "token_spent es mac e" and "now < e"
    and "connectTokenEntriesFindOrAdd es address mac' e' now time = Some (k, es')"
  shows "token_spent es' mac e"
proof -
  obtain i where i: "i < 2048" "te_state (es i) = 2" "te_mac (es i) = mac" "te_expireTimestamp (es i) = e"
    using assms(3) by (auto simp: token_spent_def)
  with findOrAdd_live[OF assms(1,2,5), of i] assms(4) show ?thesis by (auto simp: token_spent_def)
qed

lemma token_spent_consume: "token_spent es mac e \<Longrightarrow> token_spent (connectTokenEntriesConsume es k) mac e"
  unfolding token_spent_def by (elim exE, rule_tac x = i in exI) (auto simp: connectTokenEntriesConsume_def)

subsection \<open>Properties\<close>

text \<open>
  C23: admission of a connect token, on every branch. In a history without duplicate tags: a tag that
  is not recorded takes the first entry that is free or expired and is recorded as pending for the
  address and expire timestamp it came with, or is turned away as history full when every entry
  holds an unexpired token (nothing is evicted); a recorded tag is admitted again only while it is
  pending and only from the address that created the entry, and is refused otherwise. Apart from
  the new entry the history does not change, and it stays free of duplicates.
\<close>

theorem token_admission:
  assumes "entries_inv es" and "length mac = MacBytes"
  shows "\<exists>k es'. connectTokenEntriesFindOrAdd es address mac e now time = Some (k, es') \<and> entries_inv es' \<and>
    (if entry_index es mac = -1 then
       let f = find_index (entry_available es now) maxConnectTokenEntries in
       if f = -1 then k = connectTokenHistoryFull \<and> es' = es
       else k = f \<and> es' = es(nat f := \<lparr>te_state = connectTokenEntryPending, te_time = time,
         te_expireTimestamp = e, te_mac = mac, te_address = address\<rparr>)
     else es' = es \<and>
       k = (if te_state (es (nat (entry_index es mac))) = connectTokenEntryPending \<and>
               Equal (te_address (es (nat (entry_index es mac)))) address
            then entry_index es mac else connectTokenEntryRefused))"
proof -
  have len: "length mac = 16" using assms(2) by simp
  obtain k es' where eq: "connectTokenEntriesFindOrAdd es address mac e now time = Some (k, es')"
    using findOrAdd_eq[OF assms(1) len] by (metis surj_pair)
  have upd: "r\<lparr>te_state := 1, te_time := time, te_expireTimestamp := e, te_address := address, te_mac := mac\<rparr> =
      \<lparr>te_state = 1, te_time = time, te_expireTimestamp = e, te_mac = mac, te_address = address\<rparr>"
    for r :: connectTokenEntry by (cases r) simp
  from eq entries_inv_findOrAdd[OF assms(1) len eq] findOrAdd_eq[OF assms(1) len, of address e now time]
  show ?thesis
    by (intro exI[of _ k] exI[of _ es']) (auto simp: Let_def upd)
qed

lemma entry_index_reset: "entry_index (connectTokenEntriesReset es) mac = -1"
  by (simp add: entry_index_def find_index_neg entry_matches_def connectTokenEntriesReset_def)

definition initial_entries :: token_entries where
  "initial_entries = connectTokenEntriesReset
     (\<lambda>_. \<lparr>te_state = 0, te_time = 0, te_expireTimestamp = 0, te_mac = replicate 16 0, te_address = zeroAddress\<rparr>)"

lemma entries_inv_initial: "entries_inv initial_entries"
  by (simp add: initial_entries_def entries_inv_reset)

theorem token_admission_witness:
  "\<exists>k es'. connectTokenEntriesFindOrAdd initial_entries (zeroAddress\<lparr>Type := 1, Port := 40000\<rparr>) (replicate 16 7) 130 100 0 = Some (k, es') \<and>
    entries_inv es' \<and>
    (if entry_index initial_entries (replicate 16 7) = -1 then
       let f = find_index (entry_available initial_entries 100) maxConnectTokenEntries in
       if f = -1 then k = connectTokenHistoryFull \<and> es' = initial_entries
       else k = f \<and> es' = initial_entries(nat f := \<lparr>te_state = connectTokenEntryPending, te_time = 0,
         te_expireTimestamp = 130, te_mac = replicate 16 7, te_address = (zeroAddress\<lparr>Type := 1, Port := 40000\<rparr>)\<rparr>)
     else es' = initial_entries \<and>
       k = (if te_state (initial_entries (nat (entry_index initial_entries (replicate 16 7)))) = connectTokenEntryPending \<and>
               Equal (te_address (initial_entries (nat (entry_index initial_entries (replicate 16 7))))) (zeroAddress\<lparr>Type := 1, Port := 40000\<rparr>)
            then entry_index initial_entries (replicate 16 7) else connectTokenEntryRefused))"
  by (rule token_admission[OF entries_inv_initial]) simp

text \<open>
  C25: entry positions outlive the tokens they were given for. A token \<open>A\<close> is presented and gets an
  entry; when it has expired the entry goes to another token \<open>B\<close>; consuming the position that was
  handed out for \<open>A\<close>, as the server does when the response of \<open>A\<close> comes late, then marks \<open>B\<close> as used,
  and \<open>B\<close>, unexpired and never used, is refused from the very address that is pending for it.
\<close>

theorem stale_entry_consumes_other_token:
  assumes "length A = MacBytes" and "length B = MacBytes" and "A \<noteq> B" and "eA \<le> now2"
  shows "\<exists>es1 es2. connectTokenEntriesFindOrAdd initial_entries a A eA now1 t1 = Some (0, es1) \<and>
    connectTokenEntriesFindOrAdd es1 b B eB now2 t2 = Some (0, es2) \<and>
    connectTokenEntriesFindOrAdd (connectTokenEntriesConsume es2 0) b B eB now3 t3 =
      Some (connectTokenEntryRefused, connectTokenEntriesConsume es2 0)"
proof -
  let ?es0 = initial_entries
  have len: "length A = 16" "length B = 16" using assms(1,2) by simp_all
  have f0: "find_index (entry_available ?es0 now1) 2048 = int 0"
    by (rule find_index_eq) (simp_all add: entry_available_def initial_entries_def connectTokenEntriesReset_def)
  have i0: "entry_index ?es0 A = -1" by (simp add: initial_entries_def entry_index_reset)
  define es1 where "es1 = ?es0(0 := (?es0 0)\<lparr>te_state := 1, te_time := t1, te_expireTimestamp := eA,
      te_address := a, te_mac := A\<rparr>)"
  have 1: "connectTokenEntriesFindOrAdd ?es0 a A eA now1 t1 = Some (0, es1)"
    by (simp add: findOrAdd_eq[OF entries_inv_initial len(1)] f0 i0 es1_def)
  note inv1 = entries_inv_findOrAdd[OF entries_inv_initial len(1) 1]
  have f1: "find_index (entry_available es1 now2) 2048 = int 0"
    by (rule find_index_eq) (use assms(4) in \<open>simp_all add: entry_available_def es1_def\<close>)
  have i1: "entry_index es1 B = -1"
    using assms(3) by (auto simp: entry_index_def find_index_neg entry_matches_def es1_def initial_entries_def
        connectTokenEntriesReset_def)
  define es2 where "es2 = es1(0 := (es1 0)\<lparr>te_state := 1, te_time := t2, te_expireTimestamp := eB,
      te_address := b, te_mac := B\<rparr>)"
  have 2: "connectTokenEntriesFindOrAdd es1 b B eB now2 t2 = Some (0, es2)"
    by (simp add: findOrAdd_eq[OF inv1 len(2)] f1 i1 es2_def)
  have "entries_inv (connectTokenEntriesConsume es2 0)"
    by (rule entries_inv_consume[OF entries_inv_findOrAdd[OF inv1 len(2) 2]]) (simp_all add: es2_def)
  then have "connectTokenEntriesFindOrAdd (connectTokenEntriesConsume es2 0) b B eB now3 t3 =
      Some (-1, connectTokenEntriesConsume es2 0)"
    by (rule findOrAdd_consumed[OF _ len(2), where i = 0]) (simp_all add: connectTokenEntriesConsume_def es2_def)
  with 1 2 show ?thesis by auto
qed

theorem stale_entry_consumes_other_token_witness:
  "\<exists>es1 es2. connectTokenEntriesFindOrAdd initial_entries (zeroAddress\<lparr>Type := 1, Port := 40000\<rparr>) (replicate 16 1) 100 99 0 = Some (0, es1) \<and>
    connectTokenEntriesFindOrAdd es1 (zeroAddress\<lparr>Type := 1, Port := 40000\<rparr>) (replicate 16 2) 130 100 1 = Some (0, es2) \<and>
    connectTokenEntriesFindOrAdd (connectTokenEntriesConsume es2 0) (zeroAddress\<lparr>Type := 1, Port := 40000\<rparr>) (replicate 16 2) 130 101 2 =
      Some (connectTokenEntryRefused, connectTokenEntriesConsume es2 0)"
  by (rule stale_entry_consumes_other_token) simp_all

end
