(* ===== verification/Encryption_Manager.thy ===== *)
theory Encryption_Manager
  imports Netcode_Package Address
begin

text \<open>
  \<^verbatim>\<open>encryption.go\<close>: the table from packet source addresses to session keys. Locale \<open>key_table\<close>
  states what the server relies on: a mapping that was added is found, the mappings of other
  addresses stay, and a slot that belongs to a connected client is never given away.
\<close>

definition maxEncryptionMappings :: nat where [simp]: "maxEncryptionMappings = MaxClients * 4"

record encryptionManager =
  numEncryptionMappings :: nat
  em_timeout :: "i32 arr"
  em_expireTime :: "float64 arr"
  em_lastAccessTime :: "float64 arr"
  em_address :: "Address arr"
  em_clientIndex :: "int arr"
  em_connectTokenEntryIndex :: "int arr"
  em_sendKey :: "byte list arr"
  em_receiveKey :: "byte list arr"

text \<open>The loop of \<open>reset\<close> assigns every element of every array.\<close>

definition encryptionManager_reset :: "encryptionManager \<Rightarrow> encryptionManager" where
  "encryptionManager_reset m =
     m\<lparr>numEncryptionMappings := 0,
       em_clientIndex := (\<lambda>_. -1), em_connectTokenEntryIndex := (\<lambda>_. -1), em_expireTime := (\<lambda>_. -1),
       em_lastAccessTime := (\<lambda>_. -1000), em_address := (\<lambda>_. zeroAddress), em_timeout := (\<lambda>_. 0),
       em_sendKey := (\<lambda>_. replicate KeyBytes 0), em_receiveKey := (\<lambda>_. replicate KeyBytes 0)\<rparr>"

definition entryExpired :: "encryptionManager \<Rightarrow> nat \<Rightarrow> float64 \<Rightarrow> bool" where
  "entryExpired m index time \<longleftrightarrow>
     (sint (em_timeout m index) > 0 \<and> em_lastAccessTime m index + of_int (sint (em_timeout m index)) < time) \<or>
     (em_expireTime m index \<ge> 0 \<and> em_expireTime m index < time)"

text \<open>\<open>copy(m.sendKey[i][:], sendKey)\<close> keeps the tail of the old key under a shorter one.\<close>

definition set_mapping ::
  "encryptionManager \<Rightarrow> nat \<Rightarrow> byte list \<Rightarrow> byte list \<Rightarrow> float64 \<Rightarrow> float64 \<Rightarrow> i32 \<Rightarrow> int \<Rightarrow> encryptionManager" where
  "set_mapping m i sendKey receiveKey time expireTime timeout connectTokenEntryIndex =
     m\<lparr>em_timeout := (em_timeout m)(i := timeout),
       em_expireTime := (em_expireTime m)(i := expireTime),
       em_lastAccessTime := (em_lastAccessTime m)(i := time),
       em_connectTokenEntryIndex := (em_connectTokenEntryIndex m)(i := connectTokenEntryIndex),
       em_sendKey := (em_sendKey m)(i := copy_at (em_sendKey m i) 0 sendKey),
       em_receiveKey := (em_receiveKey m)(i := copy_at (em_receiveKey m i) 0 receiveKey)\<rparr>"

definition addEncryptionMapping ::
  "encryptionManager \<Rightarrow> Address \<Rightarrow> byte list \<Rightarrow> byte list \<Rightarrow> float64 \<Rightarrow> float64 \<Rightarrow> i32 \<Rightarrow> int \<Rightarrow>
     bool \<times> encryptionManager" where
  "addEncryptionMapping m address sendKey receiveKey time expireTime timeout connectTokenEntryIndex =
     (let i = find_index (\<lambda>i. Equal (em_address m i) address \<and> \<not> entryExpired m i time) (numEncryptionMappings m) in
      if i \<noteq> -1
      then (True, set_mapping m (nat i) sendKey receiveKey time expireTime timeout connectTokenEntryIndex)
      else
        let i = find_index (\<lambda>i. Type (em_address m i) = AddressNone \<or>
                                (entryExpired m i time \<and> em_clientIndex m i = -1)) maxEncryptionMappings in
        if i \<noteq> -1 then
          let m = set_mapping m (nat i) sendKey receiveKey time expireTime timeout connectTokenEntryIndex;
              m = m\<lparr>em_address := (em_address m)(nat i := address)\<rparr>;
              m = (if nat i + 1 > numEncryptionMappings m then m\<lparr>numEncryptionMappings := nat i + 1\<rparr> else m)
          in (True, m)
        else (False, m))"

text \<open>
  The loop that gives up expired mappings below the one removed. The argument is \<open>index + 1\<close>, and so
  is the result: the new number of mappings.
\<close>

fun reclaim :: "encryptionManager \<Rightarrow> float64 \<Rightarrow> nat \<Rightarrow> encryptionManager \<times> nat" where
  "reclaim m time 0 = (m, 0)"
| "reclaim m time (Suc index) =
     (if \<not> entryExpired m index time \<or> em_clientIndex m index \<noteq> -1 then (m, Suc index)
      else reclaim (m\<lparr>em_address := (em_address m)(index := (em_address m index)\<lparr>Type := AddressNone\<rparr>)\<rparr>) time index)"

definition removeEncryptionMapping ::
  "encryptionManager \<Rightarrow> Address \<Rightarrow> float64 \<Rightarrow> bool \<times> encryptionManager" where
  "removeEncryptionMapping m address time =
     (let i = find_index (\<lambda>i. Equal (em_address m i) address) (numEncryptionMappings m) in
      if i = -1 then (False, m)
      else
        let i = nat i;
            m = m\<lparr>em_expireTime := (em_expireTime m)(i := -1),
                  em_lastAccessTime := (em_lastAccessTime m)(i := -1000),
                  em_connectTokenEntryIndex := (em_connectTokenEntryIndex m)(i := -1),
                  em_address := (em_address m)(i := zeroAddress),
                  em_sendKey := (em_sendKey m)(i := replicate KeyBytes 0),
                  em_receiveKey := (em_receiveKey m)(i := replicate KeyBytes 0)\<rparr>
        in if i + 1 = numEncryptionMappings m
           then let (m, n) = reclaim m time i in (True, m\<lparr>numEncryptionMappings := n\<rparr>)
           else (True, m))"

definition findEncryptionMapping ::
  "encryptionManager \<Rightarrow> Address \<Rightarrow> float64 \<Rightarrow> int \<times> encryptionManager" where
  "findEncryptionMapping m address time =
     (let i = find_index (\<lambda>i. Equal (em_address m i) address \<and> \<not> entryExpired m i time) (numEncryptionMappings m) in
      if i = -1 then (-1, m)
      else (i, m\<lparr>em_lastAccessTime := (em_lastAccessTime m)(nat i := time)\<rparr>))"

definition touch :: "encryptionManager \<Rightarrow> int \<Rightarrow> Address \<Rightarrow> float64 \<Rightarrow> (bool \<times> encryptionManager) option" where
  "touch m index address time = do {
     i \<leftarrow> idx maxEncryptionMappings index;
     if \<not> Equal (em_address m i) address then Some (False, m)
     else Some (True, m\<lparr>em_lastAccessTime := (em_lastAccessTime m)(i := time)\<rparr>) }"

definition setExpireTime :: "encryptionManager \<Rightarrow> int \<Rightarrow> float64 \<Rightarrow> encryptionManager option" where
  "setExpireTime m index expireTime = do {
     i \<leftarrow> idx maxEncryptionMappings index;
     Some (m\<lparr>em_expireTime := (em_expireTime m)(i := expireTime)\<rparr>) }"

text \<open>A nil slice is \<open>None\<close> inside the option of the panic.\<close>

definition getSendKey :: "encryptionManager \<Rightarrow> int \<Rightarrow> byte list option option" where
  "getSendKey m index =
     (if index = -1 then Some None else do { i \<leftarrow> idx maxEncryptionMappings index; Some (Some (em_sendKey m i)) })"

definition getReceiveKey :: "encryptionManager \<Rightarrow> int \<Rightarrow> byte list option option" where
  "getReceiveKey m index =
     (if index = -1 then Some None else do { i \<leftarrow> idx maxEncryptionMappings index; Some (Some (em_receiveKey m i)) })"

definition getTimeout :: "encryptionManager \<Rightarrow> int \<Rightarrow> i32 option" where
  "getTimeout m index =
     (if index = -1 then Some 0 else do { i \<leftarrow> idx maxEncryptionMappings index; Some (em_timeout m i) })"

definition getConnectTokenEntryIndex :: "encryptionManager \<Rightarrow> int \<Rightarrow> int option" where
  "getConnectTokenEntryIndex m index =
     (if index = -1 then Some (-1)
      else do { i \<leftarrow> idx maxEncryptionMappings index; Some (em_connectTokenEntryIndex m i) })"

subsection \<open>Invariant\<close>

definition em_inv :: "encryptionManager \<Rightarrow> bool" where
  "em_inv m \<longleftrightarrow> numEncryptionMappings m \<le> 1024 \<and>
     (\<forall>i\<ge>numEncryptionMappings m. Type (em_address m i) = 0) \<and>
     (\<forall>i. length (em_sendKey m i) = 32) \<and> (\<forall>i. length (em_receiveKey m i) = 32)"

lemma em_inv_reset [simp]: "em_inv (encryptionManager_reset m)"
  by (simp add: em_inv_def encryptionManager_reset_def)

lemma em_inv_Equal: "em_inv m \<Longrightarrow> Equal (em_address m i) a \<Longrightarrow> i < numEncryptionMappings m \<and> i < 1024"
  using Equal_Type[of "em_address m i" a] by (fastforce simp: em_inv_def not_le[symmetric])

text \<open>What adding a mapping does, in one statement: the slot it uses and what the slot was.\<close>

definition add_slot :: "encryptionManager \<Rightarrow> Address \<Rightarrow> float64 \<Rightarrow> nat \<Rightarrow> bool \<Rightarrow> bool" where
  "add_slot m a time i fresh \<longleftrightarrow> i < 1024 \<and>
     (if fresh then Type (em_address m i) = 0 \<or> entryExpired m i time \<and> em_clientIndex m i = -1
      else i < numEncryptionMappings m \<and> Equal (em_address m i) a \<and> \<not> entryExpired m i time)"

lemma add_cases:
  assumes "em_inv m" and "length sk = 32" and "length rk = 32"
  obtains (full) "addEncryptionMapping m a sk rk time ex tmo k = (False, m)"
      "\<And>i. i < 1024 \<Longrightarrow> Type (em_address m i) \<noteq> 0 \<and> (\<not> entryExpired m i time \<or> em_clientIndex m i \<noteq> -1)"
  | (added) i fresh m' where "addEncryptionMapping m a sk rk time ex tmo k = (True, m')" "add_slot m a time i fresh"
      "\<forall>j<numEncryptionMappings m. (fresh \<or> j < i) \<and> Equal (em_address m j) a \<longrightarrow> entryExpired m j time"
      "em_address m' = (if fresh then (em_address m)(i := a) else em_address m)"
      "numEncryptionMappings m' = max (numEncryptionMappings m) (if fresh then i + 1 else 0)"
      "em_timeout m' = (em_timeout m)(i := tmo)" "em_expireTime m' = (em_expireTime m)(i := ex)"
      "em_lastAccessTime m' = (em_lastAccessTime m)(i := time)" "em_clientIndex m' = em_clientIndex m"
      "em_connectTokenEntryIndex m' = (em_connectTokenEntryIndex m)(i := k)"
      "em_sendKey m' = (em_sendKey m)(i := sk)" "em_receiveKey m' = (em_receiveKey m)(i := rk)"
proof -
  let ?P = "\<lambda>i. Equal (em_address m i) a \<and> \<not> entryExpired m i time"
  let ?Q = "\<lambda>i. Type (em_address m i) = 0 \<or> (entryExpired m i time \<and> em_clientIndex m i = -1)"
  have copy: "copy_at (em_sendKey m i) 0 sk = sk" "copy_at (em_receiveKey m i) 0 rk = rk" for i
    using assms by (simp_all add: em_inv_def copy_at_fits)
  show thesis
  proof (cases "find_index ?P (numEncryptionMappings m) = -1")
    case False
    define i where "i = nat (find_index ?P (numEncryptionMappings m))"
    have i: "i < numEncryptionMappings m" "?P i" "\<forall>j<i. \<not> ?P j"
      using find_index_Some[OF refl False] unfolding i_def by blast+
    from i assms(1) have slot: "add_slot m a time i False" by (simp add: add_slot_def em_inv_def)
    have eq: "addEncryptionMapping m a sk rk time ex tmo k = (True, set_mapping m i sk rk time ex tmo k)"
      using False by (simp add: addEncryptionMapping_def i_def)
    have old: "\<forall>j<numEncryptionMappings m. (False \<or> j < i) \<and> Equal (em_address m j) a \<longrightarrow> entryExpired m j time"
      using i(3) by blast
    show thesis
      by (rule added[OF eq slot old]) (simp_all add: set_mapping_def copy)
  next
    case none: True
    show thesis
    proof (cases "find_index ?Q 1024 = -1")
      case True
      with none show thesis
        by (intro full) (auto simp: addEncryptionMapping_def Let_def find_index_neg)
    next
      case False
      define i where "i = nat (find_index ?Q 1024)"
      have "i < 1024" "?Q i" using find_index_Some[OF refl False] unfolding i_def by blast+
      then have slot: "add_slot m a time i True" by (simp add: add_slot_def)
      have old: "\<forall>j<numEncryptionMappings m. (True \<or> j < i) \<and> Equal (em_address m j) a \<longrightarrow> entryExpired m j time"
        using none by (auto simp: find_index_neg)
      define m1 where "m1 = set_mapping m i sk rk time ex tmo k"
      define m2 where "m2 = m1\<lparr>em_address := (em_address m1)(i := a)\<rparr>"
      have eq: "addEncryptionMapping m a sk rk time ex tmo k =
          (True, if i + 1 > numEncryptionMappings m2 then m2\<lparr>numEncryptionMappings := i + 1\<rparr> else m2)"
        using none False by (simp add: addEncryptionMapping_def Let_def m2_def m1_def i_def)
      show thesis
        by (rule added[OF eq slot old]) (auto simp: m2_def m1_def set_mapping_def copy)
    qed
  qed
qed

lemma em_inv_add:
  assumes "em_inv m" and "length sk = 32" and "length rk = 32"
  shows "em_inv (snd (addEncryptionMapping m a sk rk time ex tmo k))"
proof (rule add_cases[OF assms, of a time ex tmo k])
  fix i fresh m'
  assume "addEncryptionMapping m a sk rk time ex tmo k = (True, m')" "add_slot m a time i fresh"
    "em_address m' = (if fresh then (em_address m)(i := a) else em_address m)"
    "numEncryptionMappings m' = max (numEncryptionMappings m) (if fresh then i + 1 else 0)"
    "em_sendKey m' = (em_sendKey m)(i := sk)" "em_receiveKey m' = (em_receiveKey m)(i := rk)"
  with assms show ?thesis
    by (cases fresh) (auto simp: em_inv_def add_slot_def)
qed (use assms in simp)

lemma reclaim_spec:
  "snd (reclaim m time n) \<le> n \<and>
    (\<forall>i. em_address (fst (reclaim m time n)) i =
       (if snd (reclaim m time n) \<le> i \<and> i < n then (em_address m i)\<lparr>Type := 0\<rparr> else em_address m i)) \<and>
    (\<forall>i. snd (reclaim m time n) \<le> i \<and> i < n \<longrightarrow> entryExpired m i time \<and> em_clientIndex m i = -1) \<and>
    (\<exists>A. fst (reclaim m time n) = m\<lparr>em_address := A\<rparr>)"
proof (induction n arbitrary: m)
  case 0
  have "m = m\<lparr>em_address := em_address m\<rparr>" by simp
  then show ?case by (auto intro: exI[of _ "em_address m"])
next
  case (Suc n)
  show ?case
  proof (cases "\<not> entryExpired m n time \<or> em_clientIndex m n \<noteq> -1")
    case True
    have "m = m\<lparr>em_address := em_address m\<rparr>" by simp
    with True show ?thesis by (auto intro: exI[of _ "em_address m"])
  next
    case False
    let ?m = "m\<lparr>em_address := (em_address m)(n := (em_address m n)\<lparr>Type := 0\<rparr>)\<rparr>"
    have eq: "reclaim m time (Suc n) = reclaim ?m time n" using False by simp
    have exp: "entryExpired ?m i time = entryExpired m i time" for i by (simp add: entryExpired_def)
    note IH = Suc.IH[of ?m]
    from IH obtain A where A: "fst (reclaim ?m time n) = ?m\<lparr>em_address := A\<rparr>" by blast
    show ?thesis
      unfolding eq
    proof (intro conjI allI impI)
      show "snd (reclaim ?m time n) \<le> Suc n" using IH by simp
      show "em_address (fst (reclaim ?m time n)) i =
        (if snd (reclaim ?m time n) \<le> i \<and> i < Suc n then (em_address m i)\<lparr>Type := 0\<rparr> else em_address m i)" for i
        using IH by (auto simp: less_Suc_eq)
      fix i assume i: "snd (reclaim ?m time n) \<le> i \<and> i < Suc n"
      show "entryExpired m i time" "em_clientIndex m i = -1"
        using IH i False exp[of i] by (auto simp: less_Suc_eq)
    next
      show "\<exists>A. fst (reclaim ?m time n) = m\<lparr>em_address := A\<rparr>" using A by auto
    qed
  qed
qed

text \<open>What removing a mapping does: one slot is cleared, expired slots may lose their type.\<close>

lemma remove_cases:
  assumes "em_inv m"
  obtains (absent) "removeEncryptionMapping m a time = (False, m)" "\<And>i. \<not> Equal (em_address m i) a"
  | (removed) i m' where "removeEncryptionMapping m a time = (True, m')"
      "i < numEncryptionMappings m" "Equal (em_address m i) a" "\<And>j. j < i \<Longrightarrow> \<not> Equal (em_address m j) a"
      "em_inv m'" "em_clientIndex m' = em_clientIndex m" "em_timeout m' = em_timeout m"
      "em_connectTokenEntryIndex m' = (em_connectTokenEntryIndex m)(i := -1)"
      "em_address m' i = zeroAddress"
      "\<And>j. j \<noteq> i \<Longrightarrow> em_address m' j = em_address m j \<or> em_clientIndex m j = -1 \<and> Type (em_address m' j) = 0"
      "\<And>j. j \<noteq> i \<Longrightarrow> em_sendKey m' j = em_sendKey m j \<and> em_receiveKey m' j = em_receiveKey m j"
proof (cases "find_index (\<lambda>i. Equal (em_address m i) a) (numEncryptionMappings m) = -1")
  case True
  then have "\<not> Equal (em_address m i) a" for i
    using em_inv_Equal[OF assms, of i a] by (auto simp: find_index_neg)
  with True show thesis by (intro absent) (simp_all add: removeEncryptionMapping_def)
next
  case False
  define i where "i = nat (find_index (\<lambda>i. Equal (em_address m i) a) (numEncryptionMappings m))"
  have i: "i < numEncryptionMappings m" "Equal (em_address m i) a" "\<And>j. j < i \<Longrightarrow> \<not> Equal (em_address m j) a"
    using find_index_Some[OF refl False] unfolding i_def by blast+
  define m1 where "m1 = m\<lparr>em_expireTime := (em_expireTime m)(i := -1),
                  em_lastAccessTime := (em_lastAccessTime m)(i := -1000),
                  em_connectTokenEntryIndex := (em_connectTokenEntryIndex m)(i := -1),
                  em_address := (em_address m)(i := zeroAddress),
                  em_sendKey := (em_sendKey m)(i := replicate KeyBytes 0),
                  em_receiveKey := (em_receiveKey m)(i := replicate KeyBytes 0)\<rparr>"
  have inv1: "em_inv m1" using assms by (simp add: em_inv_def m1_def)
  show thesis
  proof (cases "i + 1 = numEncryptionMappings m")
    case last: True
    define m2 n where "m2 = fst (reclaim m1 time i)" and "n = snd (reclaim m1 time i)"
    note R = reclaim_spec[of m1 time i, folded m2_def n_def]
    from R obtain A where A: "m2 = m1\<lparr>em_address := A\<rparr>" by blast
    have addr: "em_address m2 j = (if n \<le> j \<and> j < i then (em_address m1 j)\<lparr>Type := 0\<rparr> else em_address m1 j)" for j
      using R by blast
    have eq: "removeEncryptionMapping m a time = (True, m2\<lparr>numEncryptionMappings := n\<rparr>)"
      using False last by (simp add: removeEncryptionMapping_def Let_def i_def[symmetric] m1_def[symmetric]
          m2_def n_def split_beta) (simp add: m1_def)
    have hi: "Type (em_address m2 j) = 0" if "n \<le> j" for j
    proof (cases "j < i")
      case True
      with that show ?thesis by (simp add: addr)
    next
      case ge: False
      with assms last show ?thesis by (cases "j = i") (auto simp: addr m1_def em_inv_def)
    qed
    have n: "n \<le> 1024" using R assms i(1) by (auto simp: em_inv_def)
    show thesis
    proof (rule removed[OF eq i])
      show "em_inv (m2\<lparr>numEncryptionMappings := n\<rparr>)"
        using hi n inv1 by (simp add: em_inv_def A)
      show "em_address (m2\<lparr>numEncryptionMappings := n\<rparr>) i = zeroAddress"
        using addr[of i] by (simp add: m1_def)
      fix j assume j: "j \<noteq> i"
      show "em_address (m2\<lparr>numEncryptionMappings := n\<rparr>) j = em_address m j \<or>
          em_clientIndex m j = -1 \<and> Type (em_address (m2\<lparr>numEncryptionMappings := n\<rparr>) j) = 0"
        using R j addr[of j] by (auto simp: m1_def)
    qed (simp_all add: A m1_def)
  next
    case inner: False
    have eq: "removeEncryptionMapping m a time = (True, m1)"
      using False inner by (simp add: removeEncryptionMapping_def Let_def i_def[symmetric] m1_def[symmetric])
        (simp add: m1_def)
    show thesis
      by (rule removed[OF eq i]) (simp_all add: inv1, simp_all add: m1_def)
  qed
qed

subsection \<open>The contract of the key table\<close>

locale key_table =
  fixes lookup :: "'m \<Rightarrow> Address \<Rightarrow> float64 \<Rightarrow> (byte list \<times> byte list) option"
    and add :: "'m \<Rightarrow> Address \<Rightarrow> byte list \<Rightarrow> byte list \<Rightarrow> float64 \<Rightarrow> float64 \<Rightarrow> i32 \<Rightarrow> int \<Rightarrow> bool \<times> 'm"
    and ok :: "'m \<Rightarrow> bool"
  assumes add_ok: "\<And>m a sk rk t ex tmo k. ok m \<Longrightarrow> length sk = 32 \<Longrightarrow> length rk = 32 \<Longrightarrow>
      ok (snd (add m a sk rk t ex tmo k))"
    and add_found: "\<And>m a sk rk t ex tmo k. ok m \<Longrightarrow> length sk = 32 \<Longrightarrow> length rk = 32 \<Longrightarrow> Equal a a \<Longrightarrow>
      \<not> (0 \<le> ex \<and> ex < t) \<Longrightarrow> fst (add m a sk rk t ex tmo k) \<Longrightarrow>
      lookup (snd (add m a sk rk t ex tmo k)) a t = Some (sk, rk)"
    and add_other: "\<And>m a b sk rk t ex tmo k. ok m \<Longrightarrow> length sk = 32 \<Longrightarrow> length rk = 32 \<Longrightarrow> \<not> Equal b a \<Longrightarrow>
      lookup (snd (add m a sk rk t ex tmo k)) b t = lookup m b t"
begin

text \<open>A batch of mappings added at one time, stopping at the first that does not fit.\<close>

fun add_all :: "'m \<Rightarrow> float64 \<Rightarrow> float64 \<Rightarrow> i32 \<Rightarrow> (Address \<times> byte list \<times> byte list \<times> int) list \<Rightarrow> bool \<times> 'm" where
  "add_all m t ex tmo [] = (True, m)"
| "add_all m t ex tmo ((a, sk, rk, k) # xs) =
     (let (b, m') = add m a sk rk t ex tmo k in if b then add_all m' t ex tmo xs else (False, m'))"

lemma add_all_other:
  assumes "ok m" and "\<forall>(a, sk, rk, k) \<in> set xs. length sk = 32 \<and> length rk = 32 \<and> \<not> Equal b a"
  shows "lookup (snd (add_all m t ex tmo xs)) b t = lookup m b t"
  using assms
proof (induction xs arbitrary: m)
  case Nil
  then show ?case by simp
next
  case (Cons x xs)
  obtain a sk rk k where x: "x = (a, sk, rk, k)" by (cases x)
  let ?m = "snd (add m a sk rk t ex tmo k)"
  have len: "length sk = 32" "length rk = 32" "\<not> Equal b a" using Cons.prems(2) by (auto simp: x)
  have "lookup (snd (add_all ?m t ex tmo xs)) b t = lookup ?m b t"
    by (rule Cons.IH) (use add_ok[OF Cons.prems(1) len(1,2)] Cons.prems(2) in auto)
  with add_other[OF Cons.prems(1) len] show ?case
    by (auto simp: x split_beta)
qed

lemma add_all_found:
  assumes "ok m" and "\<forall>(a, sk, rk, k) \<in> set xs. length sk = 32 \<and> length rk = 32 \<and> Equal a a"
    and "sorted_wrt (\<lambda>x y. \<not> Equal (fst x) (fst y)) xs" and "\<not> (0 \<le> ex \<and> ex < t)"
    and "fst (add_all m t ex tmo xs)" and "(a, sk, rk, k) \<in> set xs"
  shows "lookup (snd (add_all m t ex tmo xs)) a t = Some (sk, rk)"
  using assms
proof (induction xs arbitrary: m)
  case Nil
  then show ?case by simp
next
  case (Cons x xs)
  obtain a' sk' rk' k' where x: "x = (a', sk', rk', k')" by (cases x)
  let ?r = "add m a' sk' rk' t ex tmo k'"
  have len: "length sk' = 32" "length rk' = 32" "Equal a' a'" using Cons.prems(2) by (auto simp: x)
  have added: "fst ?r" and all: "add_all m t ex tmo (x # xs) = add_all (snd ?r) t ex tmo xs"
    using Cons.prems(5) by (auto simp: x split_beta split: if_splits)
  have ok': "ok (snd ?r)" by (rule add_ok[OF Cons.prems(1) len(1,2)])
  show ?case
  proof (cases "(a, sk, rk, k) \<in> set xs")
    case True
    have "lookup (snd (add_all (snd ?r) t ex tmo xs)) a t = Some (sk, rk)"
      by (rule Cons.IH[OF ok' _ _ Cons.prems(4) _ True]) (use Cons.prems(2,3,5) all in auto)
    then show ?thesis by (simp only: all)
  next
    case False
    then have here: "(a, sk, rk, k) = x" using Cons.prems(6) by auto
    have "lookup (snd (add_all (snd ?r) t ex tmo xs)) a' t = lookup (snd ?r) a' t"
      by (rule add_all_other[OF ok']) (use Cons.prems(2,3) in \<open>auto simp: x\<close>)
    with add_found[OF Cons.prems(1) len Cons.prems(4) added] here x show ?thesis
      unfolding all by simp
  qed
qed

end

definition em_lookup :: "encryptionManager \<Rightarrow> Address \<Rightarrow> float64 \<Rightarrow> (byte list \<times> byte list) option" where
  "em_lookup m a t =
     (let i = fst (findEncryptionMapping m a t) in
      if i = -1 then None else Some (em_sendKey m (nat i), em_receiveKey m (nat i)))"

lemma expired_cong:
  "em_timeout m' j = em_timeout m j \<Longrightarrow> em_expireTime m' j = em_expireTime m j \<Longrightarrow>
    em_lastAccessTime m' j = em_lastAccessTime m j \<Longrightarrow> entryExpired m' j t = entryExpired m j t"
  by (simp add: entryExpired_def)

lemma touched_not_expired:
  assumes "em_lastAccessTime m i = t" and "\<not> (0 \<le> em_expireTime m i \<and> em_expireTime m i < t)"
  shows "\<not> entryExpired m i t"
proof -
  have "\<not> t + of_int s < t" if "0 < s" for s :: int
    using that by (simp add: not_less)
  with assms show ?thesis unfolding entryExpired_def by metis
qed

lemma add_finds_slot:
  assumes "em_inv m" and "length sk = 32" and "length rk = 32" and "Equal a a" and "\<not> (0 \<le> ex \<and> ex < t)"
    and "addEncryptionMapping m a sk rk t ex tmo k = (True, m')"
  shows "\<exists>i<1024. fst (findEncryptionMapping m' a t) = int i \<and> Equal (em_address m' i) a \<and>
    em_sendKey m' i = sk \<and> em_receiveKey m' i = rk \<and> em_timeout m' i = tmo \<and>
    em_connectTokenEntryIndex m' i = k \<and> em_expireTime m' i = ex \<and> em_clientIndex m' i = em_clientIndex m i"
proof (rule add_cases[OF assms(1-3), of a t ex tmo k])
  fix i fresh n
  assume n: "addEncryptionMapping m a sk rk t ex tmo k = (True, n)" "add_slot m a t i fresh"
      "\<forall>j<numEncryptionMappings m. (fresh \<or> j < i) \<and> Equal (em_address m j) a \<longrightarrow> entryExpired m j t"
      "em_address n = (if fresh then (em_address m)(i := a) else em_address m)"
      "numEncryptionMappings n = max (numEncryptionMappings m) (if fresh then i + 1 else 0)"
      "em_timeout n = (em_timeout m)(i := tmo)" "em_expireTime n = (em_expireTime m)(i := ex)"
      "em_lastAccessTime n = (em_lastAccessTime m)(i := t)" "em_clientIndex n = em_clientIndex m"
      "em_connectTokenEntryIndex n = (em_connectTokenEntryIndex m)(i := k)"
      "em_sendKey n = (em_sendKey m)(i := sk)" "em_receiveKey n = (em_receiveKey m)(i := rk)"
  have m': "m' = n" using n(1) assms(6) by simp
  have "\<not> entryExpired n i t"
    by (rule touched_not_expired) (use n(7,8) assms(5) in simp_all)
  then have here: "Equal (em_address n i) a" "i < numEncryptionMappings n" "\<not> entryExpired n i t" "i < 1024"
    using n(2,4,5) assms(4) by (auto simp: add_slot_def split: if_splits)
  have before: "\<not> (Equal (em_address n j) a \<and> \<not> entryExpired n j t)" if "j < i" for j
  proof
    assume j: "Equal (em_address n j) a \<and> \<not> entryExpired n j t"
    with that n(4) have eq: "Equal (em_address m j) a" by (simp split: if_splits)
    with em_inv_Equal[OF assms(1) eq] n(3) that have "entryExpired m j t" by auto
    moreover have "entryExpired n j t = entryExpired m j t"
      by (rule expired_cong) (use that n in auto)
    ultimately show False using j by simp
  qed
  have "find_index (\<lambda>j. Equal (em_address n j) a \<and> \<not> entryExpired n j t) (numEncryptionMappings n) = int i"
    by (rule find_index_eq) (use here before in auto)
  then have "fst (findEncryptionMapping n a t) = int i" by (simp add: findEncryptionMapping_def)
  with here n(6-) show ?thesis by (intro exI[of _ i]) (simp add: m')
qed (use assms(6) in simp)

lemma add_keeps_others:
  assumes "em_inv m" and "length sk = 32" and "length rk = 32" and "\<not> Equal b a"
  shows "em_lookup (snd (addEncryptionMapping m a sk rk t ex tmo k)) b t = em_lookup m b t"
proof (rule add_cases[OF assms(1-3), of a t ex tmo k])
  fix i fresh n
  assume n: "addEncryptionMapping m a sk rk t ex tmo k = (True, n)" "add_slot m a t i fresh"
      "em_address n = (if fresh then (em_address m)(i := a) else em_address m)"
      "numEncryptionMappings n = max (numEncryptionMappings m) (if fresh then i + 1 else 0)"
      "em_timeout n = (em_timeout m)(i := tmo)" "em_expireTime n = (em_expireTime m)(i := ex)"
      "em_lastAccessTime n = (em_lastAccessTime m)(i := t)"
      "em_sendKey n = (em_sendKey m)(i := sk)" "em_receiveKey n = (em_receiveKey m)(i := rk)"
  let ?P = "\<lambda>m j. Equal (em_address m j) b \<and> \<not> entryExpired m j t"
  have nb: "\<not> Equal a b" using assms(4) Equal_sym by blast
  have other: "?P n j = ?P m j" if "j \<noteq> i" for j
    using that n expired_cong[of n j m t] by simp
  have at_i: "\<not> ?P n i" "\<not> ?P m i"
  proof -
    show "\<not> ?P n i"
      using n(2,3) nb assms(4) Equal_trans[of a "em_address m i" b] Equal_sym by (auto simp: add_slot_def split: if_splits)
    show "\<not> ?P m i"
      using n(2) nb Equal_trans[of a "em_address m i" b] Equal_sym[of "em_address m i" a]
        Equal_Type[of "em_address m i" b] by (auto simp: add_slot_def split: if_splits)
  qed
  have P: "?P n = ?P m" using other at_i by (intro ext) metis
  have beyond: "\<not> ?P m j" if "numEncryptionMappings m \<le> j" for j
    using em_inv_Equal[OF assms(1), of j b] that by auto
  have le: "numEncryptionMappings m \<le> numEncryptionMappings n" using n(4) by simp
  have "find_index (?P m) (numEncryptionMappings m + d) = find_index (?P m) (numEncryptionMappings m)" for d
    using beyond by (induction d) (auto simp: find_index_Suc)
  from this[of "numEncryptionMappings n - numEncryptionMappings m"] le
  have idx: "find_index (?P m) (numEncryptionMappings n) = find_index (?P m) (numEncryptionMappings m)" by simp
  have "em_sendKey n (nat (find_index (?P m) (numEncryptionMappings m))) =
        em_sendKey m (nat (find_index (?P m) (numEncryptionMappings m))) \<and>
      em_receiveKey n (nat (find_index (?P m) (numEncryptionMappings m))) =
        em_receiveKey m (nat (find_index (?P m) (numEncryptionMappings m)))"
    if "find_index (?P m) (numEncryptionMappings m) \<noteq> -1"
  proof -
    from find_index_Some[OF refl that] at_i(2) have "nat (find_index (?P m) (numEncryptionMappings m)) \<noteq> i" by metis
    with n(8,9) show ?thesis by simp
  qed
  then show ?thesis
    unfolding em_lookup_def findEncryptionMapping_def Let_def n(1) snd_conv P idx by simp
qed simp

interpretation keys: key_table em_lookup addEncryptionMapping em_inv
proof unfold_locales
  fix m a t ex tmo k and sk rk :: "byte list"
  assume "em_inv m" "length sk = 32" "length rk = 32"
  then show "em_inv (snd (addEncryptionMapping m a sk rk t ex tmo k))" by (rule em_inv_add)
next
  fix m a t ex tmo k and sk rk :: "byte list"
  assume *: "em_inv m" "length sk = 32" "length rk = 32" "Equal a a" "\<not> (0 \<le> ex \<and> ex < t)"
    "fst (addEncryptionMapping m a sk rk t ex tmo k)"
  obtain m' where m': "addEncryptionMapping m a sk rk t ex tmo k = (True, m')"
    using *(6) by (metis prod.collapse)
  from add_finds_slot[OF *(1-5) m'] m'
  show "em_lookup (snd (addEncryptionMapping m a sk rk t ex tmo k)) a t = Some (sk, rk)"
    by (auto simp: em_lookup_def)
next
  fix m a b t ex tmo k and sk rk :: "byte list"
  assume "em_inv m" "length sk = 32" "length rk = 32" "\<not> Equal b a"
  then show "em_lookup (snd (addEncryptionMapping m a sk rk t ex tmo k)) b t = em_lookup m b t"
    by (rule add_keeps_others)
qed
subsection \<open>Properties\<close>

text \<open>The zero value of the struct, as it is before \<open>reset\<close>.\<close>

definition zeroEncryptionManager :: encryptionManager where
  "zeroEncryptionManager =
     \<lparr>numEncryptionMappings = 0, em_timeout = (\<lambda>_. 0), em_expireTime = (\<lambda>_. 0), em_lastAccessTime = (\<lambda>_. 0),
      em_address = (\<lambda>_. zeroAddress), em_clientIndex = (\<lambda>_. 0), em_connectTokenEntryIndex = (\<lambda>_. 0),
      em_sendKey = (\<lambda>_. replicate KeyBytes 0), em_receiveKey = (\<lambda>_. replicate KeyBytes 0)\<rparr>"

text \<open>
  A mapping that was added is found with its keys, timeout and connect token entry, unless its
  expire time has already passed, and adding it changes no other address's live mapping.
\<close>

theorem encryption_mapping_found:
  assumes "em_inv m" and "length sendKey = KeyBytes" and "length receiveKey = KeyBytes"
    and "Type a = AddressIPv4 \<or> Type a = AddressIPv6" and "expireTime < 0 \<or> time \<le> expireTime"
    and "addEncryptionMapping m a sendKey receiveKey time expireTime timeout entry = (True, m')"
  shows "(\<exists>i m''. findEncryptionMapping m' a time = (i, m'') \<and>
      getSendKey m'' i = Some (Some sendKey) \<and> getReceiveKey m'' i = Some (Some receiveKey) \<and>
      getTimeout m'' i = Some timeout \<and> getConnectTokenEntryIndex m'' i = Some entry) \<and>
    (\<forall>b. \<not> Equal b a \<longrightarrow> em_lookup m' b time = em_lookup m b time)"
proof (intro conjI allI impI)
  have len: "length sendKey = 32" "length receiveKey = 32" using assms(2,3) by simp_all
  have "Equal a a" using assms(4) by (auto simp: Equal_def)
  then obtain i where i: "i < 1024" "fst (findEncryptionMapping m' a time) = int i" "em_sendKey m' i = sendKey"
    "em_receiveKey m' i = receiveKey" "em_timeout m' i = timeout" "em_connectTokenEntryIndex m' i = entry"
    using add_finds_slot[OF assms(1) len _ _ assms(6)] assms(5) by auto
  then show "\<exists>i m''. findEncryptionMapping m' a time = (i, m'') \<and>
      getSendKey m'' i = Some (Some sendKey) \<and> getReceiveKey m'' i = Some (Some receiveKey) \<and>
      getTimeout m'' i = Some timeout \<and> getConnectTokenEntryIndex m'' i = Some entry"
    by (auto simp: findEncryptionMapping_def getSendKey_def getReceiveKey_def getTimeout_def
        getConnectTokenEntryIndex_def Let_def split: if_splits)
  show "em_lookup m' b time = em_lookup m b time" if "\<not> Equal b a" for b
    using keys.add_other[OF assms(1) len that, of time expireTime timeout entry] assms(6) by simp
qed

theorem encryption_mapping_found_witness:
  "let m = encryptionManager_reset zeroEncryptionManager;
       a = \<lparr>Type = AddressIPv4, IPv4 = [10, 0, 0, 1], IPv6 = replicate 8 0, Port = 5000\<rparr>;
       m' = snd (addEncryptionMapping m a (replicate 32 1) (replicate 32 2) 5 10 7 3) in
   (\<exists>i m''. findEncryptionMapping m' a 5 = (i, m'') \<and>
      getSendKey m'' i = Some (Some (replicate 32 1)) \<and> getReceiveKey m'' i = Some (Some (replicate 32 2)) \<and>
      getTimeout m'' i = Some 7 \<and> getConnectTokenEntryIndex m'' i = Some 3) \<and>
   em_lookup m' (a\<lparr>Port := 1\<rparr>) 5 = em_lookup m (a\<lparr>Port := 1\<rparr>) 5"
proof -
  let ?m = "encryptionManager_reset zeroEncryptionManager"
  let ?a = "\<lparr>Type = AddressIPv4, IPv4 = [10, 0, 0, 1], IPv6 = replicate 8 0, Port = 5000\<rparr>"
  have "find_index (\<lambda>i. Type (em_address ?m i) = AddressNone \<or>
      (entryExpired ?m i 5 \<and> em_clientIndex ?m i = -1)) 1024 = int 0"
    by (rule find_index_eq) (simp_all add: encryptionManager_reset_def)
  then have "fst (addEncryptionMapping ?m ?a (replicate 32 1) (replicate 32 2) 5 10 7 3)"
    by (simp add: addEncryptionMapping_def Let_def)
  then have "addEncryptionMapping ?m ?a (replicate 32 1) (replicate 32 2) 5 10 7 3 =
      (True, snd (addEncryptionMapping ?m ?a (replicate 32 1) (replicate 32 2) 5 10 7 3))"
    by (metis prod.collapse)
  note found = encryption_mapping_found[OF em_inv_reset _ _ _ _ this]
  have "\<not> Equal (?a\<lparr>Port := 1\<rparr>) ?a" by (simp add: Equal_def)
  with found show ?thesis by (simp add: Let_def)
qed

text \<open>
  The slot of a connected client is never given away. A slot that carries a client index keeps
  its address and its keys through adding and removing mappings of any other address, so the packets
  of a connected client are always decrypted with the client's own keys.
\<close>

theorem client_slot_kept:
  assumes "em_inv m" and "em_clientIndex m j \<noteq> -1" and "Type (em_address m j) \<noteq> AddressNone"
    and "\<not> Equal (em_address m j) a"
    and "length sendKey = KeyBytes" and "length receiveKey = KeyBytes"
    and "m' = snd (addEncryptionMapping m a sendKey receiveKey time expireTime timeout entry) \<or>
      m' = snd (removeEncryptionMapping m a time)"
  shows "em_address m' j = em_address m j \<and> em_sendKey m' j = em_sendKey m j \<and>
    em_receiveKey m' j = em_receiveKey m j \<and> em_clientIndex m' j = em_clientIndex m j"
  using assms(7)
proof
  have len: "length sendKey = 32" "length receiveKey = 32" using assms(5,6) by simp_all
  assume m': "m' = snd (addEncryptionMapping m a sendKey receiveKey time expireTime timeout entry)"
  show ?thesis
  proof (rule add_cases[OF assms(1) len, of a time expireTime timeout entry])
    fix i fresh n
    assume n: "addEncryptionMapping m a sendKey receiveKey time expireTime timeout entry = (True, n)"
      "add_slot m a time i fresh"
      "em_address n = (if fresh then (em_address m)(i := a) else em_address m)" "em_clientIndex n = em_clientIndex m"
      "em_sendKey n = (em_sendKey m)(i := sendKey)" "em_receiveKey n = (em_receiveKey m)(i := receiveKey)"
    have "j \<noteq> i" using n(2) assms(2-4) by (auto simp: add_slot_def split: if_splits)
    with n m' show ?thesis by simp
  qed (use m' in simp)
next
  assume m': "m' = snd (removeEncryptionMapping m a time)"
  show ?thesis
  proof (rule remove_cases[OF assms(1), of a time])
    fix i n
    assume n: "removeEncryptionMapping m a time = (True, n)" "Equal (em_address m i) a"
      "em_clientIndex n = em_clientIndex m"
      "\<And>j. j \<noteq> i \<Longrightarrow> em_address n j = em_address m j \<or> em_clientIndex m j = -1 \<and> Type (em_address n j) = 0"
      "\<And>j. j \<noteq> i \<Longrightarrow> em_sendKey n j = em_sendKey m j \<and> em_receiveKey n j = em_receiveKey m j"
    have "j \<noteq> i" using n(2) assms(4) by auto
    with n m' assms(2) show ?thesis by auto
  qed (use m' in simp)
qed

text \<open>A table whose first slot belongs to client 0 at 10.0.0.1:5000.\<close>

definition sample_table :: encryptionManager where
  "sample_table = (encryptionManager_reset zeroEncryptionManager)
     \<lparr>numEncryptionMappings := 1,
      em_address := (\<lambda>_. zeroAddress)(0 := \<lparr>Type = AddressIPv4, IPv4 = [10, 0, 0, 1], IPv6 = replicate 8 0, Port = 5000\<rparr>),
      em_clientIndex := (\<lambda>_. -1)(0 := 0)\<rparr>"

theorem client_slot_kept_witness:
  "let b = \<lparr>Type = AddressIPv4, IPv4 = [10, 0, 0, 2], IPv6 = replicate 8 0, Port = 5000\<rparr>;
       m' = snd (addEncryptionMapping sample_table b (replicate 32 1) (replicate 32 2) 5 10 7 3) in
   em_address m' 0 = em_address sample_table 0 \<and> em_sendKey m' 0 = em_sendKey sample_table 0 \<and>
    em_receiveKey m' 0 = em_receiveKey sample_table 0 \<and> em_clientIndex m' 0 = em_clientIndex sample_table 0"
proof -
  have "em_inv sample_table"
    by (simp add: em_inv_def sample_table_def encryptionManager_reset_def)
  from client_slot_kept[OF this _ _ _ _ _ disjI1[OF refl], of 0
      "\<lparr>Type = AddressIPv4, IPv4 = [10, 0, 0, 2], IPv6 = replicate 8 0, Port = 5000\<rparr>" "replicate 32 1"
      "replicate 32 2" 5 10 7 3]
  show ?thesis by (simp add: Let_def) (simp add: sample_table_def Equal_def)
qed

end
