(* ===== verification/Transport.thy ===== *)
theory Transport
  imports Netcode_Package Address
begin

text \<open>
  \<^verbatim>\<open>sendPacketToAddress\<close> of \<^verbatim>\<open>socket.go\<close>, shared by client and server, and the log of what leaves
  a client or a server: packets handed to the simulator, the send override or a socket, and calls of
  the application's callbacks. Callbacks are recorded, and do not call back into the library.
\<close>

datatype event =
    SimulatorSend Address Address "byte list"
  | OverrideSend Address "byte list"
  | SocketSendIPv4 Address "byte list"
  | SocketSendIPv6 Address "byte list"
  | ConnectDisconnectEvent int bool
  | LoopbackPacketEvent int "byte list" u64
  | StateChangeEvent int int

text \<open>
  The UDP connections made so far: the handle of a connection is its position, and the value there
  tells whether it is still open. Opening a connection gives the next handle.
\<close>

type_synonym conn_table = "bool list"

definition open_conns :: "conn_table \<Rightarrow> nat set" where
  "open_conns conns = {i. i < length conns \<and> conns ! i}"

definition UDPConn_Close :: "nat \<Rightarrow> conn_table \<Rightarrow> conn_table" where
  "UDPConn_Close conn conns = conns[conn := False]"

lemma open_conns_opened [simp]: "open_conns (conns @ [True]) = insert (length conns) (open_conns conns)"
  by (auto simp: open_conns_def nth_append less_Suc_eq)

lemma open_conns_closed [simp]:
  "open_conns (conns @ [False]) = open_conns conns" "open_conns (UDPConn_Close conn conns) = open_conns conns - {conn}"
  by (auto simp: open_conns_def UDPConn_Close_def nth_append less_Suc_eq) (metis nth_list_update_eq nth_list_update_neq)+

lemma open_conns_less: "conn \<in> open_conns conns \<Longrightarrow> conn < length conns"
  by (simp add: open_conns_def)

text \<open>
  A socket: the address it is bound to, the handle of its connection, and whether the connection is
  still open. The code keeps pointers to sockets; \<open>None\<close> is nil. Closing keeps the pointer: a closed
  socket still has its address but sends nothing, because a write to a closed connection fails and
  errors are ignored.
\<close>

record socket =
  sk_address :: Address
  sk_conn :: nat
  sk_open :: bool

text \<open>What \<open>destroy\<close> does to the socket, and to the connections.\<close>

definition socket_destroy :: "socket option \<Rightarrow> socket option" where
  "socket_destroy s = map_option (\<lambda>k. k\<lparr>sk_open := False\<rparr>) s"

definition destroy_conn :: "socket option \<Rightarrow> conn_table \<Rightarrow> conn_table" where
  "destroy_conn s conns = (case s of None \<Rightarrow> conns | Some k \<Rightarrow> UDPConn_Close (sk_conn k) conns)"

definition socket_sends :: "socket option \<Rightarrow> bool" where
  "socket_sends s \<longleftrightarrow> (case s of None \<Rightarrow> False | Some k \<Rightarrow> sk_open k)"

text \<open>
  The booleans tell whether the simulator or the override is set and whether the socket is there
  and open.
\<close>

definition sendPacketToAddress ::
  "bool \<Rightarrow> bool \<Rightarrow> bool \<Rightarrow> bool \<Rightarrow> Address \<Rightarrow> Address \<Rightarrow> byte list \<Rightarrow> event list \<Rightarrow> event list" where
  "sendPacketToAddress networkSimulator sendPacketOverride ipv4 ipv6 from to packetData events =
     (if networkSimulator then events @ [SimulatorSend from to packetData]
      else if sendPacketOverride then events @ [OverrideSend to packetData]
      else if Type to = AddressIPv4 \<and> ipv4 then events @ [SocketSendIPv4 to packetData]
      else if Type to = AddressIPv6 \<and> ipv6 then events @ [SocketSendIPv6 to packetData]
      else events)"

text \<open>The packets of a log, with their destinations, and the packets in order.\<close>

fun event_packet :: "event \<Rightarrow> (Address \<times> byte list) option" where
  "event_packet (SimulatorSend _ to packetData) = Some (to, packetData)"
| "event_packet (OverrideSend to packetData) = Some (to, packetData)"
| "event_packet (SocketSendIPv4 to packetData) = Some (to, packetData)"
| "event_packet (SocketSendIPv6 to packetData) = Some (to, packetData)"
| "event_packet _ = None"

definition sent_packets :: "event list \<Rightarrow> (Address \<times> byte list) list" where
  "sent_packets events = List.map_filter event_packet events"

lemma sent_packets_Nil [simp]: "sent_packets [] = []"
  by (simp add: sent_packets_def List.map_filter_def)

lemma sent_packets_append [simp]: "sent_packets (xs @ ys) = sent_packets xs @ sent_packets ys"
  by (simp add: sent_packets_def List.map_filter_def)

lemma sendPacketToAddress_log:
  "\<exists>new. sendPacketToAddress sim ovr v4 v6 from to d events = events @ new \<and>
     (sent_packets new = [(to, d)] \<or> new = [])"
  by (simp add: sendPacketToAddress_def sent_packets_def List.map_filter_def)

lemma sendPacketToAddress_events:
  "sendPacketToAddress sim ovr v4 v6 from to d E = E @ sendPacketToAddress sim ovr v4 v6 from to d []"
  by (simp add: sendPacketToAddress_def)

end
