(* ===== verification/Server.thy ===== *)
theory Server
  imports Packet Packet_Queue Token_Entries Encryption_Manager Transport
begin

text \<open>
  \<^verbatim>\<open>server.go\<close>: the state of a server and every operation that changes it. Readings of
  \<open>time.Now().Unix()\<close>, the random challenge key and the packets that arrive are arguments. The field
  \<open>srv_events\<close> logs what leaves the server. A callback is set or not (\<open>bool\<close>).
\<close>

definition serverFlagIgnoreConnectionRequestPackets :: u32 where
  [simp]: "serverFlagIgnoreConnectionRequestPackets = 1"
definition serverFlagIgnoreConnectionResponsePackets :: u32 where
  [simp]: "serverFlagIgnoreConnectionResponsePackets = 2"
definition DefaultMaxConnectTokenLifetime :: int where [simp]: "DefaultMaxConnectTokenLifetime = 30"
definition serverMaxReceivePackets :: nat where [simp]: "serverMaxReceivePackets = 64 * MaxClients"

record ServerConfig =
  ProtocolID :: u64
  PrivateKey :: "byte list"
  MaxConnectTokenLifetime :: int
  NetworkSimulator :: bool
  ConnectDisconnectCallback :: bool
  SendLoopbackPacketCallback :: bool
  OverrideSendAndReceive :: bool
  SendPacketOverride :: bool
  ReceivePacketOverride :: bool

type_synonym payload_queue = "byte list packetQueue"

record Server =
  srv_config :: ServerConfig
  socketIPv4 :: "socket option"
  socketIPv6 :: "socket option"
  srv_address :: Address
  srv_address2 :: Address
  srv_flags :: u32
  srv_time :: float64
  running :: bool
  maxClients :: int
  numConnectedClients :: int
  globalSequence :: u64
  challengeSequence :: u64
  challengeKey :: "byte list"
  clientConnected :: "bool arr"
  clientTimeout :: "i32 arr"
  clientLoopback :: "bool arr"
  clientConfirmed :: "bool arr"
  clientDisconnectReason :: "int arr"
  clientEncryptionIndex :: "int arr"
  clientID :: "u64 arr"
  clientSequence :: "u64 arr"
  clientLastPacketSendTime :: "float64 arr"
  clientLastPacketReceiveTime :: "float64 arr"
  clientUserData :: "byte list arr"
  clientReplayProtection :: "replayProtection arr"
  clientPacketQueue :: "payload_queue arr"
  clientAddress :: "Address arr"
  connectTokenEntries :: token_entries
  srv_encryption :: encryptionManager
  minConnectTokenExpireTimestamp :: u64
  srv_events :: "event list"

subsection \<open>Creation\<close>

definition normalize_config :: "ServerConfig \<Rightarrow> ServerConfig" where
  "normalize_config config =
     (if MaxConnectTokenLifetime config \<le> 0
      then config\<lparr>MaxConnectTokenLifetime := DefaultMaxConnectTokenLifetime\<rparr> else config)"

definition zeroReplayProtection :: replayProtection where
  "zeroReplayProtection = \<lparr>mostRecentSequence = 0, receivedPacket = (\<lambda>_. 0)\<rparr>"

text \<open>The struct \<open>NewServerDual\<close> builds once the addresses are parsed and the sockets are open.\<close>

definition new_server ::
  "ServerConfig \<Rightarrow> Address \<Rightarrow> Address \<Rightarrow> float64 \<Rightarrow> socket option \<Rightarrow> socket option \<Rightarrow> Server" where
  "new_server config serverAddress1 serverAddress2 time ipv4 ipv6 =
     \<lparr>srv_config = normalize_config config, socketIPv4 = ipv4, socketIPv6 = ipv6,
      srv_address = serverAddress1, srv_address2 = serverAddress2, srv_flags = 0, srv_time = time,
      running = False, maxClients = 0, numConnectedClients = 0,
      globalSequence = push_bit 63 1, challengeSequence = 0, challengeKey = replicate KeyBytes 0,
      clientConnected = (\<lambda>_. False), clientTimeout = (\<lambda>_. 0), clientLoopback = (\<lambda>_. False),
      clientConfirmed = (\<lambda>_. False), clientDisconnectReason = (\<lambda>_. 0),
      clientEncryptionIndex = (\<lambda>_. -1), clientID = (\<lambda>_. 0), clientSequence = (\<lambda>_. 0),
      clientLastPacketSendTime = (\<lambda>_. 0), clientLastPacketReceiveTime = (\<lambda>_. 0),
      clientUserData = (\<lambda>_. replicate UserDataBytes 0),
      clientReplayProtection = (\<lambda>_. replay_reset zeroReplayProtection),
      clientPacketQueue = (\<lambda>_. new_packetQueue), clientAddress = (\<lambda>_. zeroAddress),
      connectTokenEntries = initial_entries,
      srv_encryption = encryptionManager_reset zeroEncryptionManager,
      minConnectTokenExpireTimestamp = 0, srv_events = []\<rparr>"

subsection \<open>Sending\<close>

text \<open>The tail the two send paths share: \<open>packetData[:packetBytes]\<close> goes to the transport.\<close>

definition server_transmit :: "Address \<Rightarrow> nat \<Rightarrow> byte list \<Rightarrow> Server \<Rightarrow> Server option" where
  "server_transmit to packetBytes packetData server =
     (if packetBytes > length packetData then None
      else Some (server\<lparr>srv_events :=
        sendPacketToAddress (NetworkSimulator (srv_config server))
          (OverrideSendAndReceive (srv_config server) \<and> SendPacketOverride (srv_config server))
          (socket_sends (socketIPv4 server)) (socket_sends (socketIPv6 server)) (srv_address server) to (take packetBytes packetData)
          (srv_events server)\<rparr>))"

definition sendGlobalPacket :: "crypto \<Rightarrow> packet \<Rightarrow> Address \<Rightarrow> byte list \<Rightarrow> Server \<Rightarrow> Server option" where
  "sendGlobalPacket C p to packetKey server = do {
     (packetBytes, packetData) \<leftarrow> writePacket C p (replicate maxPacketBytes 0) (globalSequence server) packetKey
                                   (ProtocolID (srv_config server));
     if packetBytes = 0 then Some server
     else do {
       server \<leftarrow> server_transmit to packetBytes packetData server;
       Some (server\<lparr>globalSequence := globalSequence server + 1\<rparr>) } }"

definition sendClientPacket :: "crypto \<Rightarrow> packet \<Rightarrow> int \<Rightarrow> Server \<Rightarrow> Server option" where
  "sendClientPacket C p clientIndex server = do {
     i \<leftarrow> idx MaxClients clientIndex;
     (ok, em) \<leftarrow> touch (srv_encryption server) (clientEncryptionIndex server i) (clientAddress server i) (srv_time server);
     if \<not> ok then Some server
     else do {
       let server = server\<lparr>srv_encryption := em\<rparr>;
       packetKey \<leftarrow> getSendKey em (clientEncryptionIndex server i);
       let packetKey = (case packetKey of None \<Rightarrow> [] | Some key \<Rightarrow> key);
       (packetBytes, packetData) \<leftarrow> writePacket C p (replicate maxPacketBytes 0) (clientSequence server i) packetKey
                                     (ProtocolID (srv_config server));
       if packetBytes = 0 then Some server
       else do {
         server \<leftarrow> server_transmit (clientAddress server i) packetBytes packetData server;
         Some (server\<lparr>clientSequence := (clientSequence server)(i := clientSequence server i + 1),
                      clientLastPacketSendTime := (clientLastPacketSendTime server)(i := srv_time server)\<rparr>) } } }"

definition notify :: "int \<Rightarrow> bool \<Rightarrow> Server \<Rightarrow> Server" where
  "notify clientIndex isConnected server =
     (if ConnectDisconnectCallback (srv_config server)
      then server\<lparr>srv_events := srv_events server @ [ConnectDisconnectEvent clientIndex isConnected]\<rparr> else server)"

subsection \<open>Slots\<close>

definition resetClientSlot :: "int \<Rightarrow> Server \<Rightarrow> Server option" where
  "resetClientSlot clientIndex server = do {
     i \<leftarrow> idx MaxClients clientIndex;
     Some (server\<lparr>clientPacketQueue := (clientPacketQueue server)(i := packetQueue_clear (clientPacketQueue server i)),
       clientConnected := (clientConnected server)(i := False),
       clientLoopback := (clientLoopback server)(i := False),
       clientConfirmed := (clientConfirmed server)(i := False),
       clientID := (clientID server)(i := 0),
       clientSequence := (clientSequence server)(i := 0),
       clientLastPacketSendTime := (clientLastPacketSendTime server)(i := 0),
       clientLastPacketReceiveTime := (clientLastPacketReceiveTime server)(i := 0),
       clientAddress := (clientAddress server)(i := zeroAddress),
       clientEncryptionIndex := (clientEncryptionIndex server)(i := -1),
       clientUserData := (clientUserData server)(i := replicate UserDataBytes 0),
       numConnectedClients := numConnectedClients server - 1\<rparr>) }"

definition disconnectClientInternal :: "crypto \<Rightarrow> int \<Rightarrow> bool \<Rightarrow> int \<Rightarrow> Server \<Rightarrow> Server option" where
  "disconnectClientInternal C clientIndex sendDisconnectPackets disconnectReason server = do {
     i \<leftarrow> idx MaxClients clientIndex;
     let server = server\<lparr>clientDisconnectReason := (clientDisconnectReason server)(i := disconnectReason)\<rparr>;
     let server = notify clientIndex False server;
     server \<leftarrow> (if sendDisconnectPackets
       then for_range (\<lambda>_ server. sendClientPacket C ConnectionDisconnect clientIndex server) 0 numDisconnectPackets server
       else Some server);
     let server = server\<lparr>clientReplayProtection :=
       (clientReplayProtection server)(i := replay_reset (clientReplayProtection server i))\<rparr>;
     e \<leftarrow> idx maxEncryptionMappings (clientEncryptionIndex server i);
     let em = (srv_encryption server)\<lparr>em_clientIndex := (em_clientIndex (srv_encryption server))(e := -1)\<rparr>;
     let server = server\<lparr>srv_encryption := snd (removeEncryptionMapping em (clientAddress server i) (srv_time server))\<rparr>;
     resetClientSlot clientIndex server }"

definition slot_in_range :: "int \<Rightarrow> Server \<Rightarrow> bool" where
  "slot_in_range clientIndex server \<longleftrightarrow> \<not> (clientIndex < 0 \<or> clientIndex \<ge> maxClients server)"

definition DisconnectClient :: "crypto \<Rightarrow> int \<Rightarrow> Server \<Rightarrow> Server option" where
  "DisconnectClient C clientIndex server =
     (if \<not> running server then Some server
      else if \<not> slot_in_range clientIndex server then Some server
      else do {
        i \<leftarrow> idx MaxClients clientIndex;
        if \<not> clientConnected server i then Some server
        else if clientLoopback server i then Some server
        else disconnectClientInternal C clientIndex True DisconnectReasonServerDisconnect server })"

definition DisconnectAllClients :: "crypto \<Rightarrow> Server \<Rightarrow> Server option" where
  "DisconnectAllClients C server =
     (if \<not> running server then Some server
      else for_range (\<lambda>n server. do {
          i \<leftarrow> idx MaxClients (int n);
          if clientConnected server i \<and> \<not> clientLoopback server i
          then disconnectClientInternal C (int n) True DisconnectReasonServerDisconnect server
          else Some server }) 0 (nat (maxClients server)) server)"

definition DisconnectLoopbackClient :: "int \<Rightarrow> Server \<Rightarrow> Server option" where
  "DisconnectLoopbackClient clientIndex server =
     (if \<not> running server then Some server
      else if \<not> slot_in_range clientIndex server then Some server
      else do {
        i \<leftarrow> idx MaxClients clientIndex;
        if \<not> clientConnected server i \<or> \<not> clientLoopback server i then Some server
        else do {
          let server = server\<lparr>clientDisconnectReason :=
            (clientDisconnectReason server)(i := DisconnectReasonServerDisconnect)\<rparr>;
          let server = notify clientIndex False server;
          resetClientSlot clientIndex server } })"

subsection \<open>Start and stop\<close>

definition Stop :: "crypto \<Rightarrow> Server \<Rightarrow> Server option" where
  "Stop C server =
     (if \<not> running server then Some server
      else do {
        server \<leftarrow> DisconnectAllClients C server;
        server \<leftarrow> for_range (\<lambda>n server. do {
            i \<leftarrow> idx MaxClients (int n);
            if clientConnected server i \<and> clientLoopback server i
            then DisconnectLoopbackClient (int n) server else Some server }) 0 (nat (maxClients server)) server;
        Some (server\<lparr>running := False, maxClients := 0, numConnectedClients := 0,
          globalSequence := push_bit 63 1, challengeSequence := 0, challengeKey := replicate KeyBytes 0,
          connectTokenEntries := connectTokenEntriesReset (connectTokenEntries server),
          srv_encryption := encryptionManager_reset (srv_encryption server)\<rparr>) })"

text \<open>\<open>now\<close> is the clock reading, \<open>randomKey\<close> what \<open>RandomBytes\<close> wrote to the challenge key.\<close>

definition Start :: "crypto \<Rightarrow> int \<Rightarrow> u64 \<Rightarrow> byte list \<Rightarrow> Server \<Rightarrow> Server option" where
  "Start C slots now randomKey server =
     (if slots \<le> 0 \<or> slots > int MaxClients then Some server
      else do {
        server \<leftarrow> (if running server then Stop C server else Some server);
        Some (server\<lparr>running := True, maxClients := slots, numConnectedClients := 0,
          globalSequence := push_bit 63 1, challengeSequence := 0, challengeKey := randomKey,
          minConnectTokenExpireTimestamp := now + of_int (MaxConnectTokenLifetime (srv_config server)),
          clientPacketQueue := (\<lambda>i. if int i < slots then packetQueue_clear (clientPacketQueue server i)
                                    else clientPacketQueue server i),
          clientDisconnectReason := (\<lambda>i. if i < MaxClients then DisconnectReasonNone
                                         else clientDisconnectReason server i)\<rparr>) })"

definition server_Close :: "crypto \<Rightarrow> Server \<Rightarrow> Server option" where
  "server_Close C server = do {
     server \<leftarrow> Stop C server;
     Some (server\<lparr>socketIPv4 := socket_destroy (socketIPv4 server), socketIPv6 := socket_destroy (socketIPv6 server)\<rparr>) }"

subsection \<open>Connecting\<close>

definition findClientIndexByID :: "u64 \<Rightarrow> Server \<Rightarrow> int" where
  "findClientIndexByID ID server =
     find_index (\<lambda>i. clientConnected server i \<and> clientID server i = ID) (nat (maxClients server))"

definition findClientIndexByAddress :: "Address \<Rightarrow> Server \<Rightarrow> int" where
  "findClientIndexByAddress address server =
     find_index (\<lambda>i. clientConnected server i \<and> Equal (clientAddress server i) address) (nat (maxClients server))"

definition findFreeClientIndex :: "Server \<Rightarrow> int" where
  "findFreeClientIndex server = find_index (\<lambda>i. \<not> clientConnected server i) (nat (maxClients server))"

text \<open>The whitelist loop over the server addresses of the token.\<close>

definition found_server_address :: "connectTokenPrivate \<Rightarrow> Server \<Rightarrow> bool" where
  "found_server_address token server \<longleftrightarrow>
     list_ex (\<lambda>i. Equal (srv_address server) (ctp_serverAddresses token i) \<or>
        Type (srv_address2 server) \<noteq> AddressNone \<and> Equal (srv_address2 server) (ctp_serverAddresses token i))
      [0..<nat (ctp_numServerAddresses token)]"

text \<open>The tail of the request handler, from the new mapping to the challenge packet.\<close>

definition send_challenge ::
  "crypto \<Rightarrow> Address \<Rightarrow> connectTokenPrivate \<Rightarrow> int \<Rightarrow> Server \<Rightarrow> Server option" where
  "send_challenge C from token connectTokenEntryIndex server = do {
     let expireTime = (if sint (ctp_timeoutSeconds token) \<ge> 0
                       then srv_time server + of_int (sint (ctp_timeoutSeconds token)) else -1);
     let (ok, em) = addEncryptionMapping (srv_encryption server) from (ctp_serverToClientKey token)
                      (ctp_clientToServerKey token) (srv_time server) expireTime (ctp_timeoutSeconds token)
                      connectTokenEntryIndex;
     let server = server\<lparr>srv_encryption := em\<rparr>;
     if \<not> ok then Some server
     else do {
       tokenData \<leftarrow> challengeToken_write \<lparr>cht_clientID = ctp_clientID token, cht_userData = ctp_userData token\<rparr>
                      (replicate challengeTokenBytes 0);
       result \<leftarrow> encryptChallengeToken C tokenData (challengeSequence server) (challengeKey server);
       case result of Inl _ \<Rightarrow> Some server
       | Inr tokenData \<Rightarrow>
           sendGlobalPacket C (ConnectionChallenge (challengeSequence server) tokenData) from
             (ctp_serverToClientKey token)
             (server\<lparr>challengeSequence := challengeSequence server + 1\<rparr>) } }"

text \<open>\<open>now\<close> is the clock reading the handler takes for the connect token history.\<close>

definition processConnectionRequestPacket ::
  "crypto \<Rightarrow> u64 \<Rightarrow> Address \<Rightarrow> connectionRequest \<Rightarrow> Server \<Rightarrow> Server option" where
  "processConnectionRequestPacket C now from request server = do {
     (err, token) \<leftarrow> connectTokenPrivate_read zeroConnectTokenPrivate (req_connectTokenData request);
     if err \<noteq> None then Some server
     else if \<not> found_server_address token server then Some server
     else if findClientIndexByAddress from server \<noteq> -1 then Some server
     else if findClientIndexByID (ctp_clientID token) server \<noteq> -1 then Some server
     else do {
       (connectTokenEntryIndex, entries) \<leftarrow>
         connectTokenEntriesFindOrAdd (connectTokenEntries server) from
           (drop (connectTokenPrivateBytes - MacBytes) (req_connectTokenData request))
           (req_connectTokenExpireTimestamp request) now (srv_time server);
       let server = server\<lparr>connectTokenEntries := entries\<rparr>;
       if connectTokenEntryIndex = connectTokenHistoryFull then Some server
       else if connectTokenEntryIndex = connectTokenEntryRefused then Some server
       else if numConnectedClients server = maxClients server
       then sendGlobalPacket C ConnectionDenied from (ctp_serverToClientKey token) server
       else send_challenge C from token connectTokenEntryIndex server } }"

definition connectClient ::
  "crypto \<Rightarrow> int \<Rightarrow> Address \<Rightarrow> u64 \<Rightarrow> int \<Rightarrow> i32 \<Rightarrow> byte list \<Rightarrow> Server \<Rightarrow> Server option" where
  "connectClient C clientIndex address ID encryptionIndex timeoutSeconds userData server = do {
     let server = server\<lparr>numConnectedClients := numConnectedClients server + 1\<rparr>;
     em \<leftarrow> setExpireTime (srv_encryption server) encryptionIndex (-1);
     e \<leftarrow> idx maxEncryptionMappings encryptionIndex;
     let server = server\<lparr>srv_encryption := em\<lparr>em_clientIndex := (em_clientIndex em)(e := clientIndex)\<rparr>\<rparr>;
     i \<leftarrow> idx MaxClients clientIndex;
     let server = server\<lparr>clientConnected := (clientConnected server)(i := True),
       clientTimeout := (clientTimeout server)(i := timeoutSeconds),
       clientEncryptionIndex := (clientEncryptionIndex server)(i := encryptionIndex),
       clientID := (clientID server)(i := ID),
       clientSequence := (clientSequence server)(i := 0),
       clientAddress := (clientAddress server)(i := address),
       clientDisconnectReason := (clientDisconnectReason server)(i := DisconnectReasonNone),
       clientLastPacketSendTime := (clientLastPacketSendTime server)(i := srv_time server),
       clientLastPacketReceiveTime := (clientLastPacketReceiveTime server)(i := srv_time server),
       clientUserData := (clientUserData server)(i := copy_at (clientUserData server i) 0 userData)\<rparr>;
     connectTokenEntryIndex \<leftarrow> getConnectTokenEntryIndex (srv_encryption server) encryptionIndex;
     let server = (if connectTokenEntryIndex \<ge> 0
       then server\<lparr>connectTokenEntries := connectTokenEntriesConsume (connectTokenEntries server) connectTokenEntryIndex\<rparr>
       else server);
     server \<leftarrow> sendClientPacket C (ConnectionKeepAlive (of_int clientIndex) (of_int (maxClients server))) clientIndex server;
     Some (notify clientIndex True server) }"

definition processConnectionResponsePacket ::
  "crypto \<Rightarrow> Address \<Rightarrow> u64 \<Rightarrow> byte list \<Rightarrow> int \<Rightarrow> Server \<Rightarrow> Server option" where
  "processConnectionResponsePacket C from tokenSequence tokenData encryptionIndex server = do {
     result \<leftarrow> decryptChallengeToken C tokenData tokenSequence (challengeKey server);
     case result of Inl _ \<Rightarrow> Some server
     | Inr tokenData \<Rightarrow> do {
         (err, token) \<leftarrow> challengeToken_read zeroChallengeToken tokenData;
         if err \<noteq> None then Some server
         else do {
           packetSendKey \<leftarrow> getSendKey (srv_encryption server) encryptionIndex;
           case packetSendKey of None \<Rightarrow> Some server
           | Some packetSendKey \<Rightarrow>
             if findClientIndexByAddress from server \<noteq> -1 then Some server
             else if findClientIndexByID (cht_clientID token) server \<noteq> -1 then Some server
             else if numConnectedClients server = maxClients server
             then sendGlobalPacket C ConnectionDenied from packetSendKey server
             else do {
               timeoutSeconds \<leftarrow> getTimeout (srv_encryption server) encryptionIndex;
               connectClient C (findFreeClientIndex server) from (cht_clientID token) encryptionIndex timeoutSeconds
                 (cht_userData token) server } } } }"

subsection \<open>Receiving\<close>

text \<open>What keep-alive and payload packets have in common.\<close>

definition note_received :: "nat \<Rightarrow> Server \<Rightarrow> Server" where
  "note_received i server =
     server\<lparr>clientLastPacketReceiveTime := (clientLastPacketReceiveTime server)(i := srv_time server),
       clientConfirmed := (clientConfirmed server)(i := True)\<rparr>"

definition server_processPacketInternal ::
  "crypto \<Rightarrow> u64 \<Rightarrow> Address \<Rightarrow> packet \<Rightarrow> u64 \<Rightarrow> int \<Rightarrow> int \<Rightarrow> Server \<Rightarrow> Server option" where
  "server_processPacketInternal C now from p sequence encryptionIndex clientIndex server =
     (case p of
        ConnectionRequest request \<Rightarrow>
          if srv_flags server AND serverFlagIgnoreConnectionRequestPackets = 0
          then processConnectionRequestPacket C now from request server else Some server
      | ConnectionResponse tokenSequence tokenData \<Rightarrow>
          if srv_flags server AND serverFlagIgnoreConnectionResponsePackets = 0
          then processConnectionResponsePacket C from tokenSequence tokenData encryptionIndex server else Some server
      | ConnectionKeepAlive _ _ \<Rightarrow>
          if clientIndex \<noteq> -1 then do {
            i \<leftarrow> idx MaxClients clientIndex;
            Some (note_received i server) }
          else Some server
      | ConnectionPayload payload \<Rightarrow>
          if clientIndex \<noteq> -1 then do {
            i \<leftarrow> idx MaxClients clientIndex;
            let server = note_received i server;
            Some (server\<lparr>clientPacketQueue :=
              (clientPacketQueue server)(i := snd (packetQueue_push (clientPacketQueue server i) payload sequence))\<rparr>) }
          else Some server
      | ConnectionDisconnect \<Rightarrow>
          if clientIndex \<noteq> -1
          then disconnectClientInternal C clientIndex False DisconnectReasonClientDisconnect server
          else Some server
      | _ \<Rightarrow> Some server)"

definition serverAllowedPackets :: "bool arr" where
  "serverAllowedPackets =
     (\<lambda>_. False)(unat connectionRequestPacket := True, unat connectionResponsePacket := True,
       unat connectionKeepAlivePacket := True, unat connectionPayloadPacket := True,
       unat connectionDisconnectPacket := True)"

text \<open>
  \<open>currentTimestamp\<close> is the reading the caller took, \<open>now\<close> the one taken if the packet turns out to
  be a connection request.
\<close>

definition readAndProcessPacket ::
  "crypto \<Rightarrow> u64 \<Rightarrow> u64 \<Rightarrow> Address \<Rightarrow> byte list \<Rightarrow> bool arr \<Rightarrow> Server \<Rightarrow> Server option" where
  "readAndProcessPacket C currentTimestamp now from packetData allowedPackets server =
     (if \<not> running server then Some server
      else if length packetData \<le> 1 then Some server
      else do {
        let clientIndex = findClientIndexByAddress from server;
        (encryptionIndex, server) \<leftarrow>
          (if clientIndex \<noteq> -1 then do {
             i \<leftarrow> idx MaxClients clientIndex;
             Some (clientEncryptionIndex server i, server) }
           else let (e, em) = findEncryptionMapping (srv_encryption server) from (srv_time server)
             in Some (e, server\<lparr>srv_encryption := em\<rparr>));
        readPacketKey \<leftarrow> getReceiveKey (srv_encryption server) encryptionIndex;
        if readPacketKey = None \<and> packetData ! 0 \<noteq> 0 then Some server
        else do {
          replay \<leftarrow> (if clientIndex \<noteq> -1 then do {
              i \<leftarrow> idx MaxClients clientIndex;
              Some (Some (clientReplayProtection server i)) }
            else Some None);
          (packet, sequence, replay) \<leftarrow>
            readPacket C packetData readPacketKey (ProtocolID (srv_config server)) currentTimestamp
              (minConnectTokenExpireTimestamp server) (Some (PrivateKey (srv_config server))) allowedPackets replay;
          let server = (case replay of None \<Rightarrow> server
            | Some rp \<Rightarrow> server\<lparr>clientReplayProtection := (clientReplayProtection server)(nat clientIndex := rp)\<rparr>);
          case packet of None \<Rightarrow> Some server
          | Some p \<Rightarrow> server_processPacketInternal C now from p sequence encryptionIndex clientIndex server } })"

definition server_ProcessPacket :: "crypto \<Rightarrow> u64 \<Rightarrow> u64 \<Rightarrow> Address \<Rightarrow> byte list \<Rightarrow> Server \<Rightarrow> Server option" where
  "server_ProcessPacket C currentTimestamp now from packetData server =
     readAndProcessPacket C currentTimestamp now from packetData serverAllowedPackets server"

text \<open>
  The packets that are waiting, in the order the socket, the override or the simulator delivers
  them, each with the clock reading its handler would take.
\<close>

fun process_waiting ::
  "crypto \<Rightarrow> u64 \<Rightarrow> (Address \<times> byte list \<times> u64) list \<Rightarrow> Server \<Rightarrow> Server option" where
  "process_waiting C currentTimestamp [] server = Some server"
| "process_waiting C currentTimestamp ((from, packetData, now) # waiting) server = do {
     server \<leftarrow> readAndProcessPacket C currentTimestamp now from packetData serverAllowedPackets server;
     process_waiting C currentTimestamp waiting server }"

definition server_receivePackets ::
  "crypto \<Rightarrow> u64 \<Rightarrow> (Address \<times> byte list \<times> u64) list \<Rightarrow> Server \<Rightarrow> Server option" where
  "server_receivePackets C currentTimestamp waiting server =
     (if \<not> NetworkSimulator (srv_config server) then
        if OverrideSendAndReceive (srv_config server) \<and> \<not> ReceivePacketOverride (srv_config server) then None
        else process_waiting C currentTimestamp waiting server
      else process_waiting C currentTimestamp (take serverMaxReceivePackets waiting) server)"

definition server_sendPackets :: "crypto \<Rightarrow> Server \<Rightarrow> Server option" where
  "server_sendPackets C server =
     (if \<not> running server then Some server
      else for_range (\<lambda>n server. do {
          i \<leftarrow> idx MaxClients (int n);
          if clientConnected server i \<and> \<not> clientLoopback server i \<and>
             clientLastPacketSendTime server i + 1 / packetSendRate \<le> srv_time server
          then sendClientPacket C (ConnectionKeepAlive (of_nat n) (of_int (maxClients server))) (int n) server
          else Some server }) 0 (nat (maxClients server)) server)"

definition checkForTimeouts :: "crypto \<Rightarrow> Server \<Rightarrow> Server option" where
  "checkForTimeouts C server =
     (if \<not> running server then Some server
      else for_range (\<lambda>n server. do {
          i \<leftarrow> idx MaxClients (int n);
          if \<not> clientConnected server i then Some server
          else if sint (clientTimeout server i) \<le> 0 then Some server
          else if clientLoopback server i then Some server
          else if clientLastPacketReceiveTime server i + of_int (sint (clientTimeout server i)) \<le> srv_time server
          then disconnectClientInternal C (int n) False DisconnectReasonTimedOut server
          else Some server }) 0 (nat (maxClients server)) server)"

definition server_Update ::
  "crypto \<Rightarrow> float64 \<Rightarrow> u64 \<Rightarrow> (Address \<times> byte list \<times> u64) list \<Rightarrow> Server \<Rightarrow> Server option" where
  "server_Update C time currentTimestamp waiting server = do {
     let server = server\<lparr>srv_time := time\<rparr>;
     server \<leftarrow> server_receivePackets C currentTimestamp waiting server;
     server \<leftarrow> server_sendPackets C server;
     checkForTimeouts C server }"

subsection \<open>The interface of the application\<close>

text \<open>The guard shared by the accessors: a slot of a running server.\<close>

definition client_slot :: "int \<Rightarrow> Server \<Rightarrow> 'a \<Rightarrow> (nat \<Rightarrow> 'a) \<Rightarrow> 'a option" where
  "client_slot clientIndex server dflt get =
     (if \<not> running server then Some dflt
      else if \<not> slot_in_range clientIndex server then Some dflt
      else do { i \<leftarrow> idx MaxClients clientIndex; Some (get i) })"

definition ClientConnected :: "int \<Rightarrow> Server \<Rightarrow> bool option" where
  "ClientConnected clientIndex server = client_slot clientIndex server False (clientConnected server)"

definition ClientDisconnectReason :: "int \<Rightarrow> Server \<Rightarrow> int option" where
  "ClientDisconnectReason clientIndex server =
     client_slot clientIndex server DisconnectReasonNone (clientDisconnectReason server)"

definition ClientID :: "int \<Rightarrow> Server \<Rightarrow> u64 option" where
  "ClientID clientIndex server = client_slot clientIndex server 0 (clientID server)"

definition ClientAddress :: "int \<Rightarrow> Server \<Rightarrow> Address option" where
  "ClientAddress clientIndex server = client_slot clientIndex server zeroAddress (clientAddress server)"

definition ClientLoopback :: "int \<Rightarrow> Server \<Rightarrow> bool option" where
  "ClientLoopback clientIndex server = client_slot clientIndex server False (clientLoopback server)"

definition ClientUserData :: "int \<Rightarrow> Server \<Rightarrow> byte list option option" where
  "ClientUserData clientIndex server = client_slot clientIndex server None (\<lambda>i. Some (clientUserData server i))"

definition server_NextPacketSequence :: "int \<Rightarrow> Server \<Rightarrow> u64 option" where
  "server_NextPacketSequence clientIndex server =
     client_slot clientIndex server 0 (\<lambda>i. if \<not> clientConnected server i then 0 else clientSequence server i)"

definition server_Port :: "Server \<Rightarrow> u16" where
  "server_Port server =
     (if Type (srv_address server) = AddressIPv4
      then case socketIPv4 server of None \<Rightarrow> 0 | Some k \<Rightarrow> Port (sk_address k)
      else case socketIPv6 server of None \<Rightarrow> 0 | Some k \<Rightarrow> Port (sk_address k))"

definition server_SendPacket :: "crypto \<Rightarrow> int \<Rightarrow> byte list \<Rightarrow> Server \<Rightarrow> Server option" where
  "server_SendPacket C clientIndex packetData server =
     (if length packetData \<le> 0 \<or> length packetData > MaxPacketSize then Some server
      else if \<not> running server then Some server
      else if \<not> slot_in_range clientIndex server then Some server
      else do {
        i \<leftarrow> idx MaxClients clientIndex;
        if \<not> clientConnected server i then Some server
        else if \<not> clientLoopback server i then do {
          server \<leftarrow> (if \<not> clientConfirmed server i
            then sendClientPacket C (ConnectionKeepAlive (of_int clientIndex) (of_int (maxClients server))) clientIndex server
            else Some server);
          sendClientPacket C (ConnectionPayload packetData) clientIndex server }
        else if \<not> SendLoopbackPacketCallback (srv_config server) then None
        else Some (server\<lparr>
          srv_events := srv_events server @ [LoopbackPacketEvent clientIndex packetData (clientSequence server i)],
          clientSequence := (clientSequence server)(i := clientSequence server i + 1),
          clientLastPacketSendTime := (clientLastPacketSendTime server)(i := srv_time server)\<rparr>) })"

definition server_ReceivePacket :: "int \<Rightarrow> Server \<Rightarrow> ((byte list option \<times> u64) \<times> Server) option" where
  "server_ReceivePacket clientIndex server =
     (if \<not> running server then Some ((None, 0), server)
      else if \<not> slot_in_range clientIndex server then Some ((None, 0), server)
      else do {
        i \<leftarrow> idx MaxClients clientIndex;
        if \<not> clientConnected server i then Some ((None, 0), server)
        else let ((payload, sequence), q) = packetQueue_pop (clientPacketQueue server i);
                 server = server\<lparr>clientPacketQueue := (clientPacketQueue server)(i := q)\<rparr>
          in Some (if payload = None then ((None, 0), server) else ((payload, sequence), server)) })"

definition ConnectLoopbackClient :: "int \<Rightarrow> u64 \<Rightarrow> byte list \<Rightarrow> Server \<Rightarrow> Server option" where
  "ConnectLoopbackClient clientIndex ID userData server =
     (if \<not> running server then Some server
      else if \<not> slot_in_range clientIndex server then Some server
      else do {
        i \<leftarrow> idx MaxClients clientIndex;
        if clientConnected server i then Some server
        else Some (notify clientIndex True (server\<lparr>numConnectedClients := numConnectedClients server + 1,
          clientLoopback := (clientLoopback server)(i := True),
          clientConnected := (clientConnected server)(i := True),
          clientConfirmed := (clientConfirmed server)(i := True),
          clientEncryptionIndex := (clientEncryptionIndex server)(i := -1),
          clientID := (clientID server)(i := ID),
          clientSequence := (clientSequence server)(i := 0),
          clientDisconnectReason := (clientDisconnectReason server)(i := DisconnectReasonNone),
          clientAddress := (clientAddress server)(i := zeroAddress),
          clientLastPacketSendTime := (clientLastPacketSendTime server)(i := srv_time server),
          clientLastPacketReceiveTime := (clientLastPacketReceiveTime server)(i := srv_time server),
          clientUserData := (clientUserData server)(i := copy_at (replicate UserDataBytes 0) 0 userData)\<rparr>)) })"

definition server_ProcessLoopbackPacket :: "int \<Rightarrow> byte list \<Rightarrow> u64 \<Rightarrow> Server \<Rightarrow> Server option" where
  "server_ProcessLoopbackPacket clientIndex packetData packetSequence server =
     (if \<not> running server then Some server
      else if \<not> slot_in_range clientIndex server then Some server
      else do {
        i \<leftarrow> idx MaxClients clientIndex;
        if \<not> clientConnected server i \<or> \<not> clientLoopback server i then Some server
        else if length packetData \<le> 0 \<or> length packetData > MaxPacketSize then Some server
        else Some (server\<lparr>
          clientLastPacketReceiveTime := (clientLastPacketReceiveTime server)(i := srv_time server),
          clientPacketQueue :=
            (clientPacketQueue server)(i := snd (packetQueue_push (clientPacketQueue server i) packetData packetSequence))\<rparr>) })"

end
