(* ===== verification/Server_Inv.thy ===== *)
theory Server_Inv
  imports Server
begin

text \<open>
  The invariant of the server and its preservation by every operation, which also shows that no
  operation panics. \<open>slots_inv\<close> is about the client slots and their number, \<open>keys_inv\<close> about the
  client slots and the encryption manager pointing at each other, \<open>history_inv\<close> about the connect
  token history, \<open>fresh_inv\<close> about what an unused slot holds, \<open>apart_inv\<close> about distinct clients.
\<close>

abbreviation network_client :: "Server \<Rightarrow> nat \<Rightarrow> bool" where
  "network_client s i \<equiv> clientConnected s i \<and> \<not> clientLoopback s i"

definition slots_inv :: "Server \<Rightarrow> bool" where
  "slots_inv s \<longleftrightarrow>
     (if running s then 0 < maxClients s \<and> maxClients s \<le> 256 else maxClients s = 0) \<and>
     (\<forall>i. clientConnected s i \<longrightarrow> int i < maxClients s) \<and>
     numConnectedClients s = int (card {i. clientConnected s i}) \<and>
     (\<forall>i. clientLoopback s i \<longrightarrow> clientConnected s i) \<and>
     length (challengeKey s) = 32"

definition keys_inv :: "Server \<Rightarrow> bool" where
  "keys_inv s \<longleftrightarrow> em_inv (srv_encryption s) \<and>
     (\<forall>i. network_client s i \<longrightarrow> (\<exists>e<1024. clientEncryptionIndex s i = int e \<and>
        Equal (em_address (srv_encryption s) e) (clientAddress s i) \<and>
        em_clientIndex (srv_encryption s) e = int i)) \<and>
     (\<forall>e. em_clientIndex (srv_encryption s) e \<noteq> -1 \<longrightarrow>
        (\<exists>i. em_clientIndex (srv_encryption s) e = int i \<and> network_client s i \<and> clientEncryptionIndex s i = int e))"

definition history_inv :: "Server \<Rightarrow> bool" where
  "history_inv s \<longleftrightarrow> entries_inv (connectTokenEntries s) \<and>
     (\<forall>e. em_connectTokenEntryIndex (srv_encryption s) e = -1 \<and> Type (em_address (srv_encryption s) e) = 0 \<or>
        0 \<le> em_connectTokenEntryIndex (srv_encryption s) e \<and> em_connectTokenEntryIndex (srv_encryption s) e < 2048 \<and>
        te_state (connectTokenEntries s (nat (em_connectTokenEntryIndex (srv_encryption s) e))) \<noteq> 0)"

definition fresh_replay :: "replayProtection \<Rightarrow> bool" where
  "fresh_replay r \<longleftrightarrow> r = replay_reset r"

definition fresh_inv :: "Server \<Rightarrow> bool" where
  "fresh_inv s \<longleftrightarrow>
     (\<forall>i. queue_inv (clientPacketQueue s i) \<and> length (clientUserData s i) = 256) \<and>
     (\<forall>i. \<not> network_client s i \<longrightarrow> clientEncryptionIndex s i = -1 \<and> clientAddress s i = zeroAddress \<and>
        fresh_replay (clientReplayProtection s i)) \<and>
     (\<forall>i. \<not> clientConnected s i \<longrightarrow> clientID s i = 0 \<and> \<not> clientConfirmed s i \<and> clientSequence s i = 0 \<and>
        numPackets (clientPacketQueue s i) = 0 \<and> clientUserData s i = replicate 256 0)"

definition apart_inv :: "Server \<Rightarrow> bool" where
  "apart_inv s \<longleftrightarrow>
     (\<forall>i j. network_client s i \<and> network_client s j \<and> i \<noteq> j \<longrightarrow>
        \<not> Equal (clientAddress s i) (clientAddress s j) \<and> clientID s i \<noteq> clientID s j)"

definition srv_inv :: "Server \<Rightarrow> bool" where
  "srv_inv s \<longleftrightarrow> slots_inv s \<and> keys_inv s \<and> history_inv s \<and> fresh_inv s \<and> apart_inv s"

lemmas srv_inv_defs = slots_inv_def keys_inv_def history_inv_def fresh_inv_def apart_inv_def

lemma srv_invI:
  "slots_inv s \<Longrightarrow> keys_inv s \<Longrightarrow> history_inv s \<Longrightarrow> fresh_inv s \<Longrightarrow> apart_inv s \<Longrightarrow> srv_inv s"
  by (simp add: srv_inv_def)

lemma srv_invD:
  "srv_inv s \<Longrightarrow> slots_inv s" "srv_inv s \<Longrightarrow> keys_inv s" "srv_inv s \<Longrightarrow> history_inv s"
  "srv_inv s \<Longrightarrow> fresh_inv s" "srv_inv s \<Longrightarrow> apart_inv s"
  by (simp_all add: srv_inv_def)

lemma fresh_replay_reset [simp]: "fresh_replay (replay_reset r)"
  by (simp add: fresh_replay_def replay_reset_def)

lemma srv_inv_new: "srv_inv (new_server config a1 a2 t v4 v6)"
  by (simp add: srv_inv_def srv_inv_defs new_server_def entries_inv_initial)
    (simp add: encryptionManager_reset_def new_packetQueue_def)

subsection \<open>Facts about slots\<close>

lemma finite_connected: "slots_inv s \<Longrightarrow> finite {i. clientConnected s i}"
  by (rule finite_subset[of _ "{..<nat (maxClients s)}"]) (fastforce simp: slots_inv_def)+

lemma connected_range:
  assumes "slots_inv s" and "clientConnected s i"
  shows "i < 256" "int i < maxClients s" "running s" "i < nat (maxClients s)"
proof -
  show *: "int i < maxClients s" using assms by (simp add: slots_inv_def)
  show "running s"
  proof (rule ccontr)
    assume "\<not> running s"
    with assms(1) have "maxClients s = 0" by (simp add: slots_inv_def)
    with * show False by simp
  qed
  with assms(1) have "maxClients s \<le> 256" by (simp add: slots_inv_def)
  with * show "i < 256" by simp
  from * show "i < nat (maxClients s)" by simp
qed

lemma slot_range: "slots_inv s \<Longrightarrow> running s \<Longrightarrow> slot_in_range k s \<Longrightarrow> 0 \<le> k \<and> k < 256 \<and> k < maxClients s"
  by (auto simp: slots_inv_def slot_in_range_def)

lemma maxClients_nat: "slots_inv s \<Longrightarrow> nat (maxClients s) \<le> 256"
  by (auto simp: slots_inv_def split: if_splits)

lemma network_clientD:
  assumes "keys_inv s" and "network_client s i"
  obtains e where "e < 1024" "clientEncryptionIndex s i = int e"
    "Equal (em_address (srv_encryption s) e) (clientAddress s i)" "em_clientIndex (srv_encryption s) e = int i"
  using assms by (auto simp: keys_inv_def)

lemma numConnected_less:
  assumes "slots_inv s" and "numConnectedClients s \<noteq> maxClients s" and "running s"
  shows "\<exists>i. findFreeClientIndex s = int i \<and> i < 256 \<and> int i < maxClients s \<and> \<not> clientConnected s i"
proof -
  let ?n = "nat (maxClients s)"
  have n: "0 < maxClients s" "maxClients s \<le> 256" using assms(1,3) by (simp_all add: slots_inv_def)
  have "findFreeClientIndex s \<noteq> -1"
  proof
    assume "findFreeClientIndex s = -1"
    then have "\<forall>i<?n. clientConnected s i" by (simp add: findFreeClientIndex_def find_index_neg)
    then have "{i. clientConnected s i} = {..<?n}"
      using connected_range(4)[OF assms(1)] by auto
    with assms(1,2) n show False by (simp add: slots_inv_def)
  qed
  then have "0 \<le> findFreeClientIndex s \<and> nat (findFreeClientIndex s) < ?n \<and>
      \<not> clientConnected s (nat (findFreeClientIndex s))"
    using find_index_Some[OF refl, of "\<lambda>i. \<not> clientConnected s i" ?n] unfolding findFreeClientIndex_def by blast
  with n show ?thesis by (intro exI[of _ "nat (findFreeClientIndex s)"]) linarith
qed

lemma findByAddress_cases:
  assumes "srv_inv s"
  shows "findClientIndexByAddress a s = -1 \<and> (\<forall>i. \<not> (clientConnected s i \<and> Equal (clientAddress s i) a)) \<or>
    (\<exists>i<256. findClientIndexByAddress a s = int i \<and> network_client s i \<and> Equal (clientAddress s i) a)"
proof (cases "findClientIndexByAddress a s = -1")
  case True
  then have "\<forall>i<nat (maxClients s). \<not> (clientConnected s i \<and> Equal (clientAddress s i) a)"
    by (simp add: findClientIndexByAddress_def find_index_neg)
  with True connected_range(4)[OF srv_invD(1)[OF assms]] show ?thesis by blast
next
  case False
  define i where "i = nat (findClientIndexByAddress a s)"
  have i: "findClientIndexByAddress a s = int i" "clientConnected s i" "Equal (clientAddress s i) a"
    using find_index_Some[OF refl False[unfolded findClientIndexByAddress_def]]
    unfolding findClientIndexByAddress_def[symmetric] i_def by auto
  have "network_client s i"
    using i srv_invD(4)[OF assms] by (auto simp: fresh_inv_def)
  with i connected_range(1)[OF srv_invD(1)[OF assms] i(2)] show ?thesis by blast
qed

lemma findByID_none:
  assumes "srv_inv s" and "findClientIndexByID x s = -1" and "clientConnected s i"
  shows "clientID s i \<noteq> x"
  using assms(2,3) connected_range(4)[OF srv_invD(1)[OF assms(1)] assms(3)]
  by (auto simp: findClientIndexByID_def find_index_neg)

text \<open>A slot of the encryption manager whose address belongs to no connected client has no owner.\<close>

lemma unowned_slot:
  assumes "srv_inv s" and "\<forall>i. \<not> (clientConnected s i \<and> Equal (clientAddress s i) a)"
    and "Equal (em_address (srv_encryption s) e) a"
  shows "em_clientIndex (srv_encryption s) e = -1"
proof (rule ccontr)
  assume "em_clientIndex (srv_encryption s) e \<noteq> -1"
  with srv_invD(2)[OF assms(1)] obtain i where i: "network_client s i" "clientEncryptionIndex s i = int e"
    by (auto simp: keys_inv_def)
  from network_clientD[OF srv_invD(2)[OF assms(1)] i(1)] i(2)
  have "Equal (em_address (srv_encryption s) e) (clientAddress s i)" by (metis of_nat_eq_iff)
  with assms(3) have "Equal (clientAddress s i) a" using Equal_sym Equal_trans by blast
  with assms(2) i(1) show False by blast
qed

lemma empty_slot_unowned:
  assumes "srv_inv s" and "Type (em_address (srv_encryption s) e) = 0"
  shows "em_clientIndex (srv_encryption s) e = -1"
proof (rule ccontr)
  assume "em_clientIndex (srv_encryption s) e \<noteq> -1"
  with srv_invD(2)[OF assms(1)] obtain i where i: "network_client s i" "clientEncryptionIndex s i = int e"
    by (auto simp: keys_inv_def)
  from network_clientD[OF srv_invD(2)[OF assms(1)] i(1)] i(2)
  have "Equal (em_address (srv_encryption s) e) (clientAddress s i)" by (metis of_nat_eq_iff)
  with assms(2) show False by (auto dest: Equal_Type)
qed


subsection \<open>Sending\<close>

lemma server_transmit_ok:
  assumes "n \<le> length d"
  shows "\<exists>new. server_transmit to n d s = Some (s\<lparr>srv_events := srv_events s @ new\<rparr>) \<and>
    (sent_packets new = [(to, take n d)] \<or> new = [])"
proof -
  obtain new where new: "sendPacketToAddress (NetworkSimulator (srv_config s))
      (OverrideSendAndReceive (srv_config s) \<and> SendPacketOverride (srv_config s)) (socket_sends (socketIPv4 s)) (socket_sends (socketIPv6 s))
      (srv_address s) to (take n d) (srv_events s) = srv_events s @ new"
    "sent_packets new = [(to, take n d)] \<or> new = []"
    using sendPacketToAddress_log by blast
  show ?thesis
    by (intro exI[of _ new] conjI new(2)) (use assms in \<open>simp add: server_transmit_def new(1)\<close>)
qed

lemma sendGlobalPacket_ok:
  assumes "crypto_ok C" and "length key = 32" and "packet_ok p" and "\<not> is_request p"
  shows "\<exists>new. sendGlobalPacket C p to key s =
      Some (s\<lparr>srv_events := srv_events s @ new, globalSequence := globalSequence s + 1\<rparr>) \<and>
    (sent_packets new = [(to, sealed_packet C p (globalSequence s) key (ProtocolID (srv_config s)))] \<or> new = [])"
proof -
  define m where "m = sealed_packet C p (globalSequence s) key (ProtocolID (srv_config s))"
  define d where "d = m @ drop (length m) (replicate 1300 0)"
  have w: "writePacket C p (replicate 1300 0) (globalSequence s) key (ProtocolID (srv_config s)) = Some (length m, d)"
    unfolding d_def m_def by (rule writePacket_sealed[OF assms(1,3,4,2)]) simp
  have m: "length m \<noteq> 0" "length m \<le> length d" "take (length m) d = m"
    using length_sealed_packet[OF assms(1), of p] by (simp_all add: m_def d_def)
  obtain new where t: "server_transmit to (length m) d s = Some (s\<lparr>srv_events := srv_events s @ new\<rparr>)"
    "sent_packets new = [(to, m)] \<or> new = []"
    using server_transmit_ok[OF m(2), of to s] m(3) by auto
  have "sendGlobalPacket C p to key s =
      Some (s\<lparr>srv_events := srv_events s @ new, globalSequence := globalSequence s + 1\<rparr>)"
    using m(1) by (simp add: sendGlobalPacket_def w t(1))
  with t(2) show ?thesis by (auto simp: m_def)
qed

lemma sendClientPacket_ok:
  assumes "crypto_ok C" and "packet_ok p" and "\<not> is_request p" and "srv_inv s" and "network_client s i"
  shows "\<exists>new e. e < 1024 \<and> clientEncryptionIndex s i = int e \<and>
    sendClientPacket C p (int i) s =
      Some (s\<lparr>srv_encryption := (srv_encryption s)\<lparr>em_lastAccessTime := (em_lastAccessTime (srv_encryption s))(e := srv_time s)\<rparr>,
        srv_events := srv_events s @ new,
        clientSequence := (clientSequence s)(i := clientSequence s i + 1),
        clientLastPacketSendTime := (clientLastPacketSendTime s)(i := srv_time s)\<rparr>) \<and>
    (sent_packets new = [(clientAddress s i, sealed_packet C p (clientSequence s i)
       (em_sendKey (srv_encryption s) e) (ProtocolID (srv_config s)))] \<or> new = [])"
proof -
  obtain e where e: "e < 1024" "clientEncryptionIndex s i = int e"
    "Equal (em_address (srv_encryption s) e) (clientAddress s i)"
    using network_clientD[OF srv_invD(2)[OF assms(4)] assms(5)] by metis
  have i: "i < 256" using connected_range(1)[OF srv_invD(1)[OF assms(4)]] assms(5) by blast
  let ?em = "(srv_encryption s)\<lparr>em_lastAccessTime := (em_lastAccessTime (srv_encryption s))(e := srv_time s)\<rparr>"
  let ?k = "em_sendKey (srv_encryption s) e"
  have k: "length ?k = 32" using srv_invD(2)[OF assms(4)] by (simp add: keys_inv_def em_inv_def)
  have touch: "touch (srv_encryption s) (int e) (clientAddress s i) (srv_time s) = Some (True, ?em)"
    using e by (simp add: touch_def)
  have key: "getSendKey ?em (int e) = Some (Some ?k)" using e by (simp add: getSendKey_def)
  define m where "m = sealed_packet C p (clientSequence s i) ?k (ProtocolID (srv_config s))"
  define d where "d = m @ drop (length m) (replicate 1300 0)"
  have w: "writePacket C p (replicate 1300 0) (clientSequence s i) ?k (ProtocolID (srv_config s)) = Some (length m, d)"
    unfolding d_def m_def by (rule writePacket_sealed[OF assms(1-3) k]) simp
  have m: "length m \<noteq> 0" "length m \<le> length d" "take (length m) d = m"
    using length_sealed_packet[OF assms(1), of p] by (simp_all add: m_def d_def)
  obtain new where t: "server_transmit (clientAddress s i) (length m) d (s\<lparr>srv_encryption := ?em\<rparr>) =
      Some (s\<lparr>srv_encryption := ?em, srv_events := srv_events s @ new\<rparr>)"
    "sent_packets new = [(clientAddress s i, m)] \<or> new = []"
    using server_transmit_ok[OF m(2), of "clientAddress s i" "s\<lparr>srv_encryption := ?em\<rparr>"] m(3) by auto
  have "sendClientPacket C p (int i) s =
      Some (s\<lparr>srv_encryption := ?em, srv_events := srv_events s @ new,
        clientSequence := (clientSequence s)(i := clientSequence s i + 1),
        clientLastPacketSendTime := (clientLastPacketSendTime s)(i := srv_time s)\<rparr>)"
    using i m(1) by (simp add: sendClientPacket_def e touch key w t(1))
  with e t(2) show ?thesis unfolding m_def by blast
qed

lemma srv_inv_global:
  "srv_inv (s\<lparr>srv_events := E, globalSequence := g\<rparr>) \<longleftrightarrow> srv_inv s"
  by (simp add: srv_inv_def srv_inv_defs)

lemma srv_inv_sent:
  assumes "srv_inv s" and "clientConnected s i"
  shows "srv_inv (s\<lparr>srv_encryption := (srv_encryption s)\<lparr>em_lastAccessTime := L\<rparr>, srv_events := E,
    clientSequence := (clientSequence s)(i := q), clientLastPacketSendTime := T\<rparr>)"
proof -
  have "fresh_inv (s\<lparr>srv_encryption := (srv_encryption s)\<lparr>em_lastAccessTime := L\<rparr>, srv_events := E,
      clientSequence := (clientSequence s)(i := q), clientLastPacketSendTime := T\<rparr>)"
    using srv_invD(4)[OF assms(1)] assms(2) by (simp add: fresh_inv_def)
  with assms(1) show ?thesis
    by (simp add: srv_inv_def slots_inv_def keys_inv_def history_inv_def apart_inv_def em_inv_def)
qed

lemma srv_inv_notify [simp]: "srv_inv (notify k b s) \<longleftrightarrow> srv_inv s"
  by (simp add: notify_def srv_inv_def srv_inv_defs)

subsection \<open>Disconnecting\<close>

text \<open>The encryption manager after the mapping of client \<open>i\<close> in slot \<open>e\<close> is given up.\<close>

lemma release_keys:
  fixes t :: float64
  assumes "srv_inv s" and "network_client s i" and "clientEncryptionIndex s i = int e"
  defines "em \<equiv> srv_encryption s"
  defines "em2 \<equiv> snd (removeEncryptionMapping (em\<lparr>em_clientIndex := (em_clientIndex em)(e := -1)\<rparr>) (clientAddress s i) t)"
  shows "em_inv em2" "em_clientIndex em2 = (em_clientIndex em)(e := -1)"
    "\<And>e'. em_connectTokenEntryIndex em2 e' = -1 \<and> Type (em_address em2 e') = 0 \<or>
       em_connectTokenEntryIndex em2 e' = em_connectTokenEntryIndex em e' \<and>
       (em_address em2 e' = em_address em e' \<or> Type (em_address em2 e') = 0)"
    "\<And>j e'. network_client s j \<Longrightarrow> j \<noteq> i \<Longrightarrow> clientEncryptionIndex s j = int e' \<Longrightarrow>
       em_address em2 e' = em_address em e'"
    "\<And>j e'. network_client s j \<Longrightarrow> j \<noteq> i \<Longrightarrow> clientEncryptionIndex s j = int e' \<Longrightarrow>
       em_sendKey em2 e' = em_sendKey em e' \<and> em_receiveKey em2 e' = em_receiveKey em e'"
proof -
  let ?em1 = "em\<lparr>em_clientIndex := (em_clientIndex em)(e := -1)\<rparr>"
  note K = srv_invD(2)[OF assms(1)]
  have inv1: "em_inv ?em1" using K by (simp add: keys_inv_def em_inv_def em_def)
  have e_addr: "Equal (em_address em e) (clientAddress s i)"
    using network_clientD[OF K assms(2)] assms(3) by (metis em_def of_nat_eq_iff)
  have other: "e' \<noteq> e \<and> em_clientIndex em e' = int j \<and> Equal (em_address em e') (clientAddress s j)"
    if "network_client s j" "j \<noteq> i" "clientEncryptionIndex s j = int e'" for j e'
  proof -
    have *: "em_clientIndex em e' = int j" "Equal (em_address em e') (clientAddress s j)"
      using network_clientD[OF K that(1)] that(3) by (metis em_def of_nat_eq_iff)+
    moreover have "em_clientIndex em e = int i"
      using network_clientD[OF K assms(2)] assms(3) by (metis em_def of_nat_eq_iff)
    ultimately show ?thesis using that(2) by auto
  qed
  have result: "em_inv em2 \<and> em_clientIndex em2 = (em_clientIndex em)(e := -1) \<and>
    (\<forall>e'. em_connectTokenEntryIndex em2 e' = -1 \<and> Type (em_address em2 e') = 0 \<or>
       em_connectTokenEntryIndex em2 e' = em_connectTokenEntryIndex em e' \<and>
       (em_address em2 e' = em_address em e' \<or> Type (em_address em2 e') = 0)) \<and>
    (\<forall>j e'. network_client s j \<and> j \<noteq> i \<and> clientEncryptionIndex s j = int e' \<longrightarrow> em_address em2 e' = em_address em e' \<and>
       em_sendKey em2 e' = em_sendKey em e' \<and> em_receiveKey em2 e' = em_receiveKey em e')"
  proof (rule remove_cases[OF inv1, of "clientAddress s i" t])
    fix k m'
    assume r: "removeEncryptionMapping ?em1 (clientAddress s i) t = (True, m')"
      "Equal (em_address ?em1 k) (clientAddress s i)" "em_inv m'" "em_clientIndex m' = em_clientIndex ?em1"
      "em_connectTokenEntryIndex m' = (em_connectTokenEntryIndex ?em1)(k := -1)" "em_address m' k = zeroAddress"
      "\<And>j. j \<noteq> k \<Longrightarrow> em_address m' j = em_address ?em1 j \<or> em_clientIndex ?em1 j = -1 \<and> Type (em_address m' j) = 0"
      "\<And>j. j \<noteq> k \<Longrightarrow> em_sendKey m' j = em_sendKey ?em1 j \<and> em_receiveKey m' j = em_receiveKey ?em1 j"
    have m': "em2 = m'" using r(1) by (simp add: em2_def)
    have "em_address em2 e' = em_address em e' \<and> em_sendKey em2 e' = em_sendKey em e' \<and>
        em_receiveKey em2 e' = em_receiveKey em e'"
      if j: "network_client s j" "j \<noteq> i" "clientEncryptionIndex s j = int e'" for j e'
    proof -
      note o = other[OF j]
      have "k \<noteq> e'"
      proof
        assume "k = e'"
        with r(2) have "Equal (em_address em e') (clientAddress s i)" by simp
        with o have "Equal (clientAddress s i) (clientAddress s j)" using Equal_sym Equal_trans by blast
        with srv_invD(5)[OF assms(1)] assms(2) j(1,2) show False by (metis apart_inv_def)
      qed
      with r(7,8)[of e'] o show ?thesis by (auto simp: m')
    qed
    moreover have "em_connectTokenEntryIndex em2 e' = -1 \<and> Type (em_address em2 e') = 0 \<or>
        em_connectTokenEntryIndex em2 e' = em_connectTokenEntryIndex em e' \<and>
        (em_address em2 e' = em_address em e' \<or> Type (em_address em2 e') = 0)" for e'
      using r(5,6) r(7)[of e'] by (cases "e' = k") (auto simp: m')
    ultimately show ?thesis using r(3,4) m' by auto
  qed (use inv1 in \<open>auto simp: em2_def\<close>)
  from result show "em_inv em2" "em_clientIndex em2 = (em_clientIndex em)(e := -1)"
    "\<And>e'. em_connectTokenEntryIndex em2 e' = -1 \<and> Type (em_address em2 e') = 0 \<or>
       em_connectTokenEntryIndex em2 e' = em_connectTokenEntryIndex em e' \<and>
       (em_address em2 e' = em_address em e' \<or> Type (em_address em2 e') = 0)"
    "\<And>j e'. network_client s j \<Longrightarrow> j \<noteq> i \<Longrightarrow> clientEncryptionIndex s j = int e' \<Longrightarrow>
       em_address em2 e' = em_address em e'"
    "\<And>j e'. network_client s j \<Longrightarrow> j \<noteq> i \<Longrightarrow> clientEncryptionIndex s j = int e' \<Longrightarrow>
       em_sendKey em2 e' = em_sendKey em e' \<and> em_receiveKey em2 e' = em_receiveKey em e'"
    by blast+
qed

text \<open>A client slot after \<open>resetClientSlot\<close>.\<close>

definition cleared_slot :: "nat \<Rightarrow> Server \<Rightarrow> Server" where
  "cleared_slot i s = s\<lparr>clientPacketQueue := (clientPacketQueue s)(i := packetQueue_clear (clientPacketQueue s i)),
     clientConnected := (clientConnected s)(i := False), clientLoopback := (clientLoopback s)(i := False),
     clientConfirmed := (clientConfirmed s)(i := False), clientID := (clientID s)(i := 0),
     clientSequence := (clientSequence s)(i := 0),
     clientLastPacketSendTime := (clientLastPacketSendTime s)(i := 0),
     clientLastPacketReceiveTime := (clientLastPacketReceiveTime s)(i := 0),
     clientAddress := (clientAddress s)(i := zeroAddress),
     clientEncryptionIndex := (clientEncryptionIndex s)(i := -1),
     clientUserData := (clientUserData s)(i := replicate 256 0),
     numConnectedClients := numConnectedClients s - 1\<rparr>"

lemma resetClientSlot_eq: "i < 256 \<Longrightarrow> resetClientSlot (int i) s = Some (cleared_slot i s)"
  by (simp add: resetClientSlot_def cleared_slot_def)

lemma cleared_slot_fields [simp]:
  "clientConnected (cleared_slot i s) = (clientConnected s)(i := False)"
  "clientLoopback (cleared_slot i s) = (clientLoopback s)(i := False)"
  "clientConfirmed (cleared_slot i s) = (clientConfirmed s)(i := False)"
  "clientID (cleared_slot i s) = (clientID s)(i := 0)"
  "clientSequence (cleared_slot i s) = (clientSequence s)(i := 0)"
  "clientAddress (cleared_slot i s) = (clientAddress s)(i := zeroAddress)"
  "clientEncryptionIndex (cleared_slot i s) = (clientEncryptionIndex s)(i := -1)"
  "clientUserData (cleared_slot i s) = (clientUserData s)(i := replicate 256 0)"
  "clientPacketQueue (cleared_slot i s) = (clientPacketQueue s)(i := packetQueue_clear (clientPacketQueue s i))"
  "numConnectedClients (cleared_slot i s) = numConnectedClients s - 1"
  "clientReplayProtection (cleared_slot i s) = clientReplayProtection s"
  "srv_encryption (cleared_slot i s) = srv_encryption s" "connectTokenEntries (cleared_slot i s) = connectTokenEntries s"
  "running (cleared_slot i s) = running s" "maxClients (cleared_slot i s) = maxClients s"
  "challengeKey (cleared_slot i s) = challengeKey s" "srv_events (cleared_slot i s) = srv_events s"
  "srv_config (cleared_slot i s) = srv_config s" "srv_time (cleared_slot i s) = srv_time s"
  "globalSequence (cleared_slot i s) = globalSequence s" "clientTimeout (cleared_slot i s) = clientTimeout s"
  "srv_address (cleared_slot i s) = srv_address s" "srv_address2 (cleared_slot i s) = srv_address2 s"
  "srv_flags (cleared_slot i s) = srv_flags s" "challengeSequence (cleared_slot i s) = challengeSequence s"
  "minConnectTokenExpireTimestamp (cleared_slot i s) = minConnectTokenExpireTimestamp s"
  "clientDisconnectReason (cleared_slot i s) = clientDisconnectReason s"
  by (simp_all add: cleared_slot_def)

lemma numPackets_clear [simp]: "numPackets (packetQueue_clear q) = 0"
  by (simp add: packetQueue_clear_def)

lemma slots_inv_cleared:
  assumes "slots_inv s" and "clientConnected s i"
  shows "slots_inv (cleared_slot i s)"
proof -
  have "{j. ((clientConnected s)(i := False)) j} = {j. clientConnected s j} - {i}" by auto
  moreover have "card ({j. clientConnected s j} - {i}) = card {j. clientConnected s j} - 1"
    using assms(2) by simp
  moreover have "0 < card {j. clientConnected s j}"
    using finite_connected[OF assms(1)] assms(2) by (auto simp: card_gt_0_iff)
  ultimately show ?thesis using assms(1) by (auto simp: slots_inv_def)
qed

lemma fresh_inv_cleared:
  "fresh_inv s \<Longrightarrow> fresh_replay (clientReplayProtection s i) \<Longrightarrow> fresh_inv (cleared_slot i s)"
  by (simp add: fresh_inv_def)

lemma apart_inv_cleared: "apart_inv s \<Longrightarrow> apart_inv (cleared_slot i s)"
  by (simp add: apart_inv_def)

text \<open>Some packets went to client \<open>i\<close>; nothing else happened.\<close>

definition sent_to :: "nat \<Rightarrow> Server \<Rightarrow> Server \<Rightarrow> bool" where
  "sent_to i s s' \<longleftrightarrow> (\<exists>new L q T.
     s' = s\<lparr>srv_encryption := (srv_encryption s)\<lparr>em_lastAccessTime := L\<rparr>, srv_events := srv_events s @ new,
       clientSequence := (clientSequence s)(i := q), clientLastPacketSendTime := (clientLastPacketSendTime s)(i := T)\<rparr>)"

lemma sent_to_refl: "sent_to i s s"
proof -
  have "s = s\<lparr>srv_encryption := (srv_encryption s)\<lparr>em_lastAccessTime := em_lastAccessTime (srv_encryption s)\<rparr>,
      srv_events := srv_events s @ [], clientSequence := (clientSequence s)(i := clientSequence s i),
      clientLastPacketSendTime := (clientLastPacketSendTime s)(i := clientLastPacketSendTime s i)\<rparr>" by simp
  then show ?thesis unfolding sent_to_def by blast
qed

lemma sent_to_trans: "sent_to i s s' \<Longrightarrow> sent_to i s' s'' \<Longrightarrow> sent_to i s s''"
  unfolding sent_to_def by (elim exE) (simp, blast)

lemma send_repeatedly:
  assumes "crypto_ok C" and "packet_ok p" and "\<not> is_request p" and "srv_inv s" and "network_client s i"
  shows "\<exists>s'. for_range (\<lambda>_ s. sendClientPacket C p (int i) s) 0 n s = Some s' \<and>
    srv_inv s' \<and> network_client s' i \<and> sent_to i s s'"
proof -
  let ?P = "\<lambda>_ s'. srv_inv s' \<and> network_client s' i \<and> sent_to i s s'"
  have "\<exists>s'. for_range (\<lambda>_ s. sendClientPacket C p (int i) s) 0 n s = Some s' \<and> ?P (0 + n) s'"
  proof (rule for_range_inv[where P = ?P])
    fix k s1 assume P: "?P k s1"
    from P sendClientPacket_ok[OF assms(1-3), of s1 i] obtain new e where
      s2: "sendClientPacket C p (int i) s1 =
        Some (s1\<lparr>srv_encryption := (srv_encryption s1)\<lparr>em_lastAccessTime := (em_lastAccessTime (srv_encryption s1))(e := srv_time s1)\<rparr>,
        srv_events := srv_events s1 @ new,
        clientSequence := (clientSequence s1)(i := clientSequence s1 i + 1),
        clientLastPacketSendTime := (clientLastPacketSendTime s1)(i := srv_time s1)\<rparr>)" (is "_ = Some ?s2")
      by blast
    have "srv_inv ?s2" by (rule srv_inv_sent) (use P in blast)+
    moreover have "sent_to i s1 ?s2" unfolding sent_to_def by blast
    ultimately show "\<exists>s'. sendClientPacket C p (int i) s1 = Some s' \<and> ?P (Suc k) s'"
      using P s2 sent_to_trans by auto
  next
    show "?P 0 s" using assms(4,5) sent_to_refl by blast
  qed
  then show ?thesis by auto
qed

text \<open>
  The server after client \<open>i\<close> was disconnected. Every mapping that has an owner, other than client
  \<open>k\<close>, keeps its keys.
\<close>

definition keys_kept :: "int \<Rightarrow> encryptionManager \<Rightarrow> encryptionManager \<Rightarrow> bool" where
  "keys_kept k m m' \<longleftrightarrow> (\<forall>e. em_clientIndex m e \<noteq> -1 \<and> em_clientIndex m e \<noteq> k \<longrightarrow>
     em_sendKey m' e = em_sendKey m e \<and> em_receiveKey m' e = em_receiveKey m e)"

definition disconnected :: "nat \<Rightarrow> int \<Rightarrow> Server \<Rightarrow> Server \<Rightarrow> bool" where
  "disconnected i r s s' \<longleftrightarrow> (\<exists>new em q T.
     s' = cleared_slot i (s\<lparr>clientDisconnectReason := (clientDisconnectReason s)(i := r), srv_events := srv_events s @ new,
       clientSequence := (clientSequence s)(i := q), clientLastPacketSendTime := (clientLastPacketSendTime s)(i := T),
       clientReplayProtection := (clientReplayProtection s)(i := replay_reset (clientReplayProtection s i)),
       srv_encryption := em\<rparr>) \<and> keys_kept (int i) (srv_encryption s) em)"

lemma srv_inv_released:
  assumes "srv_inv s" and "network_client s i" and "clientEncryptionIndex s i = int e"
  defines "em2 \<equiv> snd (removeEncryptionMapping ((srv_encryption s)\<lparr>em_clientIndex :=
      (em_clientIndex (srv_encryption s))(e := -1)\<rparr>) (clientAddress s i) (srv_time s))"
  shows "srv_inv (cleared_slot i (s\<lparr>clientReplayProtection :=
      (clientReplayProtection s)(i := replay_reset (clientReplayProtection s i)), srv_encryption := em2\<rparr>))"
proof -
  let ?s = "s\<lparr>clientReplayProtection := (clientReplayProtection s)(i := replay_reset (clientReplayProtection s i)),
      srv_encryption := em2\<rparr>"
  note R = release_keys[where t = "srv_time s", OF assms(1-3), folded em2_def]
  note K = srv_invD(2)[OF assms(1)]
  have slots: "slots_inv (cleared_slot i ?s)"
    by (rule slots_inv_cleared) (use srv_invD(1)[OF assms(1)] assms(2) in \<open>simp_all add: slots_inv_def\<close>)
  have fresh: "fresh_inv (cleared_slot i ?s)"
    by (rule fresh_inv_cleared) (use srv_invD(4)[OF assms(1)] in \<open>simp_all add: fresh_inv_def\<close>)
  have apart: "apart_inv (cleared_slot i ?s)"
    by (rule apart_inv_cleared) (use srv_invD(5)[OF assms(1)] in \<open>simp add: apart_inv_def\<close>)
  have history: "history_inv (cleared_slot i ?s)"
    using srv_invD(3)[OF assms(1)] R(3) unfolding history_inv_def by simp metis
  have keys: "keys_inv (cleared_slot i ?s)"
    unfolding keys_inv_def
  proof (intro conjI allI impI)
    show "em_inv (srv_encryption (cleared_slot i ?s))" using R(1) by simp
  next
    fix j assume "network_client (cleared_slot i ?s) j"
    then have j: "network_client s j" "j \<noteq> i" by (auto split: if_splits)
    from network_clientD[OF K j(1)] obtain e' where e': "e' < 1024" "clientEncryptionIndex s j = int e'"
      "Equal (em_address (srv_encryption s) e') (clientAddress s j)" "em_clientIndex (srv_encryption s) e' = int j" .
    have "e' \<noteq> e"
      using e'(4) j(2) network_clientD[OF K assms(2)] assms(3) by (metis of_nat_eq_iff)
    with e' j R(2) R(4)[OF j e'(2)]
    show "\<exists>e'<1024. clientEncryptionIndex (cleared_slot i ?s) j = int e' \<and>
        Equal (em_address (srv_encryption (cleared_slot i ?s)) e') (clientAddress (cleared_slot i ?s) j) \<and>
        em_clientIndex (srv_encryption (cleared_slot i ?s)) e' = int j"
      by (intro exI[of _ e']) simp
  next
    fix e' assume "em_clientIndex (srv_encryption (cleared_slot i ?s)) e' \<noteq> -1"
    then have e': "e' \<noteq> e" "em_clientIndex (srv_encryption s) e' \<noteq> -1" using R(2) by (auto split: if_splits)
    with K obtain j where j: "em_clientIndex (srv_encryption s) e' = int j" "network_client s j"
      "clientEncryptionIndex s j = int e'" by (auto simp: keys_inv_def)
    with e'(1) assms(3) have "j \<noteq> i" by auto
    with j R(2) e'(1) show "\<exists>j. em_clientIndex (srv_encryption (cleared_slot i ?s)) e' = int j \<and>
        network_client (cleared_slot i ?s) j \<and> clientEncryptionIndex (cleared_slot i ?s) j = int e'"
      by (intro exI[of _ j]) simp
  qed
  from slots keys history fresh apart show ?thesis by (rule srv_invI)
qed

lemma released_keys_kept:
  assumes "srv_inv s" and "network_client s i" and "clientEncryptionIndex s i = int e"
  shows "keys_kept (int i) (srv_encryption s) (snd (removeEncryptionMapping ((srv_encryption s)\<lparr>em_clientIndex :=
      (em_clientIndex (srv_encryption s))(e := -1)\<rparr>) (clientAddress s i) t))"
  unfolding keys_kept_def
proof (intro allI impI)
  fix e' assume e': "em_clientIndex (srv_encryption s) e' \<noteq> -1 \<and> em_clientIndex (srv_encryption s) e' \<noteq> int i"
  with srv_invD(2)[OF assms(1)] obtain j where "network_client s j" "clientEncryptionIndex s j = int e'"
    "em_clientIndex (srv_encryption s) e' = int j" by (auto simp: keys_inv_def)
  with e' release_keys(5)[where t = t, OF assms] show
    "em_sendKey (snd (removeEncryptionMapping ((srv_encryption s)\<lparr>em_clientIndex :=
      (em_clientIndex (srv_encryption s))(e := -1)\<rparr>) (clientAddress s i) t)) e' = em_sendKey (srv_encryption s) e' \<and>
     em_receiveKey (snd (removeEncryptionMapping ((srv_encryption s)\<lparr>em_clientIndex :=
      (em_clientIndex (srv_encryption s))(e := -1)\<rparr>) (clientAddress s i) t)) e' = em_receiveKey (srv_encryption s) e'"
    by metis
qed

lemma notify_events: "\<exists>new. notify k b s = s\<lparr>srv_events := srv_events s @ new\<rparr> \<and> sent_packets new = []"
proof (cases "ConnectDisconnectCallback (srv_config s)")
  case True
  then show ?thesis
    by (intro exI[of _ "[ConnectDisconnectEvent k b]"]) (simp add: notify_def sent_packets_def List.map_filter_def)
next
  case False
  then show ?thesis by (intro exI[of _ "[]"]) (simp add: notify_def)
qed

lemma disconnect_ok:
  assumes "crypto_ok C" and "srv_inv s" and "network_client s i"
  shows "\<exists>s'. disconnectClientInternal C (int i) b r s = Some s' \<and> srv_inv s' \<and> disconnected i r s s' \<and>
    (b \<or> sent_packets (srv_events s') = sent_packets (srv_events s))"
proof -
  have i: "i < 256" using connected_range(1)[OF srv_invD(1)[OF assms(2)]] assms(3) by blast
  define s1 where "s1 = notify (int i) False (s\<lparr>clientDisconnectReason := (clientDisconnectReason s)(i := r)\<rparr>)"
  obtain n1 where s1: "s1 = s\<lparr>clientDisconnectReason := (clientDisconnectReason s)(i := r), srv_events := srv_events s @ n1\<rparr>"
    "sent_packets n1 = []"
    using notify_events[of "int i" False "s\<lparr>clientDisconnectReason := (clientDisconnectReason s)(i := r)\<rparr>"]
    unfolding s1_def by auto
  have inv1: "srv_inv s1" "network_client s1 i"
    using assms(2,3) by (simp_all add: s1 srv_inv_def srv_inv_defs)
  define out where "out = (if b then for_range (\<lambda>_ s. sendClientPacket C ConnectionDisconnect (int i) s) 0 10 s1 else Some s1)"
  obtain s2 where s2: "out = Some s2" "srv_inv s2" "network_client s2 i" "sent_to i s1 s2" "b \<or> s2 = s1"
  proof (cases b)
    case True
    with send_repeatedly[OF assms(1) _ _ inv1, of ConnectionDisconnect 10] that show thesis by (auto simp: out_def)
  next
    case False
    with inv1 sent_to_refl that show thesis by (auto simp: out_def)
  qed
  obtain e where e: "e < 1024" "clientEncryptionIndex s2 i = int e"
    using network_clientD[OF srv_invD(2)[OF s2(2)] s2(3)] by metis
  let ?em = "snd (removeEncryptionMapping ((srv_encryption s2)\<lparr>em_clientIndex :=
      (em_clientIndex (srv_encryption s2))(e := -1)\<rparr>) (clientAddress s2 i) (srv_time s2))"
  let ?s3 = "cleared_slot i (s2\<lparr>clientReplayProtection :=
      (clientReplayProtection s2)(i := replay_reset (clientReplayProtection s2 i)), srv_encryption := ?em\<rparr>)"
  have eq: "disconnectClientInternal C (int i) b r s = Some ?s3"
    using i e s2(1)[unfolded out_def]
    by (cases b) (simp_all add: disconnectClientInternal_def Let_def s1_def[symmetric] resetClientSlot_eq)
  have "srv_inv ?s3" by (rule srv_inv_released[OF s2(2,3) e(2)])
  moreover have "disconnected i r s ?s3"
  proof -
    obtain new L q T where s2_eq: "s2 = s1\<lparr>srv_encryption := (srv_encryption s1)\<lparr>em_lastAccessTime := L\<rparr>,
        srv_events := srv_events s1 @ new, clientSequence := (clientSequence s1)(i := q),
        clientLastPacketSendTime := (clientLastPacketSendTime s1)(i := T)\<rparr>"
      using s2(4) unfolding sent_to_def by blast
    have "?s3 = cleared_slot i (s\<lparr>clientDisconnectReason := (clientDisconnectReason s)(i := r),
       srv_events := srv_events s @ (n1 @ new),
       clientSequence := (clientSequence s)(i := q), clientLastPacketSendTime := (clientLastPacketSendTime s)(i := T),
       clientReplayProtection := (clientReplayProtection s)(i := replay_reset (clientReplayProtection s i)),
       srv_encryption := ?em\<rparr>)"
      by (simp add: s2_eq s1(1))
    moreover have "keys_kept (int i) (srv_encryption s2) ?em" by (rule released_keys_kept[OF s2(2,3) e(2)])
    then have "keys_kept (int i) (srv_encryption s) ?em" by (simp add: keys_kept_def s2_eq s1(1))
    ultimately show ?thesis unfolding disconnected_def by blast
  qed
  moreover have "b \<or> sent_packets (srv_events ?s3) = sent_packets (srv_events s)"
    using s2(5) s1 by auto
  ultimately show ?thesis using eq by blast
qed

text \<open>What no disconnection touches.\<close>

definition same_setup :: "Server \<Rightarrow> Server \<Rightarrow> bool" where
  "same_setup s s' \<longleftrightarrow> running s' = running s \<and> maxClients s' = maxClients s \<and> srv_config s' = srv_config s \<and>
     srv_time s' = srv_time s \<and> connectTokenEntries s' = connectTokenEntries s \<and> challengeKey s' = challengeKey s \<and>
     srv_address s' = srv_address s \<and> srv_address2 s' = srv_address2 s \<and> srv_flags s' = srv_flags s \<and>
     minConnectTokenExpireTimestamp s' = minConnectTokenExpireTimestamp s \<and> globalSequence s' = globalSequence s"

lemma same_setup_refl [simp]: "same_setup s s"
  by (simp add: same_setup_def)

lemma same_setup_trans: "same_setup s s' \<Longrightarrow> same_setup s' s'' \<Longrightarrow> same_setup s s''"
  by (simp add: same_setup_def)

lemma disconnectedD:
  assumes "disconnected i r s s'"
  shows "same_setup s s'" "clientConnected s' = (clientConnected s)(i := False)"
    "clientLoopback s' = (clientLoopback s)(i := False)"
  using assms by (auto simp: disconnected_def same_setup_def)

lemma srv_inv_loopback_cleared:
  assumes "srv_inv s" and "clientLoopback s i"
  shows "srv_inv (cleared_slot i s)"
proof -
  have c: "clientConnected s i" using assms srv_invD(1)[OF assms(1)] by (simp add: slots_inv_def)
  have net: "network_client (cleared_slot i s) j = network_client s j" for j using assms(2) by simp
  have "keys_inv (cleared_slot i s)"
    unfolding keys_inv_def
  proof (intro conjI allI impI)
    show "em_inv (srv_encryption (cleared_slot i s))" using srv_invD(2)[OF assms(1)] by (simp add: keys_inv_def)
  next
    fix j assume "network_client (cleared_slot i s) j"
    then have j: "network_client s j" "j \<noteq> i" using net assms(2) by auto
    from network_clientD[OF srv_invD(2)[OF assms(1)] j(1)] j(2)
    show "\<exists>e<1024. clientEncryptionIndex (cleared_slot i s) j = int e \<and>
        Equal (em_address (srv_encryption (cleared_slot i s)) e) (clientAddress (cleared_slot i s) j) \<and>
        em_clientIndex (srv_encryption (cleared_slot i s)) e = int j"
      by (metis cleared_slot_fields(6,7,12) fun_upd_other)
  next
    fix e assume "em_clientIndex (srv_encryption (cleared_slot i s)) e \<noteq> -1"
    with srv_invD(2)[OF assms(1)] obtain j where j: "em_clientIndex (srv_encryption s) e = int j" "network_client s j"
      "clientEncryptionIndex s j = int e" by (auto simp: keys_inv_def)
    with assms(2) have "j \<noteq> i" by auto
    with j show "\<exists>j. em_clientIndex (srv_encryption (cleared_slot i s)) e = int j \<and>
        network_client (cleared_slot i s) j \<and> clientEncryptionIndex (cleared_slot i s) j = int e"
      by (intro exI[of _ j]) simp
  qed
  moreover have "fresh_inv (cleared_slot i s)"
    by (rule fresh_inv_cleared) (use srv_invD(4)[OF assms(1)] assms(2) in \<open>simp_all add: fresh_inv_def\<close>)
  moreover have "history_inv (cleared_slot i s)" using srv_invD(3)[OF assms(1)] by (simp add: history_inv_def)
  ultimately show ?thesis
    using slots_inv_cleared[OF srv_invD(1)[OF assms(1)] c] apart_inv_cleared[OF srv_invD(5)[OF assms(1)]]
    by (simp add: srv_inv_def)
qed

lemma DisconnectLoopbackClient_ok:
  assumes "srv_inv s"
  shows "\<exists>s'. DisconnectLoopbackClient k s = Some s' \<and> srv_inv s' \<and> same_setup s s' \<and>
    sent_packets (srv_events s') = sent_packets (srv_events s) \<and>
    (if running s \<and> slot_in_range k s \<and> clientConnected s (nat k) \<and> clientLoopback s (nat k)
     then clientConnected s' = (clientConnected s)(nat k := False) \<and> clientLoopback s' = (clientLoopback s)(nat k := False)
     else s' = s)"
proof (cases "running s \<and> slot_in_range k s \<and> clientConnected s (nat k) \<and> clientLoopback s (nat k)")
  case False
  with slot_range[OF srv_invD(1)[OF assms], of k] assms show ?thesis
    by (auto simp: DisconnectLoopbackClient_def)
next
  case True
  have k: "0 \<le> k" "k < 256" using slot_range[OF srv_invD(1)[OF assms], of k] True by auto
  have reset: "resetClientSlot k x = Some (cleared_slot (nat k) x)" for x
    using resetClientSlot_eq[of "nat k" x] k by simp
  let ?s = "s\<lparr>clientDisconnectReason := (clientDisconnectReason s)(nat k := 3)\<rparr>"
  obtain new where new: "notify k False ?s = ?s\<lparr>srv_events := srv_events ?s @ new\<rparr>" "sent_packets new = []"
    using notify_events by blast
  have "DisconnectLoopbackClient k s = Some (cleared_slot (nat k) (notify k False ?s))"
    using True k by (simp add: DisconnectLoopbackClient_def reset)
  moreover have "srv_inv (notify k False ?s)"
    unfolding srv_inv_notify using assms by (simp add: srv_inv_def srv_inv_defs)
  then have "srv_inv (cleared_slot (nat k) (notify k False ?s))"
    by (rule srv_inv_loopback_cleared) (use True in \<open>simp add: new(1)\<close>)
  ultimately show ?thesis using True new by (simp add: same_setup_def)
qed

lemma DisconnectAllClients_ok:
  assumes "crypto_ok C" and "srv_inv s"
  shows "\<exists>s'. DisconnectAllClients C s = Some s' \<and> srv_inv s' \<and> same_setup s s' \<and>
    (running s \<longrightarrow> (\<forall>i. \<not> network_client s' i)) \<and> (\<forall>i. clientConnected s' i \<longrightarrow> clientConnected s i)"
proof (cases "running s")
  case False
  with assms(2) show ?thesis by (simp add: DisconnectAllClients_def)
next
  case True
  let ?n = "nat (maxClients s)"
  let ?P = "\<lambda>n s'. srv_inv s' \<and> same_setup s s' \<and> (\<forall>i<n. \<not> network_client s' i) \<and>
    (\<forall>i. clientConnected s' i \<longrightarrow> clientConnected s i)"
  let ?body = "\<lambda>n server. do {
          i \<leftarrow> idx MaxClients (int n);
          if clientConnected server i \<and> \<not> clientLoopback server i
          then disconnectClientInternal C (int n) True DisconnectReasonServerDisconnect server
          else Some server }"
  have "\<exists>s'. for_range ?body 0 ?n s = Some s' \<and> ?P (0 + ?n) s'"
  proof (rule for_range_inv[where P = ?P])
    fix n s1 assume n: "n < 0 + ?n" and P: "?P n s1"
    have n256: "n < 256" using n maxClients_nat[OF srv_invD(1)[OF assms(2)]] by simp
    show "\<exists>s'. ?body n s1 = Some s' \<and> ?P (Suc n) s'"
    proof (cases "network_client s1 n")
      case net: True
      obtain s2 where s2: "disconnectClientInternal C (int n) True DisconnectReasonServerDisconnect s1 = Some s2"
        "srv_inv s2" "disconnected n DisconnectReasonServerDisconnect s1 s2"
        using disconnect_ok[OF assms(1), of s1 n True DisconnectReasonServerDisconnect] P net by blast
      note D = disconnectedD[OF s2(3)]
      have "?body n s1 = Some s2" using s2(1) n256 net by simp
      moreover have "?P (Suc n) s2"
        using P s2(2) D same_setup_trans[OF _ D(1), of s] by (auto simp: less_Suc_eq split: if_splits)
      ultimately show ?thesis by blast
    next
      case False
      then have "?body n s1 = Some s1" using n256 by auto
      with P False show ?thesis by (auto simp: less_Suc_eq)
    qed
  next
    show "?P 0 s" using assms(2) by simp
  qed
  then obtain s' where s': "for_range ?body 0 ?n s = Some s'" "?P ?n s'" by auto
  have "\<not> network_client s' i" for i
  proof
    assume net: "network_client s' i"
    with connected_range(2)[OF srv_invD(1), of s' i] s'(2) have "int i < maxClients s"
      by (auto simp: same_setup_def)
    with s'(2) net show False by auto
  qed
  with s' True show ?thesis by (auto simp: DisconnectAllClients_def)
qed

lemma DisconnectClient_ok:
  assumes "crypto_ok C" and "srv_inv s"
  shows "\<exists>s'. DisconnectClient C k s = Some s' \<and> srv_inv s' \<and> same_setup s s'"
proof (cases "running s \<and> slot_in_range k s \<and> network_client s (nat k)")
  case False
  with slot_range[OF srv_invD(1)[OF assms(2)], of k] assms(2) show ?thesis
    by (auto simp: DisconnectClient_def)
next
  case True
  have k: "0 \<le> k" "k < 256" using slot_range[OF srv_invD(1)[OF assms(2)], of k] True by auto
  from disconnect_ok[OF assms, of "nat k" True DisconnectReasonServerDisconnect] True k
  obtain s' where "disconnectClientInternal C k True DisconnectReasonServerDisconnect s = Some s'" "srv_inv s'"
    "disconnected (nat k) DisconnectReasonServerDisconnect s s'" by auto
  with True k disconnectedD(1) show ?thesis by (auto simp: DisconnectClient_def)
qed

subsection \<open>Start and stop\<close>

lemma Stop_ok:
  assumes "crypto_ok C" and "srv_inv s"
  shows "\<exists>s'. Stop C s = Some s' \<and> srv_inv s' \<and> \<not> running s' \<and> srv_config s' = srv_config s \<and>
    (running s \<longrightarrow> globalSequence s' = push_bit 63 1)"
proof (cases "running s")
  case False
  with assms(2) show ?thesis by (simp add: Stop_def)
next
  case True
  obtain s1 where s1: "DisconnectAllClients C s = Some s1" "srv_inv s1" "same_setup s s1" "\<forall>i. \<not> network_client s1 i"
    using DisconnectAllClients_ok[OF assms] True by blast
  have run1: "running s1" "maxClients s1 = maxClients s" using s1(3) True by (simp_all add: same_setup_def)
  let ?n = "nat (maxClients s1)"
  let ?body = "\<lambda>n server. do {
            i \<leftarrow> idx MaxClients (int n);
            if clientConnected server i \<and> clientLoopback server i
            then DisconnectLoopbackClient (int n) server else Some server }"
  let ?P = "\<lambda>n s'. srv_inv s' \<and> same_setup s1 s' \<and> (\<forall>i. \<not> network_client s' i) \<and> (\<forall>i<n. \<not> clientConnected s' i)"
  have "\<exists>s'. for_range ?body 0 ?n s1 = Some s' \<and> ?P (0 + ?n) s'"
  proof (rule for_range_inv[where P = ?P])
    fix n s2 assume n: "n < 0 + ?n" and P: "?P n s2"
    have n256: "n < 256" using n maxClients_nat[OF srv_invD(1)[OF s1(2)]] by simp
    show "\<exists>s'. ?body n s2 = Some s' \<and> ?P (Suc n) s'"
    proof (cases "clientConnected s2 n \<and> clientLoopback s2 n")
      case loop: True
      have "running s2 \<and> slot_in_range (int n) s2"
        using P n run1 by (simp add: same_setup_def slot_in_range_def)
      with DisconnectLoopbackClient_ok[of s2 "int n"] P loop obtain s3 where
        s3: "DisconnectLoopbackClient (int n) s2 = Some s3" "srv_inv s3" "same_setup s2 s3"
        "clientConnected s3 = (clientConnected s2)(n := False)" "clientLoopback s3 = (clientLoopback s2)(n := False)"
        by auto
      have "?body n s2 = Some s3" using n256 loop s3(1) by simp
      moreover have "?P (Suc n) s3"
        using P s3 same_setup_trans[OF _ s3(3), of s1] by (auto simp: less_Suc_eq split: if_splits)
      ultimately show ?thesis by blast
    next
      case False
      then have "?body n s2 = Some s2" using n256 by auto
      with P False show ?thesis by (auto simp: less_Suc_eq)
    qed
  next
    show "?P 0 s1" using s1 by simp
  qed
  then obtain s2 where s2: "for_range ?body 0 ?n s1 = Some s2" "?P ?n s2" by auto
  have none: "\<not> clientConnected s2 i" for i
  proof
    assume c: "clientConnected s2 i"
    with connected_range(2)[OF srv_invD(1), of s2 i] s2(2) have "int i < maxClients s1" by (auto simp: same_setup_def)
    with s2(2) c show False by auto
  qed
  let ?s = "s2\<lparr>running := False, maxClients := 0, numConnectedClients := 0, globalSequence := push_bit 63 1,
      challengeSequence := 0, challengeKey := replicate KeyBytes 0,
      connectTokenEntries := connectTokenEntriesReset (connectTokenEntries s2),
      srv_encryption := encryptionManager_reset (srv_encryption s2)\<rparr>"
  have "Stop C s = Some ?s" using True s1(1) s2(1) by (simp add: Stop_def)
  moreover have "slots_inv ?s"
    using none srv_invD(1)[of s2] s2(2) by (auto simp: slots_inv_def)
  moreover have "keys_inv ?s" using none by (simp add: keys_inv_def) (simp add: encryptionManager_reset_def)
  moreover have "history_inv ?s" by (simp add: history_inv_def entries_inv_reset) (simp add: encryptionManager_reset_def)
  moreover have "fresh_inv ?s" using srv_invD(4)[of s2] s2(2) by (simp add: fresh_inv_def)
  moreover have "apart_inv ?s" using none by (simp add: apart_inv_def)
  moreover have "srv_config s2 = srv_config s" using s1(3) s2(2) by (simp add: same_setup_def)
  ultimately show ?thesis using True by (simp add: srv_inv_def)
qed

lemma Start_ok:
  assumes "crypto_ok C" and "srv_inv s" and "length randomKey = 32"
  shows "\<exists>s'. Start C slots now randomKey s = Some s' \<and> srv_inv s' \<and> srv_config s' = srv_config s \<and>
    (0 < slots \<and> slots \<le> 256 \<longrightarrow> running s' \<and> maxClients s' = slots \<and> globalSequence s' = push_bit 63 1 \<and>
       (\<forall>i. \<not> clientConnected s' i) \<and>
       minConnectTokenExpireTimestamp s' = now + of_int (MaxConnectTokenLifetime (srv_config s)))"
proof (cases "slots \<le> 0 \<or> slots > 256")
  case True
  with assms(2) show ?thesis by (auto simp: Start_def)
next
  case False
  obtain s1 where s1: "(if running s then Stop C s else Some s) = Some s1" "srv_inv s1" "\<not> running s1"
    "srv_config s1 = srv_config s"
    using Stop_ok[OF assms(1,2)] assms(2) by (cases "running s") auto
  have none: "\<not> clientConnected s1 i" for i
    using connected_range(3)[OF srv_invD(1)[OF s1(2)], of i] s1(3) by blast
  let ?s = "s1\<lparr>running := True, maxClients := slots, numConnectedClients := 0,
      globalSequence := push_bit 63 1, challengeSequence := 0, challengeKey := randomKey,
      minConnectTokenExpireTimestamp := now + of_int (MaxConnectTokenLifetime (srv_config s1)),
      clientPacketQueue := (\<lambda>i. if int i < slots then packetQueue_clear (clientPacketQueue s1 i) else clientPacketQueue s1 i),
      clientDisconnectReason := (\<lambda>i. if i < MaxClients then DisconnectReasonNone else clientDisconnectReason s1 i)\<rparr>"
  have "Start C slots now randomKey s = Some ?s" using False s1(1) by (simp add: Start_def)
  moreover have "slots_inv ?s"
    using none srv_invD(1)[OF s1(2)] False assms(3) by (auto simp: slots_inv_def)
  moreover have "keys_inv ?s" "history_inv ?s" "apart_inv ?s"
    using srv_invD(2,3,5)[OF s1(2)] by (simp_all add: keys_inv_def history_inv_def apart_inv_def)
  moreover have "fresh_inv ?s" using srv_invD(4)[OF s1(2)] by (simp add: fresh_inv_def)
  ultimately show ?thesis using none s1(4) by (simp add: srv_inv_def)
qed

end
