(* ===== verification/Server_Connect.thy ===== *)
theory Server_Connect
  imports Server_Inv
begin

text \<open>
  The connection handshake keeps the invariant of \<open>Server_Inv\<close> and does not panic: connection
  requests with their challenge or denial, connection responses and the admission of a client. The
  lemmas also say what each handler may change and what it sends.
\<close>

subsection \<open>Connecting\<close>

lemma srv_inv_history:
  assumes "srv_inv s" and "length mac = 16"
    and "connectTokenEntriesFindOrAdd (connectTokenEntries s) a mac ex now t = Some (k, es)"
  shows "srv_inv (s\<lparr>connectTokenEntries := es\<rparr>)"
proof -
  note H = srv_invD(3)[OF assms(1)]
  have inv: "entries_inv (connectTokenEntries s)" using H by (simp add: history_inv_def)
  have "history_inv (s\<lparr>connectTokenEntries := es\<rparr>)"
    using H entries_inv_findOrAdd[OF inv assms(2,3)] findOrAdd_occupied[OF inv assms(2,3)]
    by (auto simp: history_inv_def)
  with assms(1) show ?thesis
    by (simp add: srv_inv_def slots_inv_def keys_inv_def fresh_inv_def apart_inv_def)
qed

text \<open>Adding a mapping for an address no connected client has.\<close>

lemma srv_inv_mapping:
  assumes "srv_inv s" and "length sk = 32" and "length rk = 32"
    and "\<forall>i. \<not> (clientConnected s i \<and> Equal (clientAddress s i) a)"
    and "0 \<le> k" and "k < 2048" and "te_state (connectTokenEntries s (nat k)) \<noteq> 0"
  shows "srv_inv (s\<lparr>srv_encryption := snd (addEncryptionMapping (srv_encryption s) a sk rk t ex tmo k)\<rparr>)"
proof -
  note K = srv_invD(2)[OF assms(1)]
  let ?m = "srv_encryption s"
  have em: "em_inv ?m" using K by (simp add: keys_inv_def)
  show ?thesis
  proof (rule add_cases[OF em assms(2,3), of a t ex tmo k])
    assume "addEncryptionMapping ?m a sk rk t ex tmo k = (False, ?m)"
    with assms(1) show ?thesis by simp
  next
    fix i fresh m'
    assume m': "addEncryptionMapping ?m a sk rk t ex tmo k = (True, m')" "add_slot ?m a t i fresh"
      "em_address m' = (if fresh then (em_address ?m)(i := a) else em_address ?m)"
      "em_clientIndex m' = em_clientIndex ?m"
      "em_connectTokenEntryIndex m' = (em_connectTokenEntryIndex ?m)(i := k)"
    have free: "em_clientIndex ?m i = -1"
      using m'(2) unowned_slot[OF assms(1,4), of i] empty_slot_unowned[OF assms(1), of i]
      by (auto simp: add_slot_def split: if_splits)
    have "em_inv m'" using em_inv_add[OF em assms(2,3), of a t ex tmo k] m'(1) by simp
    moreover have "\<exists>e<1024. clientEncryptionIndex s j = int e \<and> Equal (em_address m' e) (clientAddress s j) \<and>
        em_clientIndex m' e = int j" if "network_client s j" for j
    proof -
      from network_clientD[OF K that] obtain e where e: "e < 1024" "clientEncryptionIndex s j = int e"
        "Equal (em_address ?m e) (clientAddress s j)" "em_clientIndex ?m e = int j" .
      with free have "e \<noteq> i" by auto
      with e m'(3,4) show ?thesis by (intro exI[of _ e]) simp
    qed
    ultimately have "keys_inv (s\<lparr>srv_encryption := m'\<rparr>)"
      using K m'(4) by (simp add: keys_inv_def)
    moreover have "history_inv (s\<lparr>srv_encryption := m'\<rparr>)"
      using srv_invD(3)[OF assms(1)] m'(3,5) assms(5-7) by (auto simp: history_inv_def)
    ultimately show ?thesis
      using assms(1) m'(1) by (simp add: srv_inv_def slots_inv_def fresh_inv_def apart_inv_def)
  qed
qed

lemma keys_kept_refl [simp]: "keys_kept k m m"
  by (simp add: keys_kept_def)

lemma add_keys_kept:
  assumes "srv_inv s" and "length sk = 32" and "length rk = 32"
    and "\<forall>i. \<not> (clientConnected s i \<and> Equal (clientAddress s i) a)"
  shows "keys_kept (-1) (srv_encryption s) (snd (addEncryptionMapping (srv_encryption s) a sk rk t ex tmo k))"
proof -
  let ?m = "srv_encryption s"
  have em: "em_inv ?m" using srv_invD(2)[OF assms(1)] by (simp add: keys_inv_def)
  show ?thesis
  proof (rule add_cases[OF em assms(2,3), of a t ex tmo k])
    assume "addEncryptionMapping ?m a sk rk t ex tmo k = (False, ?m)"
    then show ?thesis by simp
  next
    fix i fresh m'
    assume m': "addEncryptionMapping ?m a sk rk t ex tmo k = (True, m')" "add_slot ?m a t i fresh"
      "em_sendKey m' = (em_sendKey ?m)(i := sk)" "em_receiveKey m' = (em_receiveKey ?m)(i := rk)"
    have "em_clientIndex ?m i = -1"
      using m'(2) unowned_slot[OF assms(1,4), of i] empty_slot_unowned[OF assms(1), of i]
      by (auto simp: add_slot_def split: if_splits)
    with m' show ?thesis by (auto simp: keys_kept_def)
  qed
qed

lemma srv_inv_challenge: "srv_inv (s\<lparr>challengeSequence := q\<rparr>) \<longleftrightarrow> srv_inv s"
  by (simp add: srv_inv_def srv_inv_defs)

lemma challenge_packet_ok:
  assumes "crypto_ok C" and "length key = 32" and "length ud = 256"
  shows "\<exists>d d'. challengeToken_write \<lparr>cht_clientID = x, cht_userData = ud\<rparr> (replicate 300 0) = Some d \<and>
    encryptChallengeToken C d q key = Some (Inr d') \<and> length d' = 300"
  using challenge_roundtrip[OF assms(1,2), of "\<lparr>cht_clientID = x, cht_userData = ud\<rparr>" "replicate 300 0" q] assms(3)
  by (auto simp: cht_ok_def)

text \<open>The reply of the request handler: at most one packet, at most 333 bytes, to the sender.\<close>

definition replied :: "Address \<Rightarrow> nat \<Rightarrow> Server \<Rightarrow> Server \<Rightarrow> bool" where
  "replied from n s s' \<longleftrightarrow> (\<exists>new. srv_events s' = srv_events s @ new \<and>
     (sent_packets new = [] \<or> (\<exists>d. sent_packets new = [(from, d)] \<and> length d \<le> n)))"

lemma replied_refl [simp]: "replied from n s s"
  by (simp add: replied_def)

lemma send_challenge_ok:
  assumes "crypto_ok C" and "srv_inv s" and "length (ctp_serverToClientKey token) = 32"
    and "length (ctp_clientToServerKey token) = 32" and "length (ctp_userData token) = 256"
    and "\<forall>i. \<not> (clientConnected s i \<and> Equal (clientAddress s i) from)"
    and "0 \<le> k" and "k < 2048" and "te_state (connectTokenEntries s (nat k)) \<noteq> 0"
  shows "\<exists>s'. send_challenge C from token k s = Some s' \<and> srv_inv s' \<and> replied from 333 s s' \<and>
    (\<exists>em g q E. keys_kept (-1) (srv_encryption s) em \<and> s' = s\<lparr>srv_encryption := em, challengeSequence := q, srv_events := E, globalSequence := g\<rparr>)"
proof -
  let ?ex = "if sint (ctp_timeoutSeconds token) \<ge> 0 then srv_time s + of_int (sint (ctp_timeoutSeconds token)) else -1"
  obtain ok em where add: "addEncryptionMapping (srv_encryption s) from (ctp_serverToClientKey token)
      (ctp_clientToServerKey token) (srv_time s) ?ex (ctp_timeoutSeconds token) k = (ok, em)"
    by (metis surj_pair)
  have inv: "srv_inv (s\<lparr>srv_encryption := em\<rparr>)"
    using srv_inv_mapping[OF assms(2-4,6-9), of "srv_time s" ?ex "ctp_timeoutSeconds token"] add by simp
  have kept: "keys_kept (-1) (srv_encryption s) em"
    using add_keys_kept[OF assms(2-4,6), of "srv_time s" ?ex "ctp_timeoutSeconds token" k] add by simp
  show ?thesis
  proof (cases ok)
    case False
    then have "send_challenge C from token k s = Some (s\<lparr>srv_encryption := em\<rparr>)"
      using add by (simp add: send_challenge_def)
    moreover have "\<exists>em' g q E. keys_kept (-1) (srv_encryption s) em' \<and> s\<lparr>srv_encryption := em\<rparr> =
        s\<lparr>srv_encryption := em', challengeSequence := q, srv_events := E, globalSequence := g\<rparr>"
      by (intro exI[of _ em] exI[of _ "globalSequence s"] exI[of _ "challengeSequence s"] exI[of _ "srv_events s"]) (simp add: kept)
    ultimately show ?thesis using inv by (simp add: replied_def)
  next
    case True
    have key: "length (challengeKey s) = 32" using srv_invD(1)[OF assms(2)] by (simp add: slots_inv_def)
    obtain d d' where d: "challengeToken_write \<lparr>cht_clientID = ctp_clientID token, cht_userData = ctp_userData token\<rparr>
        (replicate 300 0) = Some d" "encryptChallengeToken C d (challengeSequence s) (challengeKey s) = Some (Inr d')"
      "length d' = 300"
      using challenge_packet_ok[OF assms(1) key assms(5)] by blast
    let ?s = "s\<lparr>srv_encryption := em, challengeSequence := challengeSequence s + 1\<rparr>"
    let ?p = "ConnectionChallenge (challengeSequence s) d'"
    have p: "packet_ok ?p" "\<not> is_request ?p" using d(3) by simp_all
    obtain new where new: "sendGlobalPacket C ?p from (ctp_serverToClientKey token) ?s =
        Some (?s\<lparr>srv_events := srv_events ?s @ new, globalSequence := globalSequence ?s + 1\<rparr>)"
      "sent_packets new = [(from, sealed_packet C ?p (globalSequence ?s) (ctp_serverToClientKey token) (ProtocolID (srv_config ?s)))] \<or> new = []"
      using sendGlobalPacket_ok[OF assms(1,3) p] by blast
    have "length (sealed_packet C ?p (globalSequence ?s) (ctp_serverToClientKey token) (ProtocolID (srv_config ?s))) \<le> 333"
      using length_sealed_packet[OF assms(1)] sequence_bytes(2)[of "globalSequence ?s"] d(3) by simp
    with new(2) have "replied from 333 s (?s\<lparr>srv_events := srv_events ?s @ new, globalSequence := globalSequence ?s + 1\<rparr>)"
      by (auto simp: replied_def)
    moreover have "srv_inv (?s\<lparr>srv_events := srv_events ?s @ new, globalSequence := globalSequence ?s + 1\<rparr>)"
      using inv by (simp only: srv_inv_global srv_inv_challenge)
    moreover have "send_challenge C from token k s =
        Some (?s\<lparr>srv_events := srv_events ?s @ new, globalSequence := globalSequence ?s + 1\<rparr>)"
      using True add d new(1) by (simp add: send_challenge_def)
    ultimately show ?thesis using kept by blast
  qed
qed

lemma denied_ok:
  assumes "crypto_ok C" and "srv_inv s" and "length key = 32"
  shows "\<exists>s'. sendGlobalPacket C ConnectionDenied from key s = Some s' \<and> srv_inv s' \<and> replied from 25 s s' \<and>
    (\<exists>E g. s' = s\<lparr>srv_events := E, globalSequence := g\<rparr>)"
proof -
  obtain new where new: "sendGlobalPacket C ConnectionDenied from key s =
      Some (s\<lparr>srv_events := srv_events s @ new, globalSequence := globalSequence s + 1\<rparr>)"
    "sent_packets new = [(from, sealed_packet C ConnectionDenied (globalSequence s) key (ProtocolID (srv_config s)))] \<or> new = []"
    using sendGlobalPacket_ok[OF assms(1,3), of ConnectionDenied "from" s] by auto
  have "length (sealed_packet C ConnectionDenied (globalSequence s) key (ProtocolID (srv_config s))) \<le> 25"
    using length_sealed_packet[OF assms(1)] sequence_bytes(2)[of "globalSequence s"] by simp
  with new assms(2) show ?thesis
    by (auto simp: replied_def srv_inv_global)
qed

lemma replied_le: "replied from n s s' \<Longrightarrow> n \<le> m \<Longrightarrow> replied from m s s'"
  by (fastforce simp: replied_def)

text \<open>What the request handler may change, and what it does to the history.\<close>

definition requested :: "Address \<Rightarrow> connectionRequest \<Rightarrow> u64 \<Rightarrow> Server \<Rightarrow> Server \<Rightarrow> bool" where
  "requested from req now s s' \<longleftrightarrow>
     (\<exists>es em q E g. keys_kept (-1) (srv_encryption s) em \<and> s' = s\<lparr>connectTokenEntries := es, srv_encryption := em, challengeSequence := q,
        srv_events := E, globalSequence := g\<rparr>) \<and>
     (connectTokenEntries s' = connectTokenEntries s \<or>
      (\<exists>k. connectTokenEntriesFindOrAdd (connectTokenEntries s) from (drop 1008 (req_connectTokenData req))
         (req_connectTokenExpireTimestamp req) now (srv_time s) = Some (k, connectTokenEntries s')))"

lemma requested_refl: "requested from req now s s"
proof -
  have "s = s\<lparr>connectTokenEntries := connectTokenEntries s, srv_encryption := srv_encryption s,
      challengeSequence := challengeSequence s, srv_events := srv_events s, globalSequence := globalSequence s\<rparr>" by simp
  then show ?thesis unfolding requested_def using keys_kept_refl by blast
qed

lemma requested_after_history:
  assumes "connectTokenEntriesFindOrAdd (connectTokenEntries s) from (drop 1008 (req_connectTokenData req))
         (req_connectTokenExpireTimestamp req) now (srv_time s) = Some (k, es)"
    and "s' = s\<lparr>connectTokenEntries := es, srv_encryption := em, challengeSequence := q, srv_events := E, globalSequence := g\<rparr>"
    and "keys_kept (-1) (srv_encryption s) em"
  shows "requested from req now s s'"
  unfolding requested_def using assms(1) by (intro conjI exI[of _ es] exI[of _ em] exI[of _ q] exI[of _ E] exI[of _ g]) (simp_all add: assms(2,3))

lemma request_ok:
  assumes "crypto_ok C" and "srv_inv s" and "length (req_connectTokenData req) = 1024"
  shows "\<exists>s'. processConnectionRequestPacket C now from req s = Some s' \<and> srv_inv s' \<and> replied from 333 s s' \<and>
    requested from req now s s'"
proof -
  obtain err token where read: "connectTokenPrivate_read zeroConnectTokenPrivate (req_connectTokenData req) = Some (err, token)"
    and ok: "err = None \<Longrightarrow> length (ctp_clientToServerKey token) = 32 \<and> length (ctp_serverToClientKey token) = 32 \<and>
      length (ctp_userData token) = 256"
    using connectTokenPrivate_read_total[of zeroConnectTokenPrivate "req_connectTokenData req"] by auto
  let ?mac = "drop 1008 (req_connectTokenData req)"
  have mac: "length ?mac = 16" using assms(3) by simp
  have es: "entries_inv (connectTokenEntries s)" using srv_invD(3)[OF assms(2)] by (simp add: history_inv_def)
  obtain k es' where add: "connectTokenEntriesFindOrAdd (connectTokenEntries s) from ?mac
      (req_connectTokenExpireTimestamp req) now (srv_time s) = Some (k, es')"
    using findOrAdd_eq[OF es mac] by (metis surj_pair)
  let ?s = "s\<lparr>connectTokenEntries := es'\<rparr>"
  have inv: "srv_inv ?s" by (rule srv_inv_history[OF assms(2) mac add])
  show ?thesis
  proof (cases "err \<noteq> None \<or> \<not> found_server_address token s \<or> findClientIndexByAddress from s \<noteq> -1 \<or>
      findClientIndexByID (ctp_clientID token) s \<noteq> -1")
    case True
    then have "processConnectionRequestPacket C now from req s = Some s"
      by (auto simp: processConnectionRequestPacket_def read)
    with assms(2) requested_refl show ?thesis by auto
  next
    case False
    then have err: "err = None" and addr: "\<forall>i. \<not> (clientConnected s i \<and> Equal (clientAddress s i) from)"
      using findByAddress_cases[OF assms(2), of "from"] by auto
    note keys = ok[OF err]
    have eq: "processConnectionRequestPacket C now from req s =
        (if k = -2 \<or> k = -1 then Some ?s
         else if numConnectedClients s = maxClients s
         then sendGlobalPacket C ConnectionDenied from (ctp_serverToClientKey token) ?s
         else send_challenge C from token k ?s)"
      using False by (auto simp: processConnectionRequestPacket_def read add)
    have unchanged: "?s = s\<lparr>connectTokenEntries := es', srv_encryption := srv_encryption s,
        challengeSequence := challengeSequence s, srv_events := srv_events s, globalSequence := globalSequence s\<rparr>" by simp
    consider "k = -2 \<or> k = -1" | (full) "k \<noteq> -2" "k \<noteq> -1" "numConnectedClients s = maxClients s"
      | (room) "k \<noteq> -2" "k \<noteq> -1" "numConnectedClients s \<noteq> maxClients s" by blast
    then show ?thesis
    proof cases
      case 1
      with eq inv requested_after_history[OF add unchanged keys_kept_refl] show ?thesis by (auto simp: replied_def)
    next
      case full
      obtain s' E g where s': "sendGlobalPacket C ConnectionDenied from (ctp_serverToClientKey token) ?s = Some s'" "srv_inv s'"
        "replied from 25 ?s s'" "s' = ?s\<lparr>srv_events := E, globalSequence := g\<rparr>"
        using denied_ok[OF assms(1) inv, of "ctp_serverToClientKey token" "from"] keys by blast
      have "s' = s\<lparr>connectTokenEntries := es', srv_encryption := srv_encryption s,
          challengeSequence := challengeSequence s, srv_events := E, globalSequence := g\<rparr>" by (simp add: s'(4))
      from requested_after_history[OF add this keys_kept_refl] s' full eq replied_le[OF s'(3), of 333]
      show ?thesis by (auto simp: replied_def)
    next
      case room
      from findOrAdd_range[OF es mac add] room have k: "0 \<le> k" "k < 2048" "te_state (es' (nat k)) \<noteq> 0" by auto
      obtain s' em g q E where s': "send_challenge C from token k ?s = Some s'" "srv_inv s'" "replied from 333 ?s s'"
        "s' = ?s\<lparr>srv_encryption := em, challengeSequence := q, srv_events := E, globalSequence := g\<rparr>"
        "keys_kept (-1) (srv_encryption s) em"
        using send_challenge_ok[OF assms(1) inv, of token "from" k] keys addr k by auto
      have "s' = s\<lparr>connectTokenEntries := es', srv_encryption := em, challengeSequence := q,
          srv_events := E, globalSequence := g\<rparr>" by (simp add: s'(4))
      from requested_after_history[OF add this s'(5)] s' room eq show ?thesis by (auto simp: replied_def)
    qed
  qed
qed


text \<open>The state in which \<open>connectClient\<close> sends the first keep-alive packet.\<close>

definition joined :: "nat \<Rightarrow> Address \<Rightarrow> u64 \<Rightarrow> nat \<Rightarrow> i32 \<Rightarrow> byte list \<Rightarrow> Server \<Rightarrow> Server" where
  "joined i a x e tmo ud s =
     (let em = srv_encryption s; k = em_connectTokenEntryIndex em e in
      s\<lparr>numConnectedClients := numConnectedClients s + 1,
        srv_encryption := em\<lparr>em_expireTime := (em_expireTime em)(e := -1), em_clientIndex := (em_clientIndex em)(e := int i)\<rparr>,
        clientConnected := (clientConnected s)(i := True),
        clientTimeout := (clientTimeout s)(i := tmo),
        clientEncryptionIndex := (clientEncryptionIndex s)(i := int e),
        clientID := (clientID s)(i := x),
        clientSequence := (clientSequence s)(i := 0),
        clientAddress := (clientAddress s)(i := a),
        clientDisconnectReason := (clientDisconnectReason s)(i := 0),
        clientLastPacketSendTime := (clientLastPacketSendTime s)(i := srv_time s),
        clientLastPacketReceiveTime := (clientLastPacketReceiveTime s)(i := srv_time s),
        clientUserData := (clientUserData s)(i := ud),
        connectTokenEntries := if k \<ge> 0 then connectTokenEntriesConsume (connectTokenEntries s) k
          else connectTokenEntries s\<rparr>)"

lemma connectClient_eq:
  assumes "i < 256" and "e < 1024" and "length (clientUserData s i) = 256" and "length ud = 256"
  shows "connectClient C (int i) a x (int e) tmo ud s = do {
     s \<leftarrow> sendClientPacket C (ConnectionKeepAlive (of_int (int i)) (of_int (maxClients s))) (int i) (joined i a x e tmo ud s);
     Some (notify (int i) True s) }"
  using assms by (simp add: connectClient_def setExpireTime_def getConnectTokenEntryIndex_def joined_def Let_def
      copy_at_def DisconnectReasonNone_def)

lemma joined_fields [simp]:
  "clientConnected (joined i a x e tmo ud s) = (clientConnected s)(i := True)"
  "clientLoopback (joined i a x e tmo ud s) = clientLoopback s"
  "clientEncryptionIndex (joined i a x e tmo ud s) = (clientEncryptionIndex s)(i := int e)"
  "clientAddress (joined i a x e tmo ud s) = (clientAddress s)(i := a)"
  "clientID (joined i a x e tmo ud s) = (clientID s)(i := x)"
  "clientConfirmed (joined i a x e tmo ud s) = clientConfirmed s"
  "clientSequence (joined i a x e tmo ud s) = (clientSequence s)(i := 0)"
  "clientTimeout (joined i a x e tmo ud s) = (clientTimeout s)(i := tmo)"
  "clientUserData (joined i a x e tmo ud s) = (clientUserData s)(i := ud)"
  "clientPacketQueue (joined i a x e tmo ud s) = clientPacketQueue s"
  "clientReplayProtection (joined i a x e tmo ud s) = clientReplayProtection s"
  "clientLastPacketReceiveTime (joined i a x e tmo ud s) = (clientLastPacketReceiveTime s)(i := srv_time s)"
  "clientLastPacketSendTime (joined i a x e tmo ud s) = (clientLastPacketSendTime s)(i := srv_time s)"
  "running (joined i a x e tmo ud s) = running s"
  "maxClients (joined i a x e tmo ud s) = maxClients s"
  "numConnectedClients (joined i a x e tmo ud s) = numConnectedClients s + 1"
  "challengeKey (joined i a x e tmo ud s) = challengeKey s"
  "srv_config (joined i a x e tmo ud s) = srv_config s"
  "srv_time (joined i a x e tmo ud s) = srv_time s"
  "srv_events (joined i a x e tmo ud s) = srv_events s"
  "globalSequence (joined i a x e tmo ud s) = globalSequence s"
  "em_clientIndex (srv_encryption (joined i a x e tmo ud s)) = (em_clientIndex (srv_encryption s))(e := int i)"
  "em_address (srv_encryption (joined i a x e tmo ud s)) = em_address (srv_encryption s)"
  "em_connectTokenEntryIndex (srv_encryption (joined i a x e tmo ud s)) = em_connectTokenEntryIndex (srv_encryption s)"
  "em_sendKey (srv_encryption (joined i a x e tmo ud s)) = em_sendKey (srv_encryption s)"
  "em_receiveKey (srv_encryption (joined i a x e tmo ud s)) = em_receiveKey (srv_encryption s)"
  "em_inv (srv_encryption (joined i a x e tmo ud s)) = em_inv (srv_encryption s)"
  by (simp_all add: joined_def Let_def em_inv_def)

text \<open>What makes a slot and a mapping ready for a new client.\<close>

definition may_join :: "nat \<Rightarrow> Address \<Rightarrow> u64 \<Rightarrow> nat \<Rightarrow> byte list \<Rightarrow> Server \<Rightarrow> bool" where
  "may_join i a x e ud s \<longleftrightarrow> srv_inv s \<and> int i < maxClients s \<and> \<not> clientConnected s i \<and> e < 1024 \<and> length ud = 256 \<and>
     Equal (em_address (srv_encryption s) e) a \<and>
     (\<forall>j. clientConnected s j \<longrightarrow> \<not> Equal (clientAddress s j) a \<and> clientID s j \<noteq> x)"

lemma slots_inv_joined:
  assumes "may_join i a x e ud s" shows "slots_inv (joined i a x e tmo ud s)"
proof -
  have S: "slots_inv s" using assms srv_invD(1) by (simp add: may_join_def)
  have "{j. clientConnected (joined i a x e tmo ud s) j} = insert i {j. clientConnected s j}" by auto
  then have "card {j. clientConnected (joined i a x e tmo ud s) j} = Suc (card {j. clientConnected s j})"
    using finite_connected[OF S] assms by (simp add: may_join_def)
  moreover have "running s" using S assms by (auto simp: slots_inv_def may_join_def split: if_splits)
  ultimately show ?thesis using S assms by (simp add: slots_inv_def may_join_def)
qed

lemma keys_inv_joined:
  assumes "may_join i a x e ud s" shows "keys_inv (joined i a x e tmo ud s)"
proof -
  have inv: "srv_inv s" and J: "int i < maxClients s" "\<not> clientConnected s i" "e < 1024" "Equal (em_address (srv_encryption s) e) a"
    "\<forall>j. \<not> (clientConnected s j \<and> Equal (clientAddress s j) a)"
    using assms by (auto simp: may_join_def)
  note K = srv_invD(2)[OF inv]
  have free: "em_clientIndex (srv_encryption s) e = -1" by (rule unowned_slot[OF inv J(5,4)])
  have loop: "\<not> clientLoopback s i" using srv_invD(1)[OF inv] J(2) by (auto simp: slots_inv_def)
  show ?thesis
    unfolding keys_inv_def
  proof (intro conjI allI impI)
    show "em_inv (srv_encryption (joined i a x e tmo ud s))" using K by (simp add: keys_inv_def)
  next
    fix j assume j: "network_client (joined i a x e tmo ud s) j"
    show "\<exists>e'<1024. clientEncryptionIndex (joined i a x e tmo ud s) j = int e' \<and>
        Equal (em_address (srv_encryption (joined i a x e tmo ud s)) e') (clientAddress (joined i a x e tmo ud s) j) \<and>
        em_clientIndex (srv_encryption (joined i a x e tmo ud s)) e' = int j"
    proof (cases "j = i")
      case True
      with J show ?thesis by simp
    next
      case False
      with j have "network_client s j" by auto
      from network_clientD[OF K this] obtain e' where e': "e' < 1024" "clientEncryptionIndex s j = int e'"
        "Equal (em_address (srv_encryption s) e') (clientAddress s j)" "em_clientIndex (srv_encryption s) e' = int j" .
      with free have "e' \<noteq> e" by auto
      with e' False show ?thesis by simp
    qed
  next
    fix e' assume e': "em_clientIndex (srv_encryption (joined i a x e tmo ud s)) e' \<noteq> -1"
    show "\<exists>j. em_clientIndex (srv_encryption (joined i a x e tmo ud s)) e' = int j \<and> network_client (joined i a x e tmo ud s) j \<and>
        clientEncryptionIndex (joined i a x e tmo ud s) j = int e'"
    proof (cases "e' = e")
      case True
      with loop show ?thesis by simp
    next
      case False
      with e' K obtain j where "em_clientIndex (srv_encryption s) e' = int j" "network_client s j" "clientEncryptionIndex s j = int e'"
        by (auto simp: keys_inv_def)
      with False J(2) show ?thesis by (intro exI[of _ j]) auto
    qed
  qed
qed

lemma srv_inv_joined:
  assumes "may_join i a x e ud s" shows "srv_inv (joined i a x e tmo ud s)"
proof (rule srv_invI[OF slots_inv_joined[OF assms] keys_inv_joined[OF assms]])
  have inv: "srv_inv s" and J: "\<not> clientConnected s i" "length ud = 256"
    "\<forall>j. clientConnected s j \<longrightarrow> \<not> Equal (clientAddress s j) a \<and> clientID s j \<noteq> x"
    using assms by (auto simp: may_join_def)
  note H = srv_invD(3)[OF inv]
  let ?k = "em_connectTokenEntryIndex (srv_encryption s) e"
  have k: "?k = -1 \<or> 0 \<le> ?k \<and> ?k < 2048 \<and> te_state (connectTokenEntries s (nat ?k)) \<noteq> 0"
    using H unfolding history_inv_def by blast
  have es: "connectTokenEntries (joined i a x e tmo ud s) = (if ?k \<ge> 0 then connectTokenEntriesConsume (connectTokenEntries s) ?k
      else connectTokenEntries s)" by (simp add: joined_def Let_def)
  have inv_es: "entries_inv (connectTokenEntries (joined i a x e tmo ud s))"
  proof (cases "0 \<le> ?k")
    case True
    with k have "nat ?k < 2048" "te_state (connectTokenEntries s (nat ?k)) \<noteq> 0" by linarith+
    with True H entries_inv_consume[of "connectTokenEntries s" ?k] show ?thesis by (simp add: es history_inv_def)
  qed (use H in \<open>simp add: es history_inv_def\<close>)
  have "te_state (connectTokenEntries s j) \<noteq> 0 \<Longrightarrow> te_state (connectTokenEntries (joined i a x e tmo ud s) j) \<noteq> 0" for j
    unfolding es by (simp add: connectTokenEntriesConsume_def)
  with inv_es H show "history_inv (joined i a x e tmo ud s)" by (auto simp: history_inv_def)
  show "fresh_inv (joined i a x e tmo ud s)"
    using srv_invD(4)[OF inv] srv_invD(1)[OF inv] J by (auto simp: fresh_inv_def slots_inv_def)
  show "apart_inv (joined i a x e tmo ud s)"
    unfolding apart_inv_def
  proof (intro allI impI)
    fix j k assume jk: "network_client (joined i a x e tmo ud s) j \<and> network_client (joined i a x e tmo ud s) k \<and> j \<noteq> k"
    consider "j = i" "clientConnected s k" | "k = i" "clientConnected s j" | "j \<noteq> i" "k \<noteq> i" "network_client s j" "network_client s k"
      using jk by (auto split: if_splits)
    then show "\<not> Equal (clientAddress (joined i a x e tmo ud s) j) (clientAddress (joined i a x e tmo ud s) k) \<and>
        clientID (joined i a x e tmo ud s) j \<noteq> clientID (joined i a x e tmo ud s) k"
    proof cases
      case 1
      with jk J(3) Equal_sym[of a "clientAddress s k"] show ?thesis by auto
    next
      case 2
      with jk J(3) show ?thesis by auto
    next
      case 3
      with jk srv_invD(5)[OF inv] show ?thesis by (simp add: apart_inv_def)
    qed
  qed
qed


lemma decryptChallengeToken_total:
  assumes "crypto_ok C" and "length sealed = 300"
  shows "\<exists>res. decryptChallengeToken C sealed q key = Some res \<and> (\<forall>out. res = Inr out \<longrightarrow> length out = 300)"
proof -
  let ?n = "replicate 4 0 @ le_encode 8 q"
  obtain res where res: "open_in_place 12 (chacha C) sealed 300 [] ?n key = Some res"
    using open_in_place_total[of 300 sealed ?n 12] assms(2) by fastforce
  moreover have "length out = 300" if "res = Inr out" for out
    using open_in_place_okD[OF crypto_okD(1)[OF assms(1)], of 12 sealed 300 "[]" ?n key out] res that assms(2)
    by auto
  ultimately show ?thesis
    by (auto simp: decryptChallengeToken_def encrypt_defs)
qed

lemma challengeToken_read_total:
  "\<exists>err token'. challengeToken_read token buf = Some (err, token') \<and> (err = None \<longrightarrow> length (cht_userData token') = 256)"
proof (cases "length buf < 300")
  case True
  then show ?thesis by (simp add: challengeToken_read_def)
next
  case False
  then show ?thesis by (simp add: challengeToken_read_def reader_totals advance_def)
qed

lemma connectClient_ok:
  assumes "crypto_ok C" and "may_join i a x e ud s"
  shows "\<exists>s' L q T new. connectClient C (int i) a x (int e) tmo ud s = Some s' \<and> srv_inv s' \<and>
    s' = (let s1 = joined i a x e tmo ud s in
      s1\<lparr>srv_encryption := (srv_encryption s1)\<lparr>em_lastAccessTime := L\<rparr>, srv_events := srv_events s @ new,
        clientSequence := (clientSequence s1)(i := q), clientLastPacketSendTime := (clientLastPacketSendTime s1)(i := T)\<rparr>) \<and>
    (sent_packets new = [] \<or> (\<exists>d. sent_packets new = [(a, d)] \<and> length d \<le> 33))"
proof -
  have J: "srv_inv s" "int i < maxClients s" "e < 1024" "length ud = 256" "\<not> clientConnected s i"
    using assms(2) by (auto simp: may_join_def)
  have i: "i < 256" using maxClients_nat[OF srv_invD(1)[OF J(1)]] J(2) by simp
  let ?p = "ConnectionKeepAlive (of_int (int i)) (of_int (maxClients s))"
  let ?s = "joined i a x e tmo ud s"
  note inv = srv_inv_joined[OF assms(2), of tmo]
  have net: "network_client ?s i" using srv_invD(1)[OF J(1)] J(5) by (auto simp: slots_inv_def)
  have p: "packet_ok ?p" "\<not> is_request ?p" by simp_all
  obtain new e' where send: "sendClientPacket C ?p (int i) ?s =
      Some (?s\<lparr>srv_encryption := (srv_encryption ?s)\<lparr>em_lastAccessTime := (em_lastAccessTime (srv_encryption ?s))(e' := srv_time ?s)\<rparr>,
        srv_events := srv_events ?s @ new,
        clientSequence := (clientSequence ?s)(i := clientSequence ?s i + 1),
        clientLastPacketSendTime := (clientLastPacketSendTime ?s)(i := srv_time ?s)\<rparr>)" (is "_ = Some ?s2")
    and new: "sent_packets new = [(clientAddress ?s i, sealed_packet C ?p (clientSequence ?s i)
       (em_sendKey (srv_encryption ?s) e') (ProtocolID (srv_config ?s)))] \<or> new = []"
    using sendClientPacket_ok[OF assms(1) p inv net] by blast
  obtain n2 where n2: "notify (int i) True ?s2 = ?s2\<lparr>srv_events := srv_events ?s2 @ n2\<rparr>" "sent_packets n2 = []"
    using notify_events by blast
  have "connectClient C (int i) a x (int e) tmo ud s = Some (notify (int i) True ?s2)"
  proof -
    have "length (clientUserData s i) = 256" using srv_invD(4)[OF J(1)] by (simp add: fresh_inv_def)
    from connectClient_eq[OF i J(3) this J(4)] show ?thesis by (simp only: send bind.bind_lunit)
  qed
  moreover have "srv_inv (notify (int i) True ?s2)"
    using srv_inv_sent[OF inv, of i] net by simp
  moreover have "length (sealed_packet C ?p (clientSequence ?s i) (em_sendKey (srv_encryption ?s) e')
      (ProtocolID (srv_config ?s))) \<le> 33"
    using length_sealed_packet[OF assms(1)] sequence_bytes(2)[of "clientSequence ?s i"] by simp
  then have "sent_packets (new @ n2) = [] \<or> (\<exists>d. sent_packets (new @ n2) = [(a, d)] \<and> length d \<le> 33)"
    using new n2(2) by auto
  moreover have "notify (int i) True ?s2 = ?s\<lparr>
      srv_encryption := (srv_encryption ?s)\<lparr>em_lastAccessTime := (em_lastAccessTime (srv_encryption ?s))(e' := srv_time ?s)\<rparr>,
      srv_events := srv_events s @ (new @ n2), clientSequence := (clientSequence ?s)(i := clientSequence ?s i + 1),
      clientLastPacketSendTime := (clientLastPacketSendTime ?s)(i := srv_time ?s)\<rparr>"
    unfolding n2(1) by simp
  ultimately show ?thesis unfolding Let_def by blast
qed

text \<open>
  A connection response either changes nothing but the log and the global sequence number, or
  connects the client whose ID the challenge token carries.
\<close>

definition admitted :: "Address \<Rightarrow> nat \<Rightarrow> nat \<Rightarrow> challengeToken \<Rightarrow> Server \<Rightarrow> Server \<Rightarrow> bool" where
  "admitted a i e token s s' \<longleftrightarrow> may_join i a (cht_clientID token) e (cht_userData token) s \<and>
     (\<exists>L q T new. s' = (let s1 = joined i a (cht_clientID token) e (em_timeout (srv_encryption s) e) (cht_userData token) s in
        s1\<lparr>srv_encryption := (srv_encryption s1)\<lparr>em_lastAccessTime := L\<rparr>, srv_events := srv_events s @ new,
          clientSequence := (clientSequence s1)(i := q), clientLastPacketSendTime := (clientLastPacketSendTime s1)(i := T)\<rparr>))"

lemma response_ok:
  assumes "crypto_ok C" and "srv_inv s" and "running s" and "length tokenData = 300"
    and "encryptionIndex = -1 \<or> (\<exists>e<1024. encryptionIndex = int e \<and> Equal (em_address (srv_encryption s) e) from)"
  shows "\<exists>s'. processConnectionResponsePacket C from q tokenData encryptionIndex s = Some s' \<and> srv_inv s' \<and>
    replied from 33 s s' \<and>
    ((\<exists>E g. s' = s\<lparr>srv_events := E, globalSequence := g\<rparr>) \<or>
     (\<exists>i e token plain. decryptChallengeToken C tokenData q (challengeKey s) = Some (Inr plain) \<and>
        challengeToken_read zeroChallengeToken plain = Some (None, token) \<and> encryptionIndex = int e \<and>
        admitted from i e token s s'))"
proof -
  have self: "\<exists>E g. s = s\<lparr>srv_events := E, globalSequence := g\<rparr>"
    by (intro exI[of _ "srv_events s"] exI[of _ "globalSequence s"]) simp
  have key: "length (challengeKey s) = 32" using srv_invD(1)[OF assms(2)] by (simp add: slots_inv_def)
  obtain result where dec: "decryptChallengeToken C tokenData q (challengeKey s) = Some result"
    and plain: "\<And>d. result = Inr d \<Longrightarrow> length d = 300"
    using decryptChallengeToken_total[OF assms(1,4), of q] by auto
  show ?thesis
  proof (cases result)
    case (Inl err)
    with dec have "processConnectionResponsePacket C from q tokenData encryptionIndex s = Some s"
      by (simp add: processConnectionResponsePacket_def)
    with assms(2) self show ?thesis by (intro exI[of _ s] conjI disjI1) simp_all
  next
    case (Inr d)
    obtain err token where read: "challengeToken_read zeroChallengeToken d = Some (err, token)"
      and ok: "err = None \<Longrightarrow> length (cht_userData token) = 256"
      using challengeToken_read_total[of zeroChallengeToken d] by auto
    show ?thesis
    proof (cases "err \<noteq> None \<or> encryptionIndex = -1 \<or> findClientIndexByAddress from s \<noteq> -1 \<or>
        findClientIndexByID (cht_clientID token) s \<noteq> -1")
      case True
      then have "processConnectionResponsePacket C from q tokenData encryptionIndex s = Some s"
        using dec Inr read assms(5) by (auto simp: processConnectionResponsePacket_def getSendKey_def)
      with assms(2) self show ?thesis by (intro exI[of _ s] conjI disjI1) simp_all
    next
      case False
      then obtain e where e: "e < 1024" "encryptionIndex = int e" "Equal (em_address (srv_encryption s) e) from"
        using assms(5) by auto
      have addr: "\<forall>i. \<not> (clientConnected s i \<and> Equal (clientAddress s i) from)"
        using findByAddress_cases[OF assms(2), of "from"] False by auto
      have ids: "\<forall>i. clientConnected s i \<longrightarrow> clientID s i \<noteq> cht_clientID token"
        using findByID_none[OF assms(2)] False by blast
      let ?key = "em_sendKey (srv_encryption s) e"
      have klen: "length ?key = 32" using srv_invD(2)[OF assms(2)] by (simp add: keys_inv_def em_inv_def)
      have eq: "processConnectionResponsePacket C from q tokenData encryptionIndex s =
          (if numConnectedClients s = maxClients s then sendGlobalPacket C ConnectionDenied from ?key s
           else connectClient C (findFreeClientIndex s) from (cht_clientID token) (int e)
             (em_timeout (srv_encryption s) e) (cht_userData token) s)"
        using False dec Inr read e(1) by (simp add: processConnectionResponsePacket_def getSendKey_def getTimeout_def e(2))
      show ?thesis
      proof (cases "numConnectedClients s = maxClients s")
        case True
        obtain s' where s': "sendGlobalPacket C ConnectionDenied from ?key s = Some s'" "srv_inv s'"
          "replied from 25 s s'" "\<exists>E g. s' = s\<lparr>srv_events := E, globalSequence := g\<rparr>"
          using denied_ok[OF assms(1,2) klen, of "from"] by blast
        have "replied from 33 s s'" by (rule replied_le[OF s'(3)]) simp
        with True eq s' show ?thesis by (intro exI[of _ s'] conjI disjI1) simp_all
      next
        case room: False
        obtain i where i: "findFreeClientIndex s = int i" "int i < maxClients s" "\<not> clientConnected s i"
          using numConnected_less[OF srv_invD(1)[OF assms(2)] room assms(3)] by blast
        have join: "may_join i from (cht_clientID token) e (cht_userData token) s"
          unfolding may_join_def using assms(2) i e addr ids False ok by auto
        from connectClient_ok[OF assms(1) join, of "em_timeout (srv_encryption s) e"]
        obtain s' L q' T new where s': "connectClient C (int i) from (cht_clientID token) (int e)
             (em_timeout (srv_encryption s) e) (cht_userData token) s = Some s'" "srv_inv s'"
          "s' = (let s1 = joined i from (cht_clientID token) e (em_timeout (srv_encryption s) e) (cht_userData token) s in
            s1\<lparr>srv_encryption := (srv_encryption s1)\<lparr>em_lastAccessTime := L\<rparr>, srv_events := srv_events s @ new,
              clientSequence := (clientSequence s1)(i := q'), clientLastPacketSendTime := (clientLastPacketSendTime s1)(i := T)\<rparr>)"
          "sent_packets new = [] \<or> (\<exists>d. sent_packets new = [(from, d)] \<and> length d \<le> 33)" by blast
        have adm: "admitted from i e token s s'" unfolding admitted_def using join s'(3) by blast
        have "replied from 33 s s'" using s'(3,4) by (simp add: replied_def Let_def)
        moreover have "challengeToken_read zeroChallengeToken d = Some (None, token)" using False read by simp
        moreover have "processConnectionResponsePacket C from q tokenData encryptionIndex s = Some s'"
          using eq room i(1) s'(1) by simp
        ultimately show ?thesis using s'(2) adm dec Inr e(2) by blast
      qed
    qed
  qed
qed

end
