(* ===== verification/Server_Step.thy ===== *)
theory Server_Step
  imports Server_Connect
begin

text \<open>
  One packet that arrives at a server: \<open>packet_step\<close> bundles what every such step keeps and what it
  may send, and \<open>readAndProcessPacket_ok\<close> shows it for every sequence of bytes from every address.
  The remaining operations follow: keep-alives, timeouts, updates and the calls of the application.
\<close>

subsection \<open>What a packet from one address leaves alone\<close>

text \<open>Everything a client slot holds, and the keys of its mapping.\<close>

definition slot_view where
  "slot_view i s = ((clientConnected s i, clientLoopback s i, clientConfirmed s i, clientID s i, clientAddress s i),
     (clientEncryptionIndex s i, clientUserData s i, clientTimeout s i, clientSequence s i),
     (clientReplayProtection s i, clientPacketQueue s i, clientLastPacketSendTime s i),
     (clientLastPacketReceiveTime s i, clientDisconnectReason s i))"

definition client_keys :: "nat \<Rightarrow> Server \<Rightarrow> byte list \<times> byte list" where
  "client_keys i s = (em_sendKey (srv_encryption s) (nat (clientEncryptionIndex s i)),
     em_receiveKey (srv_encryption s) (nat (clientEncryptionIndex s i)))"

definition others_kept :: "Address \<Rightarrow> Server \<Rightarrow> Server \<Rightarrow> bool" where
  "others_kept from s s' \<longleftrightarrow> (\<forall>i. clientConnected s i \<and> \<not> Equal (clientAddress s i) from \<longrightarrow>
     slot_view i s' = slot_view i s \<and> (\<not> clientLoopback s i \<longrightarrow> client_keys i s' = client_keys i s))"

text \<open>Connect tokens that were used stay used while they have not expired.\<close>

definition spent_kept :: "u64 \<Rightarrow> Server \<Rightarrow> Server \<Rightarrow> bool" where
  "spent_kept now s s' \<longleftrightarrow> (\<forall>mac e. now < e \<and> token_spent (connectTokenEntries s) mac e \<longrightarrow>
     token_spent (connectTokenEntries s') mac e)"

definition setup_kept :: "Server \<Rightarrow> Server \<Rightarrow> bool" where
  "setup_kept s s' \<longleftrightarrow> running s' = running s \<and> maxClients s' = maxClients s \<and> srv_config s' = srv_config s \<and>
     srv_time s' = srv_time s \<and> challengeKey s' = challengeKey s \<and> srv_address s' = srv_address s \<and>
     srv_address2 s' = srv_address2 s \<and> srv_flags s' = srv_flags s \<and>
     minConnectTokenExpireTimestamp s' = minConnectTokenExpireTimestamp s"

definition packet_step :: "Address \<Rightarrow> nat \<Rightarrow> u64 \<Rightarrow> Server \<Rightarrow> Server \<Rightarrow> bool" where
  "packet_step from n now s s' \<longleftrightarrow> srv_inv s' \<and> replied from n s s' \<and> others_kept from s s' \<and>
     spent_kept now s s' \<and> setup_kept s s'"

lemmas packet_step_defs = packet_step_def others_kept_def spent_kept_def setup_kept_def

lemma packet_step_refl: "srv_inv s \<Longrightarrow> packet_step from n now s s"
  by (simp add: packet_step_defs)

lemma setup_kept_trans: "setup_kept s s' \<Longrightarrow> setup_kept s' s'' \<Longrightarrow> setup_kept s s''"
  by (simp add: setup_kept_def)

text \<open>The mapping of a network client has an owner, so operations that respect owners keep its keys.\<close>

lemma network_client_keys:
  assumes "srv_inv s" and "network_client s i" and "keys_kept k (srv_encryption s) (srv_encryption s')"
    and "k \<noteq> int i" and "clientEncryptionIndex s' i = clientEncryptionIndex s i"
  shows "client_keys i s' = client_keys i s"
proof -
  obtain e where "clientEncryptionIndex s i = int e" "em_clientIndex (srv_encryption s) e = int i"
    using network_clientD[OF srv_invD(2)[OF assms(1)] assms(2)] by metis
  with assms(3-5) show ?thesis by (simp add: client_keys_def keys_kept_def)
qed

lemma cleared_slot_times [simp]:
  "clientLastPacketSendTime (cleared_slot i s) = (clientLastPacketSendTime s)(i := 0)"
  "clientLastPacketReceiveTime (cleared_slot i s) = (clientLastPacketReceiveTime s)(i := 0)"
  "socketIPv4 (cleared_slot i s) = socketIPv4 s" "socketIPv6 (cleared_slot i s) = socketIPv6 s"
  by (simp_all add: cleared_slot_def)

lemma disconnected_others:
  assumes "srv_inv s" and "disconnected i r s s'" and "j \<noteq> i"
  shows "slot_view j s' = slot_view j s \<and> (network_client s j \<longrightarrow> client_keys j s' = client_keys j s)"
proof -
  obtain new em q T where s': "s' = cleared_slot i (s\<lparr>clientDisconnectReason := (clientDisconnectReason s)(i := r),
       srv_events := srv_events s @ new, clientSequence := (clientSequence s)(i := q),
       clientLastPacketSendTime := (clientLastPacketSendTime s)(i := T),
       clientReplayProtection := (clientReplayProtection s)(i := replay_reset (clientReplayProtection s i)),
       srv_encryption := em\<rparr>)" and kept: "keys_kept (int i) (srv_encryption s) em"
    using assms(2) unfolding disconnected_def by blast
  have "client_keys j s' = client_keys j s" if "network_client s j"
    by (rule network_client_keys[OF assms(1) that, of "int i"]) (use kept assms(3) in \<open>simp_all add: s'\<close>)
  with assms(3) show ?thesis by (simp add: s' slot_view_def)
qed

subsection \<open>The handlers as packet steps\<close>

lemma requested_step:
  assumes "srv_inv s" and "srv_inv s'" and "replied from n s s'" and "requested from req now s s'"
    and "length (req_connectTokenData req) = 1024"
  shows "packet_step from n now s s'"
proof -
  obtain es em q E g where s': "s' = s\<lparr>connectTokenEntries := es, srv_encryption := em, challengeSequence := q,
        srv_events := E, globalSequence := g\<rparr>" and kept: "keys_kept (-1) (srv_encryption s) em"
    using assms(4) unfolding requested_def by blast
  have "client_keys i s' = client_keys i s" if "network_client s i" for i
    by (rule network_client_keys[OF assms(1) that, of "-1"]) (use kept in \<open>simp_all add: s'\<close>)
  then have "others_kept from s s'" by (simp add: others_kept_def slot_view_def s')
  moreover have "spent_kept now s s'"
    unfolding spent_kept_def
  proof (intro allI impI)
    fix mac e assume spent: "now < e \<and> token_spent (connectTokenEntries s) mac e"
    have es: "entries_inv (connectTokenEntries s)" using srv_invD(3)[OF assms(1)] by (simp add: history_inv_def)
    from assms(4) consider "connectTokenEntries s' = connectTokenEntries s"
      | k where "connectTokenEntriesFindOrAdd (connectTokenEntries s) from (drop 1008 (req_connectTokenData req))
         (req_connectTokenExpireTimestamp req) now (srv_time s) = Some (k, connectTokenEntries s')"
      unfolding requested_def by blast
    then show "token_spent (connectTokenEntries s') mac e"
    proof cases
      case 1
      with spent show ?thesis by simp
    next
      case 2
      from token_spent_findOrAdd[OF es _ conjunct2[OF spent] conjunct1[OF spent] this] assms(5) show ?thesis by simp
    qed
  qed
  moreover have "setup_kept s s'" by (simp add: setup_kept_def s')
  ultimately show ?thesis using assms(2,3) by (simp add: packet_step_def)
qed

lemma admitted_step:
  assumes "srv_inv s" and "srv_inv s'" and "replied from n s s'" and "admitted from i e token s s'"
  shows "packet_step from n now s s'"
proof -
  let ?s1 = "joined i from (cht_clientID token) e (em_timeout (srv_encryption s) e) (cht_userData token) s"
  obtain L q T new where s': "s' = ?s1\<lparr>srv_encryption := (srv_encryption ?s1)\<lparr>em_lastAccessTime := L\<rparr>,
          srv_events := srv_events s @ new, clientSequence := (clientSequence ?s1)(i := q),
          clientLastPacketSendTime := (clientLastPacketSendTime ?s1)(i := T)\<rparr>"
    and join: "may_join i from (cht_clientID token) e (cht_userData token) s"
    using assms(4) unfolding admitted_def Let_def by blast
  have free: "\<not> clientConnected s i" using join by (simp add: may_join_def)
  have "slot_view j s' = slot_view j s \<and> (network_client s j \<longrightarrow> client_keys j s' = client_keys j s)"
    if "clientConnected s j" for j
  proof -
    have "j \<noteq> i" using that free by auto
    then show ?thesis by (simp add: s' slot_view_def client_keys_def joined_def Let_def)
  qed
  then have "others_kept from s s'" by (simp add: others_kept_def)
  moreover have "spent_kept now s s'"
    by (auto simp: spent_kept_def s' joined_def Let_def token_spent_consume)
  moreover have "setup_kept s s'" by (simp add: setup_kept_def s' joined_def Let_def)
  ultimately show ?thesis using assms(2,3) by (simp add: packet_step_def)
qed

lemma quiet_step:
  assumes "srv_inv s" and "s' = s\<lparr>srv_events := E, globalSequence := g\<rparr>" and "replied from n s s'"
  shows "packet_step from n now s s'"
  using assms(1,3) unfolding packet_step_defs
  by (simp add: assms(2) srv_inv_global slot_view_def client_keys_def)

lemma disconnected_step:
  assumes "srv_inv s" and "srv_inv s'" and "disconnected i r s s'" and "Equal (clientAddress s i) from"
    and "sent_packets (srv_events s') = sent_packets (srv_events s)"
  shows "packet_step from n now s s'"
proof -
  obtain new em q T where s': "s' = cleared_slot i (s\<lparr>clientDisconnectReason := (clientDisconnectReason s)(i := r),
       srv_events := srv_events s @ new, clientSequence := (clientSequence s)(i := q),
       clientLastPacketSendTime := (clientLastPacketSendTime s)(i := T),
       clientReplayProtection := (clientReplayProtection s)(i := replay_reset (clientReplayProtection s i)),
       srv_encryption := em\<rparr>)"
    using assms(3) unfolding disconnected_def by blast
  have "others_kept from s s'"
    unfolding others_kept_def using disconnected_others[OF assms(1,3)] assms(4) by metis
  moreover have "replied from n s s'" using assms(5) by (simp add: replied_def s')
  moreover have "spent_kept now s s'" "setup_kept s s'" by (simp_all add: spent_kept_def setup_kept_def s')
  ultimately show ?thesis using assms(2) by (simp add: packet_step_def)
qed

text \<open>Keep-alive and payload packets.\<close>

lemma srv_inv_received:
  assumes "srv_inv s" and "clientConnected s i"
  shows "srv_inv (note_received i s)"
    "srv_inv (note_received i s\<lparr>clientPacketQueue := (clientPacketQueue s)(i := snd (packetQueue_push (clientPacketQueue s i) p q))\<rparr>)"
proof -
  have "queue_inv (snd (packetQueue_push (clientPacketQueue s i) p q))"
    by (rule queue_inv_push) (use srv_invD(4)[OF assms(1)] in \<open>simp add: fresh_inv_def\<close>)
  then have "fresh_inv (note_received i s\<lparr>clientPacketQueue := (clientPacketQueue s)(i := snd (packetQueue_push (clientPacketQueue s i) p q))\<rparr>)"
    "fresh_inv (note_received i s)"
    using srv_invD(4)[OF assms(1)] assms(2) by (simp_all add: fresh_inv_def note_received_def)
  then show "srv_inv (note_received i s)"
    "srv_inv (note_received i s\<lparr>clientPacketQueue := (clientPacketQueue s)(i := snd (packetQueue_push (clientPacketQueue s i) p q))\<rparr>)"
    using srv_invD[OF assms(1)]
    by (simp_all add: srv_inv_def slots_inv_def keys_inv_def history_inv_def apart_inv_def note_received_def)
qed

lemma own_step:
  assumes "srv_inv s'" and "Equal (clientAddress s i) from"
    and "\<And>j. j \<noteq> i \<Longrightarrow> slot_view j s' = slot_view j s"
    and "srv_encryption s' = srv_encryption s" and "srv_events s' = srv_events s"
    and "connectTokenEntries s' = connectTokenEntries s" and "setup_kept s s'"
  shows "packet_step from n now s s'"
proof -
  have "slot_view j s' = slot_view j s \<and> client_keys j s' = client_keys j s"
    if "\<not> Equal (clientAddress s j) from" for j
  proof -
    have "j \<noteq> i" using that assms(2) by auto
    from assms(3)[OF this] show ?thesis by (simp add: slot_view_def client_keys_def assms(4))
  qed
  with assms show ?thesis by (simp add: packet_step_def others_kept_def spent_kept_def replied_def)
qed

text \<open>Where a packet came from: nowhere known, a mapping of the address, or a client.\<close>

definition origin :: "Address \<Rightarrow> int \<Rightarrow> int \<Rightarrow> Server \<Rightarrow> bool" where
  "origin from k c s \<longleftrightarrow>
     (k = -1 \<or> (\<exists>e<1024. k = int e \<and> Equal (em_address (srv_encryption s) e) from)) \<and>
     (c = -1 \<or> (\<exists>i<256. c = int i \<and> network_client s i \<and> Equal (clientAddress s i) from))"

lemma processPacketInternal_ok:
  assumes "crypto_ok C" and "srv_inv s" and "running s" and "packet_ok p" and "origin from k c s"
    and "n \<ge> (case p of ConnectionRequest _ \<Rightarrow> 333 | ConnectionResponse _ _ \<Rightarrow> 33 | _ \<Rightarrow> 0)"
  shows "\<exists>s'. server_processPacketInternal C now from p q k c s = Some s' \<and> packet_step from n now s s'"
proof (cases p)
  case (ConnectionRequest req)
  then have req: "length (req_connectTokenData req) = 1024" using assms(4) by simp
  obtain s' where s': "processConnectionRequestPacket C now from req s = Some s'" "srv_inv s'" "replied from 333 s s'"
    "requested from req now s s'"
    using request_ok[OF assms(1,2) req] by blast
  have "replied from n s s'" by (rule replied_le[OF s'(3)]) (use assms(6) ConnectionRequest in simp)
  from requested_step[OF assms(2) s'(2) this s'(4) req] s'(1) packet_step_refl[OF assms(2)] ConnectionRequest
  show ?thesis by (simp add: server_processPacketInternal_def)
next
  case (ConnectionResponse tq td)
  then have td: "length td = 300" using assms(4) by simp
  from assms(5) have o: "k = -1 \<or> (\<exists>e<1024. k = int e \<and> Equal (em_address (srv_encryption s) e) from)"
    by (simp add: origin_def)
  obtain s' where s': "processConnectionResponsePacket C from tq td k s = Some s'" "srv_inv s'" "replied from 33 s s'"
    "(\<exists>E g. s' = s\<lparr>srv_events := E, globalSequence := g\<rparr>) \<or> (\<exists>i e token. admitted from i e token s s')"
    using response_ok[OF assms(1-3) td o, of tq] by blast
  have n: "replied from n s s'" by (rule replied_le[OF s'(3)]) (use assms(6) ConnectionResponse in simp)
  have "packet_step from n now s s'"
    using s'(4)
  proof
    assume "\<exists>E g. s' = s\<lparr>srv_events := E, globalSequence := g\<rparr>"
    then show ?thesis using quiet_step[OF assms(2) _ n] by blast
  next
    assume "\<exists>i e token. admitted from i e token s s'"
    then show ?thesis using admitted_step[OF assms(2) s'(2) n] by blast
  qed
  with s'(1) packet_step_refl[OF assms(2)] ConnectionResponse show ?thesis
    by (simp add: server_processPacketInternal_def)
next
  case (ConnectionKeepAlive x y)
  show ?thesis
  proof (cases "c = -1")
    case True
    with ConnectionKeepAlive packet_step_refl[OF assms(2)] show ?thesis by (simp add: server_processPacketInternal_def)
  next
    case False
    with assms(5) obtain i where i: "i < 256" "c = int i" "network_client s i" "Equal (clientAddress s i) from"
      by (auto simp: origin_def)
    have "packet_step from n now s (note_received i s)"
      by (rule own_step[OF srv_inv_received(1)[OF assms(2)] i(4)])
        (use i in \<open>simp_all add: note_received_def slot_view_def setup_kept_def\<close>)
    with ConnectionKeepAlive i show ?thesis by (simp add: server_processPacketInternal_def)
  qed
next
  case (ConnectionPayload payload)
  show ?thesis
  proof (cases "c = -1")
    case True
    with ConnectionPayload packet_step_refl[OF assms(2)] show ?thesis by (simp add: server_processPacketInternal_def)
  next
    case False
    with assms(5) obtain i where i: "i < 256" "c = int i" "network_client s i" "Equal (clientAddress s i) from"
      by (auto simp: origin_def)
    have "packet_step from n now s (note_received i s\<lparr>clientPacketQueue :=
        (clientPacketQueue s)(i := snd (packetQueue_push (clientPacketQueue s i) payload q))\<rparr>)"
      by (rule own_step[OF srv_inv_received(2)[OF assms(2)] i(4)])
        (use i in \<open>simp_all add: note_received_def slot_view_def setup_kept_def\<close>)
    moreover have "clientPacketQueue (note_received i s) = clientPacketQueue s" by (simp add: note_received_def)
    ultimately show ?thesis using ConnectionPayload i by (simp add: server_processPacketInternal_def Let_def)
  qed
next
  case ConnectionDisconnect
  show ?thesis
  proof (cases "c = -1")
    case True
    with ConnectionDisconnect packet_step_refl[OF assms(2)] show ?thesis by (simp add: server_processPacketInternal_def)
  next
    case False
    with assms(5) obtain i where i: "i < 256" "c = int i" "network_client s i" "Equal (clientAddress s i) from"
      by (auto simp: origin_def)
    obtain s' where s': "disconnectClientInternal C (int i) False DisconnectReasonClientDisconnect s = Some s'" "srv_inv s'"
      "disconnected i DisconnectReasonClientDisconnect s s'" "sent_packets (srv_events s') = sent_packets (srv_events s)"
      using disconnect_ok[OF assms(1,2) i(3), of False DisconnectReasonClientDisconnect] by blast
    from disconnected_step[OF assms(2) s'(2,3) i(4) s'(4)] s'(1) ConnectionDisconnect i show ?thesis
      by (simp add: server_processPacketInternal_def)
  qed
qed (use packet_step_refl[OF assms(2)] in \<open>simp_all add: server_processPacketInternal_def\<close>)

subsection \<open>Receiving\<close>

lemma others_kept_trans:
  assumes "others_kept from s s1" and "others_kept from s1 s2"
  shows "others_kept from s s2"
  unfolding others_kept_def
proof (intro allI impI)
  fix i assume i: "clientConnected s i \<and> \<not> Equal (clientAddress s i) from"
  with assms(1) have 1: "slot_view i s1 = slot_view i s" "\<not> clientLoopback s i \<longrightarrow> client_keys i s1 = client_keys i s"
    by (simp_all add: others_kept_def)
  then have "clientConnected s1 i \<and> \<not> Equal (clientAddress s1 i) from" "clientLoopback s1 i = clientLoopback s i"
    using i by (simp_all add: slot_view_def)
  with assms(2) 1 show "slot_view i s2 = slot_view i s \<and> (\<not> clientLoopback s i \<longrightarrow> client_keys i s2 = client_keys i s)"
    unfolding others_kept_def by metis
qed

lemma packet_step_trans:
  assumes "packet_step from n now s s1" and "srv_events s1 = srv_events s" and "packet_step from n now s1 s2"
  shows "packet_step from n now s s2"
  using assms others_kept_trans[of "from" s s1 s2] setup_kept_trans[of s s1 s2]
  by (auto simp: packet_step_def spent_kept_def replied_def)

lemma find_cases:
  assumes "em_inv m"
  shows "\<exists>k L. findEncryptionMapping m a t = (k, m\<lparr>em_lastAccessTime := L\<rparr>) \<and>
    (k = -1 \<or> (\<exists>e<1024. k = int e \<and> Equal (em_address m e) a \<and> \<not> entryExpired m e t))"
proof -
  let ?p = "\<lambda>i. Equal (em_address m i) a \<and> \<not> entryExpired m i t"
  let ?k = "find_index ?p (numEncryptionMappings m)"
  show ?thesis
  proof (cases "?k = -1")
    case True
    have "m = m\<lparr>em_lastAccessTime := em_lastAccessTime m\<rparr>" by simp
    moreover have "findEncryptionMapping m a t = (-1, m)"
      using True by (simp add: findEncryptionMapping_def)
    ultimately show ?thesis by metis
  next
    case False
    have k: "0 \<le> ?k" "?p (nat ?k)" using find_index_Some[OF refl False] by blast+
    then have lt: "nat ?k < 1024" using em_inv_Equal[OF assms] by blast
    have "findEncryptionMapping m a t = (?k, m\<lparr>em_lastAccessTime := (em_lastAccessTime m)(nat ?k := t)\<rparr>)"
      using False by (simp only: findEncryptionMapping_def Let_def if_False)
    moreover have "?k = int (nat ?k)" using k(1) by simp
    ultimately show ?thesis using k(2) lt by blast
  qed
qed

lemma touched_step:
  assumes "srv_inv s"
  shows "packet_step from n now s (s\<lparr>srv_encryption := (srv_encryption s)\<lparr>em_lastAccessTime := L\<rparr>\<rparr>)"
    (is "packet_step from n now s ?s")
proof -
  have "srv_inv ?s" using assms by (simp add: srv_inv_def srv_inv_defs em_inv_def)
  then show ?thesis by (simp add: packet_step_defs slot_view_def client_keys_def replied_def)
qed

lemma replay_step:
  assumes "srv_inv s" and "network_client s i" and "Equal (clientAddress s i) from"
  shows "packet_step from n now s (s\<lparr>clientReplayProtection := (clientReplayProtection s)(i := rp)\<rparr>)"
    (is "packet_step from n now s ?s")
proof (rule own_step[OF _ assms(3)])
  have "fresh_inv ?s" using srv_invD(4)[OF assms(1)] assms(2) by (simp add: fresh_inv_def)
  then show "srv_inv ?s"
    using srv_invD[OF assms(1)] by (simp add: srv_inv_def slots_inv_def keys_inv_def history_inv_def apart_inv_def)
qed (simp_all add: slot_view_def setup_kept_def)

text \<open>The state in which the packet is read, and where the packet came from.\<close>

definition lookup_origin :: "Address \<Rightarrow> Server \<Rightarrow> (int \<times> Server) option" where
  "lookup_origin from s =
     (if findClientIndexByAddress from s \<noteq> -1 then do {
        i \<leftarrow> idx MaxClients (findClientIndexByAddress from s);
        Some (clientEncryptionIndex s i, s) }
      else let (e, em) = findEncryptionMapping (srv_encryption s) from (srv_time s)
        in Some (e, s\<lparr>srv_encryption := em\<rparr>))"

lemma if_cong_or: "(if P then a else if Q then a else b) = (if P \<or> Q then a else b)"
  by simp

lemma readAndProcessPacket_eq:
  "readAndProcessPacket C ts now from buf allowed s =
     (if \<not> running s \<or> length buf \<le> 1 then Some s
      else do {
        (k, s1) \<leftarrow> lookup_origin from s;
        key \<leftarrow> getReceiveKey (srv_encryption s1) k;
        if key = None \<and> buf ! 0 \<noteq> 0 then Some s1
        else do {
          replay \<leftarrow> (if findClientIndexByAddress from s \<noteq> -1 then do {
              i \<leftarrow> idx MaxClients (findClientIndexByAddress from s);
              Some (Some (clientReplayProtection s1 i)) }
            else Some None);
          (packet, sequence, replay) \<leftarrow>
            readPacket C buf key (ProtocolID (srv_config s1)) ts
              (minConnectTokenExpireTimestamp s1) (Some (PrivateKey (srv_config s1))) allowed replay;
          let s2 = (case replay of None \<Rightarrow> s1
            | Some rp \<Rightarrow> s1\<lparr>clientReplayProtection := (clientReplayProtection s1)(nat (findClientIndexByAddress from s) := rp)\<rparr>);
          case packet of None \<Rightarrow> Some s2
          | Some p \<Rightarrow> server_processPacketInternal C now from p sequence k (findClientIndexByAddress from s) s2 } })"
  unfolding readAndProcessPacket_def lookup_origin_def Let_def by (rule if_cong_or)

lemma lookup_ok:
  assumes "srv_inv s"
  shows "\<exists>k s1. lookup_origin from s = Some (k, s1) \<and>
    origin from k (findClientIndexByAddress from s) s1 \<and> packet_step from n now s s1 \<and> srv_events s1 = srv_events s \<and>
    clientReplayProtection s1 = clientReplayProtection s \<and> (\<exists>L. s1 = s\<lparr>srv_encryption := (srv_encryption s)\<lparr>em_lastAccessTime := L\<rparr>\<rparr>)"
proof (cases "findClientIndexByAddress from s = -1")
  case True
  have em: "em_inv (srv_encryption s)" using srv_invD(2)[OF assms] by (simp add: keys_inv_def)
  obtain k L where f: "findEncryptionMapping (srv_encryption s) from (srv_time s) =
      (k, (srv_encryption s)\<lparr>em_lastAccessTime := L\<rparr>)"
    "k = -1 \<or> (\<exists>e<1024. k = int e \<and> Equal (em_address (srv_encryption s) e) from)"
    using find_cases[OF em] by metis
  let ?s1 = "s\<lparr>srv_encryption := (srv_encryption s)\<lparr>em_lastAccessTime := L\<rparr>\<rparr>"
  have "origin from k (-1) ?s1" using f(2) by (simp add: origin_def)
  with True f(1) touched_step[OF assms, of "from" n now L] show ?thesis
    by (intro exI[of _ k] exI[of _ ?s1]) (auto simp: lookup_origin_def)
next
  case False
  with findByAddress_cases[OF assms, of "from"] obtain i where i: "i < 256" "findClientIndexByAddress from s = int i"
    "network_client s i" "Equal (clientAddress s i) from" by auto
  from network_clientD[OF srv_invD(2)[OF assms] i(3)] obtain e where e: "e < 1024" "clientEncryptionIndex s i = int e"
    "Equal (em_address (srv_encryption s) e) (clientAddress s i)" .
  have "Equal (em_address (srv_encryption s) e) from" using e(3) i(4) by (rule Equal_trans)
  with e i have "origin from (int e) (int i) s" by (auto simp: origin_def)
  moreover have "\<exists>L. s = s\<lparr>srv_encryption := (srv_encryption s)\<lparr>em_lastAccessTime := L\<rparr>\<rparr>"
    by (intro exI[of _ "em_lastAccessTime (srv_encryption s)"]) simp
  ultimately show ?thesis using i e packet_step_refl[OF assms]
    by (intro exI[of _ "int e"] exI[of _ s]) (simp add: lookup_origin_def)
qed

text \<open>Reading a packet and, if it is accepted, handling it.\<close>

lemma read_and_handle_ok:
  assumes "crypto_ok C" and "srv_inv s" and "running s" and "origin from k c s"
    and "replay = (if c = -1 then None else Some (clientReplayProtection s (nat c)))"
  shows "\<exists>s'. do {
          (packet, sequence, replay) \<leftarrow> readPacket C buf key pid ts minE priv allowed replay;
          let s1 = (case replay of None \<Rightarrow> s
            | Some rp \<Rightarrow> s\<lparr>clientReplayProtection := (clientReplayProtection s)(nat c := rp)\<rparr>);
          case packet of None \<Rightarrow> Some s1
          | Some p \<Rightarrow> server_processPacketInternal C now from p sequence k c s1 } = Some s' \<and>
    packet_step from (min 333 (length buf)) now s s'"
proof -
  have c: "c = -1 \<or> (\<exists>i<256. c = int i \<and> network_client s i \<and> Equal (clientAddress s i) from)"
    using assms(4) by (simp add: origin_def)
  define upd where "upd = (\<lambda>r. case r of None \<Rightarrow> s
      | Some rp \<Rightarrow> s\<lparr>clientReplayProtection := (clientReplayProtection s)(nat c := rp)\<rparr>)"
  have upd: "packet_step from (min 333 (length buf)) now s (upd r)" "srv_events (upd r) = srv_events s" "running (upd r)"
    "origin from k c (upd r)" if "r = None \<longleftrightarrow> c = -1" for r
  proof -
    show "packet_step from (min 333 (length buf)) now s (upd r)"
      using c that replay_step[OF assms(2)] packet_step_refl[OF assms(2)]
      by (auto simp: upd_def split: option.splits)
    show "srv_events (upd r) = srv_events s" "running (upd r)" "origin from k c (upd r)"
      using assms(3,4) by (simp_all add: upd_def origin_def split: option.splits)
  qed
  have handle: "\<exists>s'. server_processPacketInternal C now from p q k c (upd r) = Some s' \<and> packet_step from (min 333 (length buf)) now s s'"
    if "r = None \<longleftrightarrow> c = -1" "packet_ok p"
      "min 333 (length buf) \<ge> (case p of ConnectionRequest _ \<Rightarrow> 333 | ConnectionResponse _ _ \<Rightarrow> 33 | _ \<Rightarrow> 0)" for p q r
  proof -
    note u = upd[OF that(1)]
    have "srv_inv (upd r)" using u(1) by (simp add: packet_step_def)
    from processPacketInternal_ok[OF assms(1) this u(3) that(2) u(4) that(3), of now q]
      packet_step_trans[OF u(1,2)] show ?thesis by blast
  qed
  have none: "replay = None \<longleftrightarrow> c = -1" using assms(5) by simp
  show ?thesis
  proof (rule readPacket_cases[OF assms(1), of buf key pid ts minE priv allowed replay])
    fix q assume "readPacket C buf key pid ts minE priv allowed replay = Some (None, q, replay)"
    then show ?thesis using upd(1)[OF none] by (simp add: upd_def)
  next
    fix req assume req: "readPacket C buf key pid ts minE priv allowed replay = Some (Some (ConnectionRequest req), 0, replay)"
      "request_accept C buf pid ts minE priv allowed req"
    then have "packet_ok (ConnectionRequest req)" "min 333 (length buf) \<ge> 333" by (auto simp: request_accept_def)
    with handle[OF none, of "ConnectionRequest req" 0] req(1) show ?thesis by (simp add: upd_def)
  next
    fix p q b rest assume p: "readPacket C buf key pid ts minE priv allowed replay = Some (p, q, replay_mark replay (b AND 0xF) q)"
      "encrypted_accept C buf key pid allowed replay p q"
    let ?r = "replay_mark replay (b AND 0xF) q"
    have r: "?r = None \<longleftrightarrow> c = -1" using none by (cases replay) (simp_all add: replay_mark_def)
    show ?thesis
    proof (cases p)
      case None
      with p(1) upd(1)[OF r] show ?thesis by (simp add: upd_def)
    next
      case (Some p')
      note l = accepted_length[OF p(2)[unfolded Some] assms(1)]
      have "min 333 (length buf) \<ge> (case p' of ConnectionRequest _ \<Rightarrow> 333 | ConnectionResponse _ _ \<Rightarrow> 33 | _ \<Rightarrow> 0)"
        using l by (cases p') (simp_all add: is_request_def)
      from handle[OF r l(2) this, of q] p(1) Some show ?thesis by (simp add: upd_def)
    qed
  qed
qed

lemma readAndProcessPacket_ok:
  assumes "crypto_ok C" and "srv_inv s"
  shows "\<exists>s'. readAndProcessPacket C ts now from buf allowed s = Some s' \<and> packet_step from (min 333 (length buf)) now s s'"
proof (cases "\<not> running s \<or> length buf \<le> 1")
  case True
  with packet_step_refl[OF assms(2)] show ?thesis by (auto simp: readAndProcessPacket_def)
next
  case run: False
  let ?c = "findClientIndexByAddress from s"
  obtain k s1 where s1: "lookup_origin from s = Some (k, s1)" "origin from k ?c s1"
    "packet_step from (min 333 (length buf)) now s s1" "srv_events s1 = srv_events s"
    using lookup_ok[OF assms(2), of "from" "min 333 (length buf)" now] by blast
  obtain key where key: "getReceiveKey (srv_encryption s1) k = Some key"
    using s1(2) by (auto simp: origin_def getReceiveKey_def)
  have inv1: "srv_inv s1" "running s1" using s1(3) run by (simp_all add: packet_step_def setup_kept_def)
  let ?replay = "if ?c = -1 then None else Some (clientReplayProtection s1 (nat ?c))"
  have replay: "(if ?c \<noteq> -1 then do {
              i \<leftarrow> idx MaxClients ?c;
              Some (Some (clientReplayProtection s1 i)) }
            else Some None) = Some ?replay"
    using s1(2) by (auto simp: origin_def)
  show ?thesis
  proof (cases "key = None \<and> buf ! 0 \<noteq> 0")
    case True
    then have "readAndProcessPacket C ts now from buf allowed s = Some s1"
      using run key by (simp add: readAndProcessPacket_eq s1(1))
    with s1(3) show ?thesis by blast
  next
    case False
    obtain s' where s': "do {
          (packet, sequence, replay) \<leftarrow> readPacket C buf key (ProtocolID (srv_config s1)) ts
              (minConnectTokenExpireTimestamp s1) (Some (PrivateKey (srv_config s1))) allowed ?replay;
          let s2 = (case replay of None \<Rightarrow> s1
            | Some rp \<Rightarrow> s1\<lparr>clientReplayProtection := (clientReplayProtection s1)(nat ?c := rp)\<rparr>);
          case packet of None \<Rightarrow> Some s2
          | Some p \<Rightarrow> server_processPacketInternal C now from p sequence k ?c s2 } = Some s'"
      "packet_step from (min 333 (length buf)) now s1 s'"
      using read_and_handle_ok[OF assms(1) inv1 s1(2) refl] by blast
    have "readAndProcessPacket C ts now from buf allowed s = Some s'"
    proof -
      have g: "(\<not> running s \<or> length buf \<le> 1) = False" "(key = None \<and> buf ! 0 \<noteq> 0) = False"
        using run False by blast+
      show ?thesis
        unfolding readAndProcessPacket_eq
        by (simp only: g if_False s1(1) bind.bind_lunit prod.case key replay s'(1))
    qed
    with packet_step_trans[OF s1(3,4) s'(2)] show ?thesis by blast
  qed
qed


subsection \<open>Keep-alives\<close>

text \<open>What the transport of a server makes of a packet.\<close>

definition delivered :: "Server \<Rightarrow> Address \<Rightarrow> byte list \<Rightarrow> (Address \<times> byte list) list" where
  "delivered s to d = sent_packets (sendPacketToAddress (NetworkSimulator (srv_config s))
     (OverrideSendAndReceive (srv_config s) \<and> SendPacketOverride (srv_config s))
     (socket_sends (socketIPv4 s)) (socket_sends (socketIPv6 s)) (srv_address s) to d [])"

lemma server_transmit_exact:
  assumes "n \<le> length d"
  shows "\<exists>new. server_transmit to n d s = Some (s\<lparr>srv_events := srv_events s @ new\<rparr>) \<and>
    sent_packets new = delivered s to (take n d)"
proof -
  let ?send = "sendPacketToAddress (NetworkSimulator (srv_config s))
      (OverrideSendAndReceive (srv_config s) \<and> SendPacketOverride (srv_config s))
      (socket_sends (socketIPv4 s)) (socket_sends (socketIPv6 s)) (srv_address s) to (take n d)"
  have "server_transmit to n d s = Some (s\<lparr>srv_events := srv_events s @ ?send []\<rparr>)"
    unfolding server_transmit_def using assms
    by (subst sendPacketToAddress_events) simp
  then show ?thesis by (auto simp: delivered_def)
qed

text \<open>Some packets went to clients; nothing else happened.\<close>

definition sends_only :: "Server \<Rightarrow> (Address \<times> byte list) list \<Rightarrow> Server \<Rightarrow> bool" where
  "sends_only s ps s' \<longleftrightarrow> (\<exists>L new Q T. sent_packets new = ps \<and>
     s' = s\<lparr>srv_encryption := (srv_encryption s)\<lparr>em_lastAccessTime := L\<rparr>, srv_events := srv_events s @ new,
       clientSequence := Q, clientLastPacketSendTime := T\<rparr>)"

lemma sends_only_refl: "sends_only s [] s"
proof -
  have "s = s\<lparr>srv_encryption := (srv_encryption s)\<lparr>em_lastAccessTime := em_lastAccessTime (srv_encryption s)\<rparr>,
      srv_events := srv_events s @ [], clientSequence := clientSequence s,
      clientLastPacketSendTime := clientLastPacketSendTime s\<rparr>" by simp
  then show ?thesis unfolding sends_only_def using sent_packets_Nil by blast
qed

lemma sends_only_trans:
  assumes "sends_only s ps s1" and "sends_only s1 qs s2"
  shows "sends_only s (ps @ qs) s2"
proof -
  obtain L1 n1 Q1 T1 where 1: "sent_packets n1 = ps"
    "s1 = s\<lparr>srv_encryption := (srv_encryption s)\<lparr>em_lastAccessTime := L1\<rparr>, srv_events := srv_events s @ n1,
       clientSequence := Q1, clientLastPacketSendTime := T1\<rparr>" using assms(1) unfolding sends_only_def by blast
  obtain L2 n2 Q2 T2 where 2: "sent_packets n2 = qs"
    "s2 = s1\<lparr>srv_encryption := (srv_encryption s1)\<lparr>em_lastAccessTime := L2\<rparr>, srv_events := srv_events s1 @ n2,
       clientSequence := Q2, clientLastPacketSendTime := T2\<rparr>" using assms(2) unfolding sends_only_def by blast
  have "s2 = s\<lparr>srv_encryption := (srv_encryption s)\<lparr>em_lastAccessTime := L2\<rparr>, srv_events := srv_events s @ (n1 @ n2),
       clientSequence := Q2, clientLastPacketSendTime := T2\<rparr>"
    by (simp add: 1(2) 2(2))
  moreover have "sent_packets (n1 @ n2) = ps @ qs" by (simp add: 1 2)
  ultimately show ?thesis unfolding sends_only_def by blast
qed

lemma sends_onlyD:
  assumes "sends_only s ps s'"
  shows "clientConnected s' = clientConnected s" "clientLoopback s' = clientLoopback s"
    "clientAddress s' = clientAddress s" "clientEncryptionIndex s' = clientEncryptionIndex s"
    "setup_kept s s'" "connectTokenEntries s' = connectTokenEntries s"
    "clientConfirmed s' = clientConfirmed s" "clientTimeout s' = clientTimeout s"
    "clientLastPacketReceiveTime s' = clientLastPacketReceiveTime s"
    "em_sendKey (srv_encryption s') = em_sendKey (srv_encryption s)"
    "em_receiveKey (srv_encryption s') = em_receiveKey (srv_encryption s)"
    "delivered s' to d = delivered s to d" "srv_time s' = srv_time s" "srv_config s' = srv_config s" "maxClients s' = maxClients s"
    "clientID s' = clientID s" "clientDisconnectReason s' = clientDisconnectReason s"
    "globalSequence s' = globalSequence s"
  using assms unfolding sends_only_def by (auto simp: setup_kept_def delivered_def)

text \<open>The exact form of \<open>sendClientPacket_ok\<close>.\<close>

lemma sendClientPacket_exact:
  assumes "crypto_ok C" and "packet_ok p" and "\<not> is_request p" and "srv_inv s" and "network_client s i"
  shows "\<exists>s'. sendClientPacket C p (int i) s = Some s' \<and> srv_inv s' \<and>
    sends_only s (delivered s (clientAddress s i) (sealed_packet C p (clientSequence s i)
       (fst (client_keys i s)) (ProtocolID (srv_config s)))) s' \<and>
    clientSequence s' = (clientSequence s)(i := clientSequence s i + 1) \<and>
    clientLastPacketSendTime s' = (clientLastPacketSendTime s)(i := srv_time s)"
proof -
  obtain e where e: "e < 1024" "clientEncryptionIndex s i = int e"
    "Equal (em_address (srv_encryption s) e) (clientAddress s i)"
    using network_clientD[OF srv_invD(2)[OF assms(4)] assms(5)] by metis
  have i: "i < 256" using connected_range(1)[OF srv_invD(1)[OF assms(4)]] assms(5) by blast
  let ?em = "(srv_encryption s)\<lparr>em_lastAccessTime := (em_lastAccessTime (srv_encryption s))(e := srv_time s)\<rparr>"
  let ?k = "em_sendKey (srv_encryption s) e"
  have k: "length ?k = 32" using srv_invD(2)[OF assms(4)] by (simp add: keys_inv_def em_inv_def)
  have touch: "touch (srv_encryption s) (int e) (clientAddress s i) (srv_time s) = Some (True, ?em)"
    using e by (simp add: touch_def)
  have key: "getSendKey ?em (int e) = Some (Some ?k)" using e by (simp add: getSendKey_def)
  define m where "m = sealed_packet C p (clientSequence s i) ?k (ProtocolID (srv_config s))"
  define d where "d = m @ drop (length m) (replicate 1300 0)"
  have w: "writePacket C p (replicate 1300 0) (clientSequence s i) ?k (ProtocolID (srv_config s)) = Some (length m, d)"
    unfolding d_def m_def by (rule writePacket_sealed[OF assms(1-3) k]) simp
  have m: "length m \<noteq> 0" "length m \<le> length d" "take (length m) d = m"
    using length_sealed_packet[OF assms(1), of p] by (simp_all add: m_def d_def)
  obtain new where t: "server_transmit (clientAddress s i) (length m) d (s\<lparr>srv_encryption := ?em\<rparr>) =
      Some (s\<lparr>srv_encryption := ?em, srv_events := srv_events s @ new\<rparr>)"
    "sent_packets new = delivered s (clientAddress s i) m"
    using server_transmit_exact[OF m(2), of "clientAddress s i" "s\<lparr>srv_encryption := ?em\<rparr>"] m(3)
    by (auto simp: delivered_def)
  let ?s' = "s\<lparr>srv_encryption := ?em, srv_events := srv_events s @ new,
        clientSequence := (clientSequence s)(i := clientSequence s i + 1),
        clientLastPacketSendTime := (clientLastPacketSendTime s)(i := srv_time s)\<rparr>"
  have eq: "sendClientPacket C p (int i) s = Some ?s'"
    using i m(1) by (simp add: sendClientPacket_def e touch key w t(1))
  have "srv_inv ?s'" by (rule srv_inv_sent[OF assms(4)]) (use assms(5) in blast)
  moreover have "fst (client_keys i s) = ?k" by (simp add: client_keys_def e(2))
  then have "sends_only s (delivered s (clientAddress s i) (sealed_packet C p (clientSequence s i)
       (fst (client_keys i s)) (ProtocolID (srv_config s)))) ?s'"
    unfolding sends_only_def using t(2) by (auto simp: m_def)
  ultimately show ?thesis using eq by (intro exI[of _ ?s']) simp
qed

text \<open>The clients that are due for a keep-alive packet, and that packet.\<close>

definition keep_alive_due :: "Server \<Rightarrow> nat \<Rightarrow> bool" where
  "keep_alive_due s i \<longleftrightarrow> network_client s i \<and> clientLastPacketSendTime s i + 1 / packetSendRate \<le> srv_time s"

definition keep_alive_bytes :: "crypto \<Rightarrow> Server \<Rightarrow> nat \<Rightarrow> byte list" where
  "keep_alive_bytes C s i = sealed_packet C (ConnectionKeepAlive (of_nat i) (of_int (maxClients s)))
     (clientSequence s i) (fst (client_keys i s)) (ProtocolID (srv_config s))"

lemma sendPackets_ok:
  assumes "crypto_ok C" and "srv_inv s"
  shows "\<exists>s'. server_sendPackets C s = Some s' \<and> srv_inv s' \<and>
    sends_only s (if running s then concat (map (\<lambda>i. if keep_alive_due s i
      then delivered s (clientAddress s i) (keep_alive_bytes C s i) else []) [0..<nat (maxClients s)]) else []) s'"
proof (cases "running s")
  case False
  with assms(2) sends_only_refl show ?thesis by (simp add: server_sendPackets_def)
next
  case True
  let ?out = "\<lambda>i. if keep_alive_due s i then delivered s (clientAddress s i) (keep_alive_bytes C s i) else []"
  let ?P = "\<lambda>n s'. srv_inv s' \<and> sends_only s (concat (map ?out [0..<n])) s' \<and>
    (\<forall>i\<ge>n. clientSequence s' i = clientSequence s i \<and> clientLastPacketSendTime s' i = clientLastPacketSendTime s i)"
  let ?body = "\<lambda>n server. do {
          i \<leftarrow> idx MaxClients (int n);
          if clientConnected server i \<and> \<not> clientLoopback server i \<and>
             clientLastPacketSendTime server i + 1 / packetSendRate \<le> srv_time server
          then sendClientPacket C (ConnectionKeepAlive (of_nat n) (of_int (maxClients server))) (int n) server
          else Some server }"
  have "\<exists>s'. for_range ?body 0 (nat (maxClients s)) s = Some s' \<and> ?P (0 + nat (maxClients s)) s'"
  proof (rule for_range_inv[where P = ?P])
    fix n s1 assume n: "n < 0 + nat (maxClients s)" and P: "?P n s1"
    have idx: "n < 256" using n maxClients_nat[OF srv_invD(1)[OF assms(2)]] by simp
    note S = sends_onlyD[OF conjunct1[OF conjunct2[OF P]]]
    have due: "keep_alive_due s1 n = keep_alive_due s n" using P S by (simp add: keep_alive_due_def)
    show "\<exists>s'. ?body n s1 = Some s' \<and> ?P (Suc n) s'"
    proof (cases "keep_alive_due s n")
      case False
      with P idx due show ?thesis by (auto simp: keep_alive_due_def)
    next
      case True
      let ?p = "ConnectionKeepAlive (of_nat n) (of_int (maxClients s1))"
      have net: "network_client s1 n" using True due by (simp add: keep_alive_due_def)
      obtain s2 where s2: "sendClientPacket C ?p (int n) s1 = Some s2" "srv_inv s2"
        "sends_only s1 (delivered s1 (clientAddress s1 n) (sealed_packet C ?p (clientSequence s1 n)
           (fst (client_keys n s1)) (ProtocolID (srv_config s1)))) s2"
        "clientSequence s2 = (clientSequence s1)(n := clientSequence s1 n + 1)"
        "clientLastPacketSendTime s2 = (clientLastPacketSendTime s1)(n := srv_time s1)"
        using sendClientPacket_exact[OF assms(1) _ _ conjunct1[OF P] net, of ?p] by auto
      have bytes: "sealed_packet C ?p (clientSequence s1 n) (fst (client_keys n s1)) (ProtocolID (srv_config s1)) =
          keep_alive_bytes C s n"
        using P S by (simp add: keep_alive_bytes_def client_keys_def)
      have "sends_only s (concat (map ?out [0..<n]) @ ?out n) s2"
        using sends_only_trans[OF conjunct1[OF conjunct2[OF P]] s2(3)[unfolded bytes]] True S(3,12) by simp
      moreover have "\<forall>i\<ge>Suc n. clientSequence s2 i = clientSequence s i \<and>
          clientLastPacketSendTime s2 i = clientLastPacketSendTime s i" using P s2(4,5) by simp
      moreover have "?body n s1 = Some s2" using idx due True s2(1) by (simp add: keep_alive_due_def)
      ultimately show ?thesis using s2(2) by simp
    qed
  next
    show "?P 0 s" using assms(2) sends_only_refl by simp
  qed
  then obtain s' where "for_range ?body 0 (nat (maxClients s)) s = Some s'" "?P (0 + nat (maxClients s)) s'" by blast
  with True show ?thesis by (intro exI[of _ s']) (simp add: server_sendPackets_def)
qed


subsection \<open>Timeouts\<close>

text \<open>A network client whose timeout has passed since its last packet.\<close>

definition silent :: "Server \<Rightarrow> nat \<Rightarrow> bool" where
  "silent s i \<longleftrightarrow> network_client s i \<and> 0 < sint (clientTimeout s i) \<and>
     clientLastPacketReceiveTime s i + of_int (sint (clientTimeout s i)) \<le> srv_time s"

lemma silent_cong: "slot_view i s' = slot_view i s \<Longrightarrow> srv_time s' = srv_time s \<Longrightarrow> silent s' i = silent s i"
  by (simp add: slot_view_def silent_def)

definition timed_out :: "nat \<Rightarrow> Server \<Rightarrow> bool" where
  "timed_out i s \<longleftrightarrow> \<not> clientConnected s i \<and> clientDisconnectReason s i = DisconnectReasonTimedOut"

text \<open>Slots below \<open>n\<close> have been looked at.\<close>

definition timeouts_done :: "nat \<Rightarrow> Server \<Rightarrow> Server \<Rightarrow> bool" where
  "timeouts_done n s s' \<longleftrightarrow> srv_inv s' \<and> setup_kept s s' \<and> connectTokenEntries s' = connectTokenEntries s \<and>
     globalSequence s' = globalSequence s \<and>
     (\<exists>new. srv_events s' = srv_events s @ new \<and> sent_packets new = []) \<and>
     (\<forall>i. if i < n \<and> silent s i then timed_out i s'
       else slot_view i s' = slot_view i s \<and> (network_client s i \<longrightarrow> client_keys i s' = client_keys i s))"

lemma timeouts_done_skip: "timeouts_done n s s' \<Longrightarrow> \<not> silent s n \<Longrightarrow> timeouts_done (Suc n) s s'"
  unfolding timeouts_done_def by (metis less_Suc_eq)

lemma timeouts_done_disconnect:
  assumes "timeouts_done n s s1" and "silent s n" and "srv_inv s2"
    and "disconnected n DisconnectReasonTimedOut s1 s2"
    and "sent_packets (srv_events s2) = sent_packets (srv_events s1)"
  shows "timeouts_done (Suc n) s s2"
proof -
  have inv: "srv_inv s1" using assms(1) by (simp add: timeouts_done_def)
  obtain new em q T where s2: "s2 = cleared_slot n (s1\<lparr>clientDisconnectReason := (clientDisconnectReason s1)(n := DisconnectReasonTimedOut),
       srv_events := srv_events s1 @ new, clientSequence := (clientSequence s1)(n := q),
       clientLastPacketSendTime := (clientLastPacketSendTime s1)(n := T),
       clientReplayProtection := (clientReplayProtection s1)(n := replay_reset (clientReplayProtection s1 n)),
       srv_encryption := em\<rparr>)"
    using assms(4) unfolding disconnected_def by blast
  have own: "timed_out n s2" by (simp add: timed_out_def s2)
  have fixed: "setup_kept s s2" "connectTokenEntries s2 = connectTokenEntries s" "globalSequence s2 = globalSequence s"
    using assms(1) by (simp_all add: timeouts_done_def setup_kept_def s2)
  have log: "\<exists>new. srv_events s2 = srv_events s @ new \<and> sent_packets new = []"
    using assms(1,5) by (auto simp: timeouts_done_def s2)
  have "if i < Suc n \<and> silent s i then timed_out i s2
      else slot_view i s2 = slot_view i s \<and> (network_client s i \<longrightarrow> client_keys i s2 = client_keys i s)" for i
  proof (cases "i = n")
    case True
    with own assms(2) show ?thesis by simp
  next
    case False
    note o = disconnected_others[OF inv assms(4) False]
    have before: "if i < n \<and> silent s i then timed_out i s1
      else slot_view i s1 = slot_view i s \<and> (network_client s i \<longrightarrow> client_keys i s1 = client_keys i s)"
      using assms(1) by (simp add: timeouts_done_def)
    show ?thesis
    proof (cases "i < n \<and> silent s i")
      case True
      with before have "timed_out i s1" by simp
      with o have "timed_out i s2" by (simp add: timed_out_def slot_view_def)
      with True show ?thesis by simp
    next
      case keep: False
      with before have v: "slot_view i s1 = slot_view i s" "network_client s i \<longrightarrow> client_keys i s1 = client_keys i s" by auto
      then have "network_client s1 i = network_client s i" by (simp add: slot_view_def)
      with o v False keep show ?thesis by (auto simp: less_Suc_eq)
    qed
  qed
  with assms(3) fixed log show ?thesis unfolding timeouts_done_def by blast
qed

lemma timeouts_done_start: "srv_inv s \<Longrightarrow> timeouts_done 0 s s"
  by (simp add: timeouts_done_def setup_kept_def)

lemma checkForTimeouts_ok:
  assumes "crypto_ok C" and "srv_inv s"
  shows "\<exists>s'. checkForTimeouts C s = Some s' \<and> timeouts_done (if running s then nat (maxClients s) else 0) s s'"
proof (cases "running s")
  case False
  with timeouts_done_start[OF assms(2)] show ?thesis by (simp add: checkForTimeouts_def)
next
  case True
  let ?body = "\<lambda>n server. do {
          i \<leftarrow> idx MaxClients (int n);
          if \<not> clientConnected server i then Some server
          else if sint (clientTimeout server i) \<le> 0 then Some server
          else if clientLoopback server i then Some server
          else if clientLastPacketReceiveTime server i + of_int (sint (clientTimeout server i)) \<le> srv_time server
          then disconnectClientInternal C (int n) False DisconnectReasonTimedOut server
          else Some server }"
  have "\<exists>s'. for_range ?body 0 (nat (maxClients s)) s = Some s' \<and> timeouts_done (0 + nat (maxClients s)) s s'"
  proof (rule for_range_inv[where P = "\<lambda>n s'. timeouts_done n s s'"])
    fix n s1 assume n: "n < 0 + nat (maxClients s)" and P: "timeouts_done n s s1"
    have idx: "n < 256" using n maxClients_nat[OF srv_invD(1)[OF assms(2)]] by simp
    have view: "slot_view n s1 = slot_view n s" "srv_time s1 = srv_time s" "srv_inv s1"
      using P by (auto simp: timeouts_done_def setup_kept_def dest: spec[of _ n])
    have body: "?body n s1 = (if silent s1 n then disconnectClientInternal C (int n) False DisconnectReasonTimedOut s1
        else Some s1)"
      using idx by (auto simp: silent_def)
    show "\<exists>s'. ?body n s1 = Some s' \<and> timeouts_done (Suc n) s s'"
    proof (cases "silent s n")
      case False
      with timeouts_done_skip[OF P] body silent_cong[OF view(1,2)] show ?thesis by simp
    next
      case True
      then have s1: "silent s1 n" using silent_cong[OF view(1,2)] by simp
      then have net: "network_client s1 n" by (simp add: silent_def)
      obtain s2 where s2: "disconnectClientInternal C (int n) False DisconnectReasonTimedOut s1 = Some s2" "srv_inv s2"
        "disconnected n DisconnectReasonTimedOut s1 s2" "sent_packets (srv_events s2) = sent_packets (srv_events s1)"
        using disconnect_ok[OF assms(1) view(3) net, of False DisconnectReasonTimedOut] by blast
      from timeouts_done_disconnect[OF P True s2(2-4)] s2(1) s1 body show ?thesis by simp
    qed
  next
    show "timeouts_done 0 s s" by (rule timeouts_done_start[OF assms(2)])
  qed
  with True show ?thesis by (simp add: checkForTimeouts_def)
qed

end
