(* ===== verification/Server_Run.thy ===== *)
theory Server_Run
  imports Machine Server_Step
begin

text \<open>
  The calls of the application as data: \<open>srv_exec\<close> executes a call of the interface, with the packets
  that arrive and the clock readings as arguments. The server is interpreted as a machine, so in
  a state that can be reached every call keeps the invariant and panics only on a nil callback.
\<close>

subsection \<open>Updates\<close>

text \<open>
  Packets can be polled for: when they come through the override rather than the simulator or the
  sockets, the receive callback, which is called without a check, is set.
\<close>

definition receives :: "ServerConfig \<Rightarrow> bool" where
  "receives config \<longleftrightarrow> NetworkSimulator config \<or> \<not> OverrideSendAndReceive config \<or> ReceivePacketOverride config"

lemma setup_kept_refl [simp]: "setup_kept s s"
  by (simp add: setup_kept_def)

lemma process_waiting_ok:
  assumes "crypto_ok C" and "srv_inv s"
  shows "\<exists>s'. process_waiting C ts waiting s = Some s' \<and> srv_inv s' \<and> setup_kept s s'"
  using assms(2)
proof (induction waiting arbitrary: s)
  case Nil
  then show ?case by simp
next
  case (Cons w waiting)
  obtain a d now where w: "w = (a, d, now)" by (cases w)
  obtain s1 where s1: "readAndProcessPacket C ts now a d serverAllowedPackets s = Some s1"
    "packet_step a (min 333 (length d)) now s s1"
    using readAndProcessPacket_ok[OF assms(1) Cons.prems] by blast
  then have inv: "srv_inv s1" "setup_kept s s1" by (simp_all add: packet_step_def)
  from Cons.IH[OF inv(1)] s1(1) inv(2) setup_kept_trans show ?case by (fastforce simp: w)
qed

lemma receivePackets_ok:
  assumes "crypto_ok C" and "srv_inv s" and "receives (srv_config s)"
  shows "\<exists>s'. server_receivePackets C ts waiting s = Some s' \<and> srv_inv s' \<and> setup_kept s s'"
  using process_waiting_ok[OF assms(1,2)] assms(3) by (auto simp: server_receivePackets_def receives_def)

lemma srv_inv_time [simp]: "srv_inv (s\<lparr>srv_time := t\<rparr>) \<longleftrightarrow> srv_inv s"
  by (simp add: srv_inv_def srv_inv_defs)

lemma Update_ok:
  assumes "crypto_ok C" and "srv_inv s" and "receives (srv_config s)"
  shows "\<exists>s'. server_Update C t ts waiting s = Some s' \<and> srv_inv s' \<and> setup_kept (s\<lparr>srv_time := t\<rparr>) s'"
proof -
  let ?s0 = "s\<lparr>srv_time := t\<rparr>"
  obtain s1 where s1: "server_receivePackets C ts waiting ?s0 = Some s1" "srv_inv s1" "setup_kept ?s0 s1"
    using receivePackets_ok[OF assms(1), of ?s0] assms(2,3) by auto
  obtain s2 ps where s2: "server_sendPackets C s1 = Some s2" "srv_inv s2" "sends_only s1 ps s2"
    using sendPackets_ok[OF assms(1) s1(2)] by blast
  obtain s3 n where s3: "checkForTimeouts C s2 = Some s3" "timeouts_done n s2 s3"
    using checkForTimeouts_ok[OF assms(1) s2(2)] by blast
  have "setup_kept s1 s2" by (rule sends_onlyD(5)[OF s2(3)])
  with s1(3) s3(2) have "setup_kept ?s0 s3" using setup_kept_trans unfolding timeouts_done_def by blast
  moreover have "srv_inv s3" using s3(2) by (simp add: timeouts_done_def)
  ultimately show ?thesis using s1(1) s2(1) s3(1) by (simp add: server_Update_def Let_def)
qed

lemma Update_receives: "server_Update C t ts waiting s = Some s' \<Longrightarrow> receives (srv_config s)"
  by (auto simp: server_Update_def server_receivePackets_def receives_def Let_def split: if_splits bind_splits)

subsection \<open>The application interface\<close>

lemma sends_only_same_setup: "sends_only s ps s' \<Longrightarrow> same_setup s s'"
  by (auto simp: sends_only_def same_setup_def)

text \<open>A payload for a connected loopback client, whose callback is called without a check, and is nil.\<close>

definition nil_loopback_callback :: "int \<Rightarrow> byte list \<Rightarrow> Server \<Rightarrow> bool" where
  "nil_loopback_callback k d s \<longleftrightarrow> 0 < length d \<and> length d \<le> MaxPacketSize \<and> running s \<and> slot_in_range k s \<and>
     clientConnected s (nat k) \<and> clientLoopback s (nat k) \<and> \<not> SendLoopbackPacketCallback (srv_config s)"

lemma SendPacket_nil_callback: "srv_inv s \<Longrightarrow> nil_loopback_callback k d s \<Longrightarrow> server_SendPacket C k d s = None"
  using slot_range[OF srv_invD(1), of s k] by (auto simp: server_SendPacket_def nil_loopback_callback_def)

lemma SendPacket_ok:
  assumes "crypto_ok C" and "srv_inv s" and "\<not> nil_loopback_callback k d s"
  shows "\<exists>s'. server_SendPacket C k d s = Some s' \<and> srv_inv s' \<and> same_setup s s'"
proof (cases "length d = 0 \<or> length d > 1200 \<or> \<not> running s \<or> \<not> slot_in_range k s \<or> \<not> clientConnected s (nat k)")
  case True
  then show ?thesis
    using assms(2) slot_range[OF srv_invD(1)[OF assms(2)], of k] by (auto simp: server_SendPacket_def)
next
  case False
  then have len: "0 < length d" "length d \<le> 1200" and run: "running s" "slot_in_range k s" and conn: "clientConnected s (nat k)"
    by auto
  define i where "i = nat k"
  have i: "k = int i" "i < 256" using slot_range[OF srv_invD(1)[OF assms(2)] run] by (auto simp: i_def)
  have guard: "d \<noteq> []" "\<not> 1200 < length d" using len by auto
  show ?thesis
  proof (cases "clientLoopback s i")
    case True
    let ?s' = "s\<lparr>srv_events := srv_events s @ [LoopbackPacketEvent k d (clientSequence s i)],
          clientSequence := (clientSequence s)(i := clientSequence s i + 1),
          clientLastPacketSendTime := (clientLastPacketSendTime s)(i := srv_time s)\<rparr>"
    have "fresh_inv ?s'" using srv_invD(4)[OF assms(2)] conn by (simp add: fresh_inv_def i)
    then have "srv_inv ?s'"
      using srv_invD[OF assms(2)] by (simp add: srv_inv_def slots_inv_def keys_inv_def history_inv_def apart_inv_def)
    moreover have "server_SendPacket C k d s = Some ?s'"
      using guard run conn True assms(3) i by (simp add: server_SendPacket_def nil_loopback_callback_def)
    ultimately show ?thesis by (auto simp: same_setup_def)
  next
    case net: False
    then have net_s: "network_client s i" using conn by (simp add: i)
    let ?ka = "ConnectionKeepAlive (of_int k) (of_int (maxClients s))"
    obtain s1 where s1: "(if \<not> clientConfirmed s i then sendClientPacket C ?ka k s else Some s) = Some s1" "srv_inv s1"
      "same_setup s s1" "network_client s1 i"
    proof (cases "clientConfirmed s i")
      case True
      with that[of s] assms(2) net_s show thesis by simp
    next
      case False
      obtain s1 ps where "sendClientPacket C ?ka (int i) s = Some s1" "srv_inv s1" "sends_only s ps s1"
        using sendClientPacket_exact[OF assms(1) _ _ assms(2) net_s, of ?ka] by auto
      with that[of s1] False net_s sends_onlyD[of s ps s1] sends_only_same_setup[of s ps s1] show thesis by (simp add: i)
    qed
    have p: "packet_ok (ConnectionPayload d)" "\<not> is_request (ConnectionPayload d)" using len by (simp_all add: is_request_def Suc_le_eq)
    obtain s2 ps where s2: "sendClientPacket C (ConnectionPayload d) (int i) s1 = Some s2" "srv_inv s2" "sends_only s1 ps s2"
      using sendClientPacket_exact[OF assms(1) p s1(2,4)] by blast
    have "same_setup s s2" using same_setup_trans[OF s1(3) sends_only_same_setup[OF s2(3)]] .
    moreover have "server_SendPacket C k d s = Some s2"
      using guard run conn net i s1(1)[unfolded i(1)] s2(1)
      by (cases "clientConfirmed s i") (simp_all add: server_SendPacket_def)
    ultimately show ?thesis using s2(2) by blast
  qed
qed

lemma SendPacket_kept:
  assumes "crypto_ok C" and "srv_inv s" and "server_SendPacket C k d s = Some s'"
  shows "same_setup s s'"
  using SendPacket_ok[OF assms(1,2), of k d] SendPacket_nil_callback[OF assms(2), of k d C] assms(3)
  by (cases "nil_loopback_callback k d s") auto

lemma srv_inv_queue:
  assumes "srv_inv s" and "clientConnected s i" and "queue_inv q"
  shows "srv_inv (s\<lparr>clientLastPacketReceiveTime := T, clientPacketQueue := (clientPacketQueue s)(i := q)\<rparr>)" (is "srv_inv ?s")
    "srv_inv (s\<lparr>clientPacketQueue := (clientPacketQueue s)(i := q)\<rparr>)" (is "srv_inv ?s2")
proof -
  have "fresh_inv ?s" "fresh_inv ?s2" using srv_invD(4)[OF assms(1)] assms(2,3) by (simp_all add: fresh_inv_def)
  then show "srv_inv ?s" "srv_inv ?s2"
    using srv_invD[OF assms(1)] by (simp_all add: srv_inv_def slots_inv_def keys_inv_def history_inv_def apart_inv_def)
qed

lemma ReceivePacket_ok:
  assumes "srv_inv s"
  shows "\<exists>r s'. server_ReceivePacket k s = Some (r, s') \<and> srv_inv s' \<and> same_setup s s'"
proof (cases "running s \<and> slot_in_range k s \<and> clientConnected s (nat k)")
  case False
  then show ?thesis
    using assms slot_range[OF srv_invD(1)[OF assms], of k] by (auto simp: server_ReceivePacket_def)
next
  case True
  let ?q = "clientPacketQueue s (nat k)"
  obtain payload q s' where pop: "packetQueue_pop ?q = ((payload, q), s')" by (metis surj_pair)
  have "queue_inv ?q" using srv_invD(4)[OF assms] by (simp add: fresh_inv_def)
  then have "queue_inv s'" using queue_inv_pop[of ?q] pop by simp
  from srv_inv_queue(2)[OF assms _ this, of "nat k"] True slot_range[OF srv_invD(1)[OF assms], of k] show ?thesis
    by (auto simp: server_ReceivePacket_def pop same_setup_def Let_def)
qed

lemma ProcessLoopbackPacket_ok:
  assumes "srv_inv s"
  shows "\<exists>s'. server_ProcessLoopbackPacket k d q s = Some s' \<and> srv_inv s' \<and> same_setup s s'"
proof (cases "running s \<and> slot_in_range k s \<and> clientConnected s (nat k) \<and> clientLoopback s (nat k) \<and>
    d \<noteq> [] \<and> length d \<le> 1200")
  case False
  then show ?thesis
    using assms slot_range[OF srv_invD(1)[OF assms], of k] by (auto simp: server_ProcessLoopbackPacket_def)
next
  case True
  let ?q = "snd (packetQueue_push (clientPacketQueue s (nat k)) d q)"
  have "queue_inv ?q" using srv_invD(4)[OF assms] by (simp add: fresh_inv_def)
  from srv_inv_queue(1)[OF assms _ this, of "nat k"] True slot_range[OF srv_invD(1)[OF assms], of k] show ?thesis
    by (auto simp: server_ProcessLoopbackPacket_def same_setup_def)
qed

lemma Close_ok:
  assumes "crypto_ok C" and "srv_inv s"
  shows "\<exists>s'. server_Close C s = Some s' \<and> srv_inv s' \<and> \<not> running s' \<and> srv_config s' = srv_config s"
proof -
  obtain s1 where s1: "Stop C s = Some s1" "srv_inv s1" "\<not> running s1" "srv_config s1 = srv_config s"
    using Stop_ok[OF assms] by blast
  have "srv_inv (s1\<lparr>socketIPv4 := socket_destroy (socketIPv4 s1), socketIPv6 := socket_destroy (socketIPv6 s1)\<rparr>)" using s1(2) by (simp add: srv_inv_def srv_inv_defs)
  with s1 show ?thesis by (simp add: server_Close_def)
qed

lemma ConnectLoopbackClient_ok:
  assumes "srv_inv s"
  shows "\<exists>s'. ConnectLoopbackClient k x ud s = Some s' \<and> srv_inv s' \<and> same_setup s s'"
proof (cases "running s \<and> slot_in_range k s \<and> \<not> clientConnected s (nat k)")
  case False
  then show ?thesis
    using assms slot_range[OF srv_invD(1)[OF assms], of k] by (auto simp: ConnectLoopbackClient_def)
next
  case True
  define i where "i = nat k"
  have i: "k = int i" "i < 256" "int i < maxClients s"
    using True slot_range[OF srv_invD(1)[OF assms], of k] by (auto simp: i_def)
  define ud' where "ud' = copy_at (replicate 256 0) 0 ud"
  have ud': "length ud' = 256" by (simp add: ud'_def)
  let ?s = "s\<lparr>numConnectedClients := numConnectedClients s + 1,
          clientLoopback := (clientLoopback s)(i := True),
          clientConnected := (clientConnected s)(i := True),
          clientConfirmed := (clientConfirmed s)(i := True),
          clientEncryptionIndex := (clientEncryptionIndex s)(i := -1),
          clientID := (clientID s)(i := x),
          clientSequence := (clientSequence s)(i := 0),
          clientDisconnectReason := (clientDisconnectReason s)(i := 0),
          clientAddress := (clientAddress s)(i := zeroAddress),
          clientLastPacketSendTime := (clientLastPacketSendTime s)(i := srv_time s),
          clientLastPacketReceiveTime := (clientLastPacketReceiveTime s)(i := srv_time s),
          clientUserData := (clientUserData s)(i := ud')\<rparr>"
  have free: "\<not> clientConnected s i" "\<not> clientLoopback s i"
    using True srv_invD(1)[OF assms] by (auto simp: i_def slots_inv_def)
  have "slots_inv ?s"
  proof -
    have "{j. clientConnected ?s j} = insert i {j. clientConnected s j}" by auto
    then have "card {j. clientConnected ?s j} = Suc (card {j. clientConnected s j})"
      using finite_connected[OF srv_invD(1)[OF assms]] free by simp
    with srv_invD(1)[OF assms] i(3) True show ?thesis by (simp add: slots_inv_def)
  qed
  moreover have "keys_inv ?s"
  proof -
    note K = srv_invD(2)[OF assms]
    show ?thesis
      unfolding keys_inv_def
    proof (intro conjI allI impI)
      show "em_inv (srv_encryption ?s)" using K by (simp add: keys_inv_def)
    next
      fix j assume "network_client ?s j"
      then have j: "network_client s j" "j \<noteq> i" by (auto split: if_splits)
      from network_clientD[OF K j(1)] obtain e where "e < 1024" "clientEncryptionIndex s j = int e"
        "Equal (em_address (srv_encryption s) e) (clientAddress s j)" "em_clientIndex (srv_encryption s) e = int j" .
      with j(2) show "\<exists>e<1024. clientEncryptionIndex ?s j = int e \<and>
          Equal (em_address (srv_encryption ?s) e) (clientAddress ?s j) \<and> em_clientIndex (srv_encryption ?s) e = int j"
        by (intro exI[of _ e]) simp
    next
      fix e assume "em_clientIndex (srv_encryption ?s) e \<noteq> -1"
      then obtain j where j: "em_clientIndex (srv_encryption s) e = int j" "network_client s j"
        "clientEncryptionIndex s j = int e" using K by (auto simp: keys_inv_def)
      then have "j \<noteq> i" using free by auto
      with j show "\<exists>j. em_clientIndex (srv_encryption ?s) e = int j \<and> network_client ?s j \<and> clientEncryptionIndex ?s j = int e"
        by (intro exI[of _ j]) simp
    qed
  qed
  moreover have "history_inv ?s" using srv_invD(3)[OF assms] by (simp add: history_inv_def)
  moreover have "fresh_inv ?s" using srv_invD(4)[OF assms] free ud' by (simp add: fresh_inv_def)
  moreover have "apart_inv ?s" using srv_invD(5)[OF assms] free by (simp add: apart_inv_def)
  ultimately have "srv_inv ?s" by (rule srv_invI)
  moreover have "ConnectLoopbackClient k x ud s = Some (notify k True ?s)"
    using True i by (simp add: ConnectLoopbackClient_def ud'_def i_def[symmetric])
  moreover have "same_setup s (notify k True ?s)" by (simp add: same_setup_def notify_def)
  ultimately show ?thesis by auto
qed

subsection \<open>Runs\<close>

datatype srv_op =
    CallStart int u64 "byte list"
  | CallStop
  | CallClose
  | CallUpdate float64 u64 "(Address \<times> byte list \<times> u64) list"
  | CallProcessPacket u64 u64 Address "byte list"
  | CallSendPacket int "byte list"
  | CallReceivePacket int
  | CallDisconnectClient int
  | CallDisconnectAllClients
  | CallConnectLoopbackClient int u64 "byte list"
  | CallDisconnectLoopbackClient int
  | CallProcessLoopbackPacket int "byte list" u64

fun srv_exec :: "crypto \<Rightarrow> srv_op \<Rightarrow> Server \<Rightarrow> Server option" where
  "srv_exec C (CallStart n now key) s = Start C n now key s"
| "srv_exec C CallStop s = Stop C s"
| "srv_exec C CallClose s = server_Close C s"
| "srv_exec C (CallUpdate t ts waiting) s = server_Update C t ts waiting s"
| "srv_exec C (CallProcessPacket ts now a d) s = server_ProcessPacket C ts now a d s"
| "srv_exec C (CallSendPacket k d) s = server_SendPacket C k d s"
| "srv_exec C (CallReceivePacket k) s = map_option snd (server_ReceivePacket k s)"
| "srv_exec C (CallDisconnectClient k) s = DisconnectClient C k s"
| "srv_exec C CallDisconnectAllClients s = DisconnectAllClients C s"
| "srv_exec C (CallConnectLoopbackClient k x ud) s = ConnectLoopbackClient k x ud s"
| "srv_exec C (CallDisconnectLoopbackClient k) s = DisconnectLoopbackClient k s"
| "srv_exec C (CallProcessLoopbackPacket k d q) s = server_ProcessLoopbackPacket k d q s"

text \<open>The random challenge key is an array of 32 bytes.\<close>

fun op_typed :: "srv_op \<Rightarrow> bool" where
  "op_typed (CallStart _ _ key) \<longleftrightarrow> length key = KeyBytes"
| "op_typed _ \<longleftrightarrow> True"

lemma same_setup_kept: "same_setup s s' \<Longrightarrow> setup_kept s s'"
  by (simp add: same_setup_def setup_kept_def)

lemma ProcessPacket_ok:
  assumes "crypto_ok C" and "srv_inv s"
  shows "\<exists>s'. server_ProcessPacket C ts now a d s = Some s' \<and> srv_inv s' \<and> setup_kept s s'"
  using readAndProcessPacket_ok[OF assms] by (fastforce simp: server_ProcessPacket_def packet_step_def)

text \<open>The calls on which a server panics: those that call a callback of its configuration that is nil.\<close>

fun nil_callback :: "srv_op \<Rightarrow> Server \<Rightarrow> bool" where
  "nil_callback (CallUpdate _ _ _) s \<longleftrightarrow> \<not> receives (srv_config s)"
| "nil_callback (CallSendPacket k d) s \<longleftrightarrow> nil_loopback_callback k d s"
| "nil_callback _ s \<longleftrightarrow> False"

lemma srv_exec_fails:
  assumes "srv_inv s" and "nil_callback op s"
  shows "srv_exec C op s = None"
proof (cases op)
  case (CallUpdate t ts waiting)
  with assms(2) Update_receives[of C t ts waiting s] show ?thesis by (cases "server_Update C t ts waiting s") simp_all
next
  case (CallSendPacket k d)
  with assms SendPacket_nil_callback show ?thesis by simp
qed (use assms(2) in simp_all)

lemma srv_exec_ok:
  assumes "crypto_ok C" and "srv_inv s" and "\<not> nil_callback op s" and "op_typed op"
  shows "\<exists>s'. srv_exec C op s = Some s' \<and> srv_inv s' \<and> srv_config s' = srv_config s"
proof (cases op)
  case (CallStart n now key)
  with assms(4) have "length key = 32" by simp
  from Start_ok[OF assms(1,2) this] CallStart show ?thesis by fastforce
next
  case CallStop
  with Stop_ok[OF assms(1,2)] show ?thesis by auto
next
  case CallClose
  with Close_ok[OF assms(1,2)] show ?thesis by auto
next
  case (CallUpdate t ts waiting)
  with Update_ok[OF assms(1,2)] assms(3) show ?thesis by (fastforce simp: setup_kept_def)
next
  case (CallProcessPacket ts now a d)
  with ProcessPacket_ok[OF assms(1,2)] show ?thesis by (fastforce simp: setup_kept_def)
next
  case (CallSendPacket k d)
  with SendPacket_ok[OF assms(1,2)] assms(3) show ?thesis by (fastforce simp: same_setup_def)
next
  case (CallReceivePacket k)
  with ReceivePacket_ok[OF assms(2), of k] show ?thesis by (auto simp: same_setup_def)
next
  case (CallDisconnectClient k)
  with DisconnectClient_ok[OF assms(1,2)] show ?thesis by (fastforce simp: same_setup_def)
next
  case CallDisconnectAllClients
  with DisconnectAllClients_ok[OF assms(1,2)] show ?thesis by (fastforce simp: same_setup_def)
next
  case (CallConnectLoopbackClient k x ud)
  with ConnectLoopbackClient_ok[OF assms(2)] show ?thesis by (fastforce simp: same_setup_def)
next
  case (CallDisconnectLoopbackClient k)
  with DisconnectLoopbackClient_ok[OF assms(2), of k] show ?thesis by (auto simp: same_setup_def)
next
  case (CallProcessLoopbackPacket k d q)
  with ProcessLoopbackPacket_ok[OF assms(2)] show ?thesis by (fastforce simp: same_setup_def)
qed

text \<open>A server as a machine: it starts as \<open>NewServerDual\<close> builds it, with any configuration.\<close>

definition srv_init :: "Server \<Rightarrow> bool" where
  "srv_init s \<longleftrightarrow> (\<exists>config a1 a2 t v4 v6. s = new_server config a1 a2 t v4 v6)"

interpretation server: machine srv_init "\<lambda>op. crypto_ok C \<and> op_typed op" "srv_exec C" srv_inv nil_callback for C
proof
  show "srv_inv s" if "srv_init s" for s
    using that by (auto simp: srv_init_def srv_inv_new)
  show "\<exists>s'. srv_exec C op s = Some s' \<and> srv_inv s'"
    if "srv_inv s" "crypto_ok C \<and> op_typed op" "\<not> nil_callback op s" for s op
    using srv_exec_ok[of C s op] that by fastforce
  show "srv_exec C op s = None" if "srv_inv s" "nil_callback op s" for s op
    using that by (rule srv_exec_fails)
qed

abbreviation srv_reachable :: "crypto \<Rightarrow> Server \<Rightarrow> bool" where
  "srv_reachable C \<equiv> reachable srv_init (\<lambda>op. crypto_ok C \<and> op_typed op) (srv_exec C)"

lemma srv_created: "srv_reachable C (new_server config a1 a2 t v4 v6)"
  by (rule reachable.created) (unfold srv_init_def, blast)

lemma srv_called: "srv_reachable C s \<Longrightarrow> crypto_ok C \<Longrightarrow> op_typed op \<Longrightarrow> srv_exec C op s = Some s' \<Longrightarrow> srv_reachable C s'"
  by (rule reachable.called[where c = op]) simp_all

lemma reachable_inv: "crypto_ok C \<Longrightarrow> srv_reachable C s \<Longrightarrow> srv_inv s"
  by (rule server.reach_inv)

end
