(* ===== verification/Server_Handshake.thy ===== *)
theory Server_Handshake
  imports Server_Run
begin

text \<open>
  The server side of the handshake, step by step and exactly: a valid connection request is answered
  with one challenge packet and leaves an encryption mapping; the response that returns the challenge
  connects the client in the first free slot and marks its connect token as used.
\<close>

lemma sendGlobalPacket_exact:
  assumes "crypto_ok C" and "length key = 32" and "packet_ok p" and "\<not> is_request p"
  shows "\<exists>new. sendGlobalPacket C p to key s =
      Some (s\<lparr>srv_events := srv_events s @ new, globalSequence := globalSequence s + 1\<rparr>) \<and>
    sent_packets new = delivered s to (sealed_packet C p (globalSequence s) key (ProtocolID (srv_config s)))"
proof -
  define m where "m = sealed_packet C p (globalSequence s) key (ProtocolID (srv_config s))"
  define d where "d = m @ drop (length m) (replicate 1300 0)"
  have w: "writePacket C p (replicate 1300 0) (globalSequence s) key (ProtocolID (srv_config s)) = Some (length m, d)"
    unfolding d_def m_def by (rule writePacket_sealed[OF assms(1,3,4,2)]) simp
  have m: "length m \<noteq> 0" "length m \<le> length d" "take (length m) d = m"
    using length_sealed_packet[OF assms(1), of p] by (simp_all add: m_def d_def)
  obtain new where t: "server_transmit to (length m) d s = Some (s\<lparr>srv_events := srv_events s @ new\<rparr>)"
    "sent_packets new = delivered s to m"
    using server_transmit_exact[OF m(2), of to s] m(3) by auto
  have "sendGlobalPacket C p to key s =
      Some (s\<lparr>srv_events := srv_events s @ new, globalSequence := globalSequence s + 1\<rparr>)"
    using m(1) by (simp add: sendGlobalPacket_def w t(1))
  with t(2) show ?thesis by (auto simp: m_def)
qed

text \<open>A challenge token the server will accept back for the given client.\<close>

definition issued :: "crypto \<Rightarrow> Server \<Rightarrow> u64 \<Rightarrow> byte list \<Rightarrow> challengeToken \<Rightarrow> bool" where
  "issued C s q d token \<longleftrightarrow> length d = 300 \<and> (\<exists>opened. decryptChallengeToken C d q (challengeKey s) = Some (Inr opened) \<and>
     challengeToken_read zeroChallengeToken opened = Some (None, token))"

definition mapping_expiry :: "connectTokenPrivate \<Rightarrow> Server \<Rightarrow> float64" where
  "mapping_expiry t s = (if sint (ctp_timeoutSeconds t) \<ge> 0 then srv_time s + of_int (sint (ctp_timeoutSeconds t)) else -1)"

text \<open>What a request needs to be challenged, in the order the handler checks it.\<close>

definition challengeable ::
  "crypto \<Rightarrow> u64 \<Rightarrow> Address \<Rightarrow> connectionRequest \<Rightarrow> connectTokenPrivate \<Rightarrow> int \<Rightarrow> token_entries \<Rightarrow> encryptionManager \<Rightarrow> Server \<Rightarrow> bool" where
  "challengeable C now from req t k es em s \<longleftrightarrow>
     length (req_connectTokenData req) = 1024 \<and>
     connectTokenPrivate_read zeroConnectTokenPrivate (req_connectTokenData req) = Some (None, t) \<and>
     found_server_address t s \<and> findClientIndexByAddress from s = -1 \<and> findClientIndexByID (ctp_clientID t) s = -1 \<and>
     connectTokenEntriesFindOrAdd (connectTokenEntries s) from (drop 1008 (req_connectTokenData req))
       (req_connectTokenExpireTimestamp req) now (srv_time s) = Some (k, es) \<and> 0 \<le> k \<and>
     numConnectedClients s \<noteq> maxClients s \<and>
     addEncryptionMapping (srv_encryption s) from (ctp_serverToClientKey t) (ctp_clientToServerKey t) (srv_time s)
       (mapping_expiry t s) (ctp_timeoutSeconds t) k = (True, em)"

lemma request_challenged:
  assumes "crypto_ok C" and "srv_inv s" and "challengeable C now from req t k es em s"
  shows "\<exists>d new. issued C s (challengeSequence s) d \<lparr>cht_clientID = ctp_clientID t, cht_userData = ctp_userData t\<rparr> \<and>
    processConnectionRequestPacket C now from req s =
      Some (s\<lparr>connectTokenEntries := es, srv_encryption := em, challengeSequence := challengeSequence s + 1,
        srv_events := srv_events s @ new, globalSequence := globalSequence s + 1\<rparr>) \<and>
    sent_packets new = delivered s from (sealed_packet C (ConnectionChallenge (challengeSequence s) d)
      (globalSequence s) (ctp_serverToClientKey t) (ProtocolID (srv_config s)))"
proof -
  note c = assms(3)[unfolded challengeable_def]
  have keys: "length (ctp_clientToServerKey t) = 32" "length (ctp_serverToClientKey t) = 32" "length (ctp_userData t) = 256"
    using connectTokenPrivate_read_total[of zeroConnectTokenPrivate "req_connectTokenData req"] c by auto
  let ?tok = "\<lparr>cht_clientID = ctp_clientID t, cht_userData = ctp_userData t\<rparr>"
  have ck: "length (challengeKey s) = 32" using srv_invD(1)[OF assms(2)] by (simp add: slots_inv_def)
  obtain plain d opened where d: "challengeToken_write ?tok (replicate 300 0) = Some plain"
    "encryptChallengeToken C plain (challengeSequence s) (challengeKey s) = Some (Inr d)" "length d = 300"
    "decryptChallengeToken C d (challengeSequence s) (challengeKey s) = Some (Inr opened)"
    "challengeToken_read zeroChallengeToken opened = Some (None, ?tok)"
    using challenge_roundtrip[OF assms(1) ck, of ?tok "replicate 300 0" "challengeSequence s"] keys
    by (auto simp: cht_ok_def)
  let ?p = "ConnectionChallenge (challengeSequence s) d"
  let ?s = "s\<lparr>connectTokenEntries := es, srv_encryption := em, challengeSequence := challengeSequence s + 1\<rparr>"
  have p: "packet_ok ?p" "\<not> is_request ?p" using d(3) by simp_all
  obtain new where new: "sendGlobalPacket C ?p from (ctp_serverToClientKey t) ?s =
      Some (?s\<lparr>srv_events := srv_events ?s @ new, globalSequence := globalSequence ?s + 1\<rparr>)"
    "sent_packets new = delivered ?s from (sealed_packet C ?p (globalSequence ?s) (ctp_serverToClientKey t) (ProtocolID (srv_config ?s)))"
    using sendGlobalPacket_exact[OF assms(1) keys(2) p] by blast
  have k: "k \<noteq> -2" "k \<noteq> -1" using c by auto
  have "processConnectionRequestPacket C now from req s = send_challenge C from t k (s\<lparr>connectTokenEntries := es\<rparr>)"
    using c k by (simp add: processConnectionRequestPacket_def)
  also have "\<dots> = sendGlobalPacket C ?p from (ctp_serverToClientKey t) ?s"
    using c d by (cases "0 \<le> sint (ctp_timeoutSeconds t)") (simp_all add: send_challenge_def mapping_expiry_def Let_def del: of_int_sint)
  finally have "processConnectionRequestPacket C now from req s =
      Some (s\<lparr>connectTokenEntries := es, srv_encryption := em, challengeSequence := challengeSequence s + 1,
        srv_events := srv_events s @ new, globalSequence := globalSequence s + 1\<rparr>)"
    by (simp add: new(1))
  moreover have "issued C s (challengeSequence s) d ?tok" using d by (auto simp: issued_def)
  ultimately show ?thesis using new(2) by (auto simp: delivered_def)
qed

text \<open>The mapping a challenged request leaves behind.\<close>

lemma challenged_mapping:
  assumes "srv_inv s" and "challengeable C now from req t k es em s" and "Equal from from"
  shows "\<exists>e<1024. fst (findEncryptionMapping em from (srv_time s)) = int e \<and> Equal (em_address em e) from \<and>
    em_sendKey em e = ctp_serverToClientKey t \<and> em_receiveKey em e = ctp_clientToServerKey t \<and>
    em_timeout em e = ctp_timeoutSeconds t \<and> em_connectTokenEntryIndex em e = k"
proof -
  note c = assms(2)[unfolded challengeable_def]
  have keys: "length (ctp_clientToServerKey t) = 32" "length (ctp_serverToClientKey t) = 32"
    using connectTokenPrivate_read_total[of zeroConnectTokenPrivate "req_connectTokenData req"] c by auto
  have em: "em_inv (srv_encryption s)" using srv_invD(2)[OF assms(1)] by (simp add: keys_inv_def)
  have "\<not> (0 \<le> mapping_expiry t s \<and> mapping_expiry t s < srv_time s)"
    by (simp add: mapping_expiry_def not_less del: of_int_sint)
  from add_finds_slot[OF em keys(2,1) assms(3) this] c show ?thesis by blast
qed

text \<open>The exact form of \<open>connectClient_ok\<close>: the new client's first packet is keep-alive number 0.\<close>

definition welcome_bytes :: "crypto \<Rightarrow> nat \<Rightarrow> nat \<Rightarrow> Server \<Rightarrow> byte list" where
  "welcome_bytes C i e s = sealed_packet C (ConnectionKeepAlive (of_nat i) (of_int (maxClients s))) 0
     (em_sendKey (srv_encryption s) e) (ProtocolID (srv_config s))"

lemma connectClient_exact:
  assumes "crypto_ok C" and "may_join i a x e ud s"
  shows "\<exists>s' L new. connectClient C (int i) a x (int e) tmo ud s = Some s' \<and> srv_inv s' \<and>
    s' = (let s1 = joined i a x e tmo ud s in
      s1\<lparr>srv_encryption := (srv_encryption s1)\<lparr>em_lastAccessTime := L\<rparr>, srv_events := srv_events s @ new,
        clientSequence := (clientSequence s1)(i := 1), clientLastPacketSendTime := (clientLastPacketSendTime s1)(i := srv_time s)\<rparr>) \<and>
    sent_packets new = delivered s a (welcome_bytes C i e s)"
proof -
  have J: "srv_inv s" "int i < maxClients s" "e < 1024" "length ud = 256" "\<not> clientConnected s i"
    using assms(2) by (auto simp: may_join_def)
  have i: "i < 256" using maxClients_nat[OF srv_invD(1)[OF J(1)]] J(2) by simp
  let ?p = "ConnectionKeepAlive (of_int (int i)) (of_int (maxClients s))"
  let ?s = "joined i a x e tmo ud s"
  note inv = srv_inv_joined[OF assms(2), of tmo]
  have net: "network_client ?s i" using srv_invD(1)[OF J(1)] J(5) by (auto simp: slots_inv_def)
  have p: "packet_ok ?p" "\<not> is_request ?p" by simp_all
  have bytes: "sealed_packet C ?p (clientSequence ?s i) (fst (client_keys i ?s)) (ProtocolID (srv_config ?s)) = welcome_bytes C i e s"
    by (simp add: welcome_bytes_def client_keys_def)
  have deliver: "delivered ?s a d = delivered s a d" for d by (simp add: delivered_def joined_def Let_def)
  obtain s2 where s2: "sendClientPacket C ?p (int i) ?s = Some s2" "srv_inv s2"
    "sends_only ?s (delivered s a (welcome_bytes C i e s)) s2"
    "clientSequence s2 = (clientSequence ?s)(i := clientSequence ?s i + 1)"
    "clientLastPacketSendTime s2 = (clientLastPacketSendTime ?s)(i := srv_time ?s)"
    using sendClientPacket_exact[OF assms(1) p inv net] unfolding bytes by (auto simp: deliver)
  obtain L n1 Q T where s2_eq: "s2 = ?s\<lparr>srv_encryption := (srv_encryption ?s)\<lparr>em_lastAccessTime := L\<rparr>,
       srv_events := srv_events ?s @ n1, clientSequence := Q, clientLastPacketSendTime := T\<rparr>"
    "sent_packets n1 = delivered s a (welcome_bytes C i e s)"
    using s2(3) unfolding sends_only_def by blast
  have QT: "Q = (clientSequence ?s)(i := 1)" "T = (clientLastPacketSendTime ?s)(i := srv_time s)"
    using s2(4,5) by (simp_all add: s2_eq(1))
  obtain n2 where n2: "notify (int i) True s2 = s2\<lparr>srv_events := srv_events s2 @ n2\<rparr>" "sent_packets n2 = []"
    using notify_events by blast
  have "connectClient C (int i) a x (int e) tmo ud s = Some (notify (int i) True s2)"
  proof -
    have "length (clientUserData s i) = 256" using srv_invD(4)[OF J(1)] by (simp add: fresh_inv_def)
    from connectClient_eq[OF i J(3) this J(4)] show ?thesis by (simp only: s2(1) bind.bind_lunit)
  qed
  moreover have "srv_inv (notify (int i) True s2)" using s2(2) by simp
  moreover have "notify (int i) True s2 = ?s\<lparr>srv_encryption := (srv_encryption ?s)\<lparr>em_lastAccessTime := L\<rparr>,
       srv_events := srv_events s @ (n1 @ n2), clientSequence := (clientSequence ?s)(i := 1),
       clientLastPacketSendTime := (clientLastPacketSendTime ?s)(i := srv_time s)\<rparr>"
    unfolding n2(1) by (simp add: s2_eq(1) QT)
  moreover have "sent_packets (n1 @ n2) = delivered s a (welcome_bytes C i e s)" using s2_eq(2) n2(2) by simp
  ultimately show ?thesis unfolding Let_def by blast
qed

text \<open>The state after a response was accepted.\<close>

definition welcomed :: "crypto \<Rightarrow> Address \<Rightarrow> nat \<Rightarrow> nat \<Rightarrow> challengeToken \<Rightarrow> Server \<Rightarrow> Server \<Rightarrow> bool" where
  "welcomed C a i e token s s' \<longleftrightarrow>
     (\<exists>L new. s' = (let s1 = joined i a (cht_clientID token) e (em_timeout (srv_encryption s) e) (cht_userData token) s in
        s1\<lparr>srv_encryption := (srv_encryption s1)\<lparr>em_lastAccessTime := L\<rparr>, srv_events := srv_events s @ new,
          clientSequence := (clientSequence s1)(i := 1), clientLastPacketSendTime := (clientLastPacketSendTime s1)(i := srv_time s)\<rparr>) \<and>
        sent_packets new = delivered s a (welcome_bytes C i e s))"

lemma response_admits:
  assumes "crypto_ok C" and "srv_inv s" and "running s" and "issued C s q d token"
    and "e < 1024" and "Equal (em_address (srv_encryption s) e) from"
    and "findClientIndexByAddress from s = -1" and "findClientIndexByID (cht_clientID token) s = -1"
    and "numConnectedClients s \<noteq> maxClients s"
  shows "\<exists>i s'. findFreeClientIndex s = int i \<and> may_join i from (cht_clientID token) e (cht_userData token) s \<and>
    processConnectionResponsePacket C from q d (int e) s = Some s' \<and> srv_inv s' \<and> welcomed C from i e token s s'"
proof -
  obtain opened where d: "decryptChallengeToken C d q (challengeKey s) = Some (Inr opened)"
    "challengeToken_read zeroChallengeToken opened = Some (None, token)"
    using assms(4) by (auto simp: issued_def)
  have ud: "length (cht_userData token) = 256"
    using challengeToken_read_total[of zeroChallengeToken opened] d(2) by auto
  have addr: "\<forall>i. \<not> (clientConnected s i \<and> Equal (clientAddress s i) from)"
    using findByAddress_cases[OF assms(2), of "from"] assms(7) by auto
  have ids: "\<forall>i. clientConnected s i \<longrightarrow> clientID s i \<noteq> cht_clientID token"
    using findByID_none[OF assms(2,8)] by blast
  obtain i where i: "findFreeClientIndex s = int i" "int i < maxClients s" "\<not> clientConnected s i"
    using numConnected_less[OF srv_invD(1)[OF assms(2)] assms(9,3)] by blast
  have join: "may_join i from (cht_clientID token) e (cht_userData token) s"
    unfolding may_join_def using assms(2,5,6) i addr ids ud by auto
  from connectClient_exact[OF assms(1) join, of "em_timeout (srv_encryption s) e"]
  obtain s' L new where s': "connectClient C (int i) from (cht_clientID token) (int e)
       (em_timeout (srv_encryption s) e) (cht_userData token) s = Some s'" "srv_inv s'" "welcomed C from i e token s s'"
    unfolding welcomed_def by blast
  have "processConnectionResponsePacket C from q d (int e) s = Some s'"
    using d assms(5,7-9) i(1) s'(1)
    by (simp add: processConnectionResponsePacket_def getSendKey_def getTimeout_def)
  with i(1) join s'(2,3) show ?thesis by blast
qed

subsection \<open>The handshake over packets\<close>

lemma process_unknown_sender:
  assumes "running s" and "1 < length buf" and "findClientIndexByAddress from s = -1"
    and "findEncryptionMapping (srv_encryption s) from (srv_time s) = (k, em)"
    and "getReceiveKey em k = Some key" and "key \<noteq> None \<or> buf ! 0 = 0"
    and "readPacket C buf key (ProtocolID (srv_config s)) ts (minConnectTokenExpireTimestamp s)
      (Some (PrivateKey (srv_config s))) serverAllowedPackets None = Some (Some p, q, None)"
  shows "server_ProcessPacket C ts now from buf s =
    server_processPacketInternal C now from p q k (-1) (s\<lparr>srv_encryption := em\<rparr>)"
proof -
  have l: "lookup_origin from s = Some (k, s\<lparr>srv_encryption := em\<rparr>)"
    using assms(3,4) by (simp add: lookup_origin_def)
  have g: "(\<not> running s \<or> length buf \<le> 1) = False" "(key = None \<and> buf ! 0 \<noteq> 0) = False"
    using assms(1,2,6) by auto
  show ?thesis
    unfolding server_ProcessPacket_def readAndProcessPacket_eq g(1)
    using assms(3,5,7) by (simp add: g(2) l)
qed

lemma serverAllowed [simp]:
  "serverAllowedPackets 0" "serverAllowedPackets 3" "serverAllowedPackets 4" "serverAllowedPackets 5" "serverAllowedPackets 6"
  "\<not> serverAllowedPackets 1" "\<not> serverAllowedPackets 2"
  by (simp_all add: serverAllowedPackets_def)

text \<open>
  Everything a client needs for the handshake to go through: a well-formed connect token for this
  server that is not expired and was never presented, from an address and for a client ID that are
  not connected, while the server has a free slot, a free history entry and a free mapping.
\<close>

definition welcome_token :: "u64 \<Rightarrow> Address \<Rightarrow> connectTokenPrivate \<Rightarrow> u64 \<Rightarrow> byte list \<Rightarrow> Server \<Rightarrow> bool" where
  "welcome_token now from t expire mac s \<longleftrightarrow> ctp_ok t \<and> found_server_address t s \<and> Equal from from \<and>
     now < expire \<and> minConnectTokenExpireTimestamp s \<le> expire \<and>
     findClientIndexByAddress from s = -1 \<and> findClientIndexByID (ctp_clientID t) s = -1 \<and>
     fst (findEncryptionMapping (srv_encryption s) from (srv_time s)) = -1 \<and>
     numConnectedClients s \<noteq> maxClients s \<and> entry_index (connectTokenEntries s) mac = -1 \<and>
     find_index (entry_available (connectTokenEntries s) now) maxConnectTokenEntries \<noteq> -1 \<and>
     (\<exists>j<maxEncryptionMappings. Type (em_address (srv_encryption s) j) = AddressNone)"

lemma add_succeeds:
  assumes "em_inv m" and "length sk = 32" and "length rk = 32" and "\<exists>j<1024. Type (em_address m j) = 0"
  shows "\<exists>m'. addEncryptionMapping m a sk rk time ex tmo k = (True, m')"
  by (rule add_cases[OF assms(1-3), of a time ex tmo k]) (use assms(4) in auto)

lemma fresh_token_entry:
  assumes "entries_inv es" and "length mac = 16" and "entry_index es mac = -1"
    and "find_index (entry_available es now) 2048 \<noteq> -1"
  shows "\<exists>k es'. k < 2048 \<and> connectTokenEntriesFindOrAdd es a mac e now t = Some (int k, es') \<and>
    te_mac (es' k) = mac \<and> te_expireTimestamp (es' k) = e"
proof -
  let ?f = "find_index (entry_available es now) 2048"
  have f: "0 \<le> ?f" "nat ?f < 2048" using find_index_Some[OF refl assms(4)] by blast+
  have "connectTokenEntriesFindOrAdd es a mac e now t = Some (?f, es(nat ?f := (es (nat ?f))\<lparr>te_state := 1, te_time := t,
    te_expireTimestamp := e, te_address := a, te_mac := mac\<rparr>))"
    using assms(3,4) by (simp only: findOrAdd_eq[OF assms(1,2)] Let_def if_True if_False refl)
  with f show ?thesis by (intro exI[of _ "nat ?f"]) auto
qed

lemma welcome_challengeable:
  assumes "srv_inv s" and "welcome_token now from t expire mac s"
    and "length opened = 1024" and "drop 1008 opened = mac"
    and "connectTokenPrivate_read zeroConnectTokenPrivate opened = Some (None, t)"
  shows "\<exists>k es em. k < 2048 \<and> te_mac (es k) = mac \<and> te_expireTimestamp (es k) = expire \<and>
    challengeable C now from \<lparr>req_versionInfo = v, req_protocolID = pid, req_connectTokenExpireTimestamp = expire,
      req_connectTokenNonce = nonce, req_connectTokenData = opened\<rparr> t (int k) es em s"
proof -
  note w = assms(2)[unfolded welcome_token_def]
  have es: "entries_inv (connectTokenEntries s)" using srv_invD(3)[OF assms(1)] by (simp add: history_inv_def)
  have em: "em_inv (srv_encryption s)" using srv_invD(2)[OF assms(1)] by (simp add: keys_inv_def)
  have mac: "length mac = 16" using assms(3,4) by auto
  obtain k es where k: "k < 2048" "te_mac (es k) = mac" "te_expireTimestamp (es k) = expire"
    "connectTokenEntriesFindOrAdd (connectTokenEntries s) from mac expire now (srv_time s) = Some (int k, es)"
    using fresh_token_entry[OF es mac, of now "from" expire "srv_time s"] w by auto
  have keys: "length (ctp_serverToClientKey t) = 32" "length (ctp_clientToServerKey t) = 32" using w by (simp_all add: ctp_ok_def)
  have free: "\<exists>j<1024. Type (em_address (srv_encryption s) j) = 0" using w by simp
  obtain em' where "addEncryptionMapping (srv_encryption s) from (ctp_serverToClientKey t) (ctp_clientToServerKey t)
      (srv_time s) (mapping_expiry t s) (ctp_timeoutSeconds t) (int k) = (True, em')"
    using add_succeeds[OF em keys free] by blast
  with k w assms(3-5) have "challengeable C now from \<lparr>req_versionInfo = v, req_protocolID = pid,
      req_connectTokenExpireTimestamp = expire, req_connectTokenNonce = nonce, req_connectTokenData = opened\<rparr> t (int k) es em' s"
    unfolding challengeable_def by simp
  with k(1-3) show ?thesis by blast
qed


text \<open>What a challenged request leaves: the challenge on its way, and the means to take the response.\<close>

definition challenged ::
  "crypto \<Rightarrow> Address \<Rightarrow> connectTokenPrivate \<Rightarrow> u64 \<Rightarrow> byte list \<Rightarrow> byte list \<Rightarrow> Server \<Rightarrow> Server \<Rightarrow> bool" where
  "challenged C from t expire mac d s s' \<longleftrightarrow> srv_inv s' \<and>
     issued C s' (challengeSequence s) d \<lparr>cht_clientID = ctp_clientID t, cht_userData = ctp_userData t\<rparr> \<and>
     (\<exists>new. srv_events s' = srv_events s @ new \<and> sent_packets new = delivered s from
        (sealed_packet C (ConnectionChallenge (challengeSequence s) d) (globalSequence s) (ctp_serverToClientKey t) (ProtocolID (srv_config s)))) \<and>
     (\<exists>e k. e < 1024 \<and> k < 2048 \<and> fst (findEncryptionMapping (srv_encryption s') from (srv_time s)) = int e \<and>
        Equal (em_address (srv_encryption s') e) from \<and> em_sendKey (srv_encryption s') e = ctp_serverToClientKey t \<and>
        em_receiveKey (srv_encryption s') e = ctp_clientToServerKey t \<and> em_timeout (srv_encryption s') e = ctp_timeoutSeconds t \<and>
        em_connectTokenEntryIndex (srv_encryption s') e = int k \<and> te_mac (connectTokenEntries s' k) = mac \<and>
        te_expireTimestamp (connectTokenEntries s' k) = expire) \<and>
     (\<exists>es em cs ev g. s' = s\<lparr>connectTokenEntries := es, srv_encryption := em, challengeSequence := cs, srv_events := ev, globalSequence := g\<rparr>)"

lemma request_step:
  assumes "crypto_ok C" and "srv_inv s" and "running s" and "srv_flags s = 0"
    and "length nonce = 24" and "length sealed = 1024" and "length opened = 1024" and "drop 1008 opened = drop 1008 sealed"
    and "decryptConnectTokenPrivate C sealed (ProtocolID (srv_config s)) expire nonce (PrivateKey (srv_config s)) = Some (Inr opened)"
    and "connectTokenPrivate_read zeroConnectTokenPrivate opened = Some (None, t)"
    and "welcome_token now from t expire (drop 1008 sealed) s" and "ts < expire"
  shows "\<exists>s' d. server_ProcessPacket C ts now from (request_bytes (ProtocolID (srv_config s)) expire nonce sealed) s = Some s' \<and>
    challenged C from t expire (drop 1008 sealed) d s s'"
proof -
  let ?pid = "ProtocolID (srv_config s)" and ?mac = "drop 1008 sealed"
  let ?buf = "request_bytes ?pid expire nonce sealed"
  let ?req = "\<lparr>req_versionInfo = versionInfo, req_protocolID = ?pid, req_connectTokenExpireTimestamp = expire,
    req_connectTokenNonce = nonce, req_connectTokenData = opened\<rparr>"
  have w: "findClientIndexByAddress from s = -1" "fst (findEncryptionMapping (srv_encryption s) from (srv_time s)) = -1"
    "Equal from from" "minConnectTokenExpireTimestamp s \<le> expire"
    using assms(11) by (simp_all add: welcome_token_def)
  have find: "findEncryptionMapping (srv_encryption s) from (srv_time s) = (-1, srv_encryption s)"
    using w(2) unfolding findEncryptionMapping_def Let_def by (simp split: if_splits)
  obtain k es em where k: "k < 2048" "te_mac (es k) = ?mac" "te_expireTimestamp (es k) = expire"
    "challengeable C now from ?req t (int k) es em s"
    using welcome_challengeable[OF assms(2,11,7,8,10)] by blast
  have "server_ProcessPacket C ts now from ?buf s =
      server_processPacketInternal C now from (ConnectionRequest ?req) 0 (-1) (-1) (s\<lparr>srv_encryption := srv_encryption s\<rparr>)"
    by (rule process_unknown_sender[OF assms(3) _ w(1) find])
      (use readPacket_request[OF assms(5-7,9,12) w(4)] assms(5,6) in \<open>auto simp: getReceiveKey_def request_bytes_def\<close>)
  then have step: "server_ProcessPacket C ts now from ?buf s = processConnectionRequestPacket C now from ?req s"
    using assms(4) by (simp add: server_processPacketInternal_def)
  obtain d new s' where
    d: "issued C s (challengeSequence s) d \<lparr>cht_clientID = ctp_clientID t, cht_userData = ctp_userData t\<rparr>"
    "processConnectionRequestPacket C now from ?req s = Some s'"
    "s' = s\<lparr>connectTokenEntries := es, srv_encryption := em, challengeSequence := challengeSequence s + 1,
        srv_events := srv_events s @ new, globalSequence := globalSequence s + 1\<rparr>"
    "sent_packets new = delivered s from (sealed_packet C (ConnectionChallenge (challengeSequence s) d)
      (globalSequence s) (ctp_serverToClientKey t) (ProtocolID (srv_config s)))"
    using request_challenged[OF assms(1,2) k(4)] by blast
  obtain e where e: "e < 1024" "fst (findEncryptionMapping em from (srv_time s)) = int e" "Equal (em_address em e) from"
    "em_sendKey em e = ctp_serverToClientKey t" "em_receiveKey em e = ctp_clientToServerKey t"
    "em_timeout em e = ctp_timeoutSeconds t" "em_connectTokenEntryIndex em e = int k"
    using challenged_mapping[OF assms(2) k(4) w(3)] by blast
  have inv: "srv_inv s'"
    using ProcessPacket_ok[OF assms(1,2), of ts now "from" ?buf] d(2) step by auto
  have "challenged C from t expire ?mac d s s'"
    unfolding challenged_def
  proof (intro conjI)
    show "issued C s' (challengeSequence s) d \<lparr>cht_clientID = ctp_clientID t, cht_userData = ctp_userData t\<rparr>"
      using d(1) by (simp add: issued_def d(3))
    show "\<exists>new. srv_events s' = srv_events s @ new \<and> sent_packets new = delivered s from
        (sealed_packet C (ConnectionChallenge (challengeSequence s) d) (globalSequence s) (ctp_serverToClientKey t) (ProtocolID (srv_config s)))"
      using d(4) by (intro exI[of _ new]) (simp add: d(3))
    show "\<exists>e k. e < 1024 \<and> k < 2048 \<and> fst (findEncryptionMapping (srv_encryption s') from (srv_time s)) = int e \<and>
        Equal (em_address (srv_encryption s') e) from \<and> em_sendKey (srv_encryption s') e = ctp_serverToClientKey t \<and>
        em_receiveKey (srv_encryption s') e = ctp_clientToServerKey t \<and> em_timeout (srv_encryption s') e = ctp_timeoutSeconds t \<and>
        em_connectTokenEntryIndex (srv_encryption s') e = int k \<and> te_mac (connectTokenEntries s' k) = ?mac \<and>
        te_expireTimestamp (connectTokenEntries s' k) = expire"
      using e k(1-3) by (intro exI[of _ e] exI[of _ k]) (simp add: d(3))
    show "\<exists>es em cs ev g. s' = s\<lparr>connectTokenEntries := es, srv_encryption := em, challengeSequence := cs, srv_events := ev, globalSequence := g\<rparr>"
      using d(3) by blast
  qed (rule inv)
  with step d(2) show ?thesis by auto
qed


text \<open>
  The client has its slot: its identity, address, keys and user data are those of the connect token,
  the token is used, and the one packet sent is the first keep-alive.
\<close>

definition seated ::
  "crypto \<Rightarrow> Address \<Rightarrow> connectTokenPrivate \<Rightarrow> u64 \<Rightarrow> byte list \<Rightarrow> nat \<Rightarrow> Server \<Rightarrow> Server \<Rightarrow> bool" where
  "seated C from t expire mac i s s' \<longleftrightarrow> \<not> clientConnected s i \<and> int i < maxClients s \<and> network_client s' i \<and>
     clientID s' i = ctp_clientID t \<and> clientAddress s' i = from \<and> clientUserData s' i = ctp_userData t \<and>
     clientTimeout s' i = ctp_timeoutSeconds t \<and> clientSequence s' i = 1 \<and>
     client_keys i s' = (ctp_serverToClientKey t, ctp_clientToServerKey t) \<and>
     numConnectedClients s' = numConnectedClients s + 1 \<and> token_spent (connectTokenEntries s') mac expire \<and>
     clientLastPacketSendTime s' i = srv_time s \<and> clientLastPacketReceiveTime s' i = srv_time s \<and>
     clientReplayProtection s' i = clientReplayProtection s i \<and> clientPacketQueue s' i = clientPacketQueue s i \<and>
     (\<exists>new. srv_events s' = srv_events s @ new \<and> sent_packets new = delivered s from
        (sealed_packet C (ConnectionKeepAlive (of_nat i) (of_int (maxClients s))) 0 (ctp_serverToClientKey t) (ProtocolID (srv_config s))))"

lemma challengedD:
  assumes "challenged C from t expire mac d s s'"
  shows "running s' = running s" "srv_flags s' = srv_flags s" "srv_config s' = srv_config s" "maxClients s' = maxClients s"
    "numConnectedClients s' = numConnectedClients s" "srv_time s' = srv_time s"
    "findClientIndexByAddress a s' = findClientIndexByAddress a s" "findClientIndexByID x s' = findClientIndexByID x s"
    "delivered s' a b = delivered s a b" "clientConnected s' = clientConnected s"
proof -
  obtain es em cs ev g where "s' = s\<lparr>connectTokenEntries := es, srv_encryption := em, challengeSequence := cs, srv_events := ev, globalSequence := g\<rparr>"
    using assms by (auto simp: challenged_def)
  then show "running s' = running s" "srv_flags s' = srv_flags s" "srv_config s' = srv_config s" "maxClients s' = maxClients s"
    "numConnectedClients s' = numConnectedClients s" "srv_time s' = srv_time s"
    "findClientIndexByAddress a s' = findClientIndexByAddress a s" "findClientIndexByID x s' = findClientIndexByID x s"
    "delivered s' a b = delivered s a b" "clientConnected s' = clientConnected s"
    by (simp_all add: findClientIndexByAddress_def findClientIndexByID_def delivered_def)
qed

lemma welcomed_seated:
  assumes "welcomed C from i e \<lparr>cht_clientID = ctp_clientID t, cht_userData = ctp_userData t\<rparr> s s'"
    and "srv_inv s" and "\<not> clientConnected s i" and "int i < maxClients s" and "k < 2048"
    and "em_sendKey (srv_encryption s) e = ctp_serverToClientKey t" and "em_receiveKey (srv_encryption s) e = ctp_clientToServerKey t"
    and "em_timeout (srv_encryption s) e = ctp_timeoutSeconds t" and "em_connectTokenEntryIndex (srv_encryption s) e = int k"
    and "te_mac (connectTokenEntries s k) = mac" and "te_expireTimestamp (connectTokenEntries s k) = expire"
  shows "seated C from t expire mac i s s'"
proof -
  have "network_client (joined i from x e tmo ud s) i" for x tmo ud
    using srv_invD(1)[OF assms(2)] assms(3) by (auto simp: slots_inv_def)
  moreover have "token_spent (connectTokenEntriesConsume (connectTokenEntries s) (int k)) mac expire"
    unfolding token_spent_def using assms(5,10,11) by (intro exI[of _ k]) (simp add: connectTokenEntriesConsume_def)
  ultimately show ?thesis
    using assms unfolding seated_def welcomed_def
    by (auto simp: joined_def client_keys_def welcome_bytes_def Let_def)
qed

lemma response_step:
  assumes "crypto_ok C" and "running s" and "srv_flags s = 0" and "challenged C from t expire mac d s s1"
    and "welcome_token now from t expire mac s"
  shows "\<exists>s2 i. server_ProcessPacket C ts now' from (sealed_packet C (ConnectionResponse (challengeSequence s) d) q
      (ctp_clientToServerKey t) (ProtocolID (srv_config s))) s1 = Some s2 \<and> srv_inv s2 \<and> seated C from t expire mac i s1 s2"
proof -
  let ?p = "ConnectionResponse (challengeSequence s) d" and ?key = "ctp_clientToServerKey t"
  let ?tok = "\<lparr>cht_clientID = ctp_clientID t, cht_userData = ctp_userData t\<rparr>"
  let ?buf = "sealed_packet C ?p q ?key (ProtocolID (srv_config s))"
  note kept = challengedD[OF assms(4)]
  have c: "srv_inv s1" "issued C s1 (challengeSequence s) d ?tok" using assms(4) by (simp_all add: challenged_def)
  obtain e k where e: "e < 1024" "k < 2048" "fst (findEncryptionMapping (srv_encryption s1) from (srv_time s)) = int e"
    "Equal (em_address (srv_encryption s1) e) from" "em_sendKey (srv_encryption s1) e = ctp_serverToClientKey t"
    "em_receiveKey (srv_encryption s1) e = ?key" "em_timeout (srv_encryption s1) e = ctp_timeoutSeconds t"
    "em_connectTokenEntryIndex (srv_encryption s1) e = int k" "te_mac (connectTokenEntries s1 k) = mac"
    "te_expireTimestamp (connectTokenEntries s1 k) = expire"
    using assms(4) unfolding challenged_def by blast
  have w: "length ?key = 32" "findClientIndexByAddress from s1 = -1" "findClientIndexByID (ctp_clientID t) s1 = -1"
    "numConnectedClients s1 \<noteq> maxClients s1"
    using assms(5) kept by (simp_all add: welcome_token_def ctp_ok_def)
  obtain em where em: "findEncryptionMapping (srv_encryption s1) from (srv_time s1) = (int e, em)"
    using e(3) kept(6) by (metis prod.collapse)
  let ?s1 = "s1\<lparr>srv_encryption := em\<rparr>"
  obtain L where L: "?s1 = s1\<lparr>srv_encryption := (srv_encryption s1)\<lparr>em_lastAccessTime := L\<rparr>\<rparr>" "srv_inv ?s1"
    using lookup_ok[OF c(1), of "from" 0 0] w(2) em by (auto simp: lookup_origin_def packet_step_def)
  have em_eq: "em = (srv_encryption s1)\<lparr>em_lastAccessTime := L\<rparr>" using arg_cong[OF L(1), of srv_encryption] by simp
  have p: "packet_ok ?p" "\<not> is_request ?p" using c(2) by (simp_all add: issued_def)
  have read: "readPacket C ?buf (Some ?key) (ProtocolID (srv_config s1)) ts (minConnectTokenExpireTimestamp s1)
      (Some (PrivateKey (srv_config s1))) serverAllowedPackets None = Some (Some ?p, q, None)"
    unfolding kept(3) by (subst readPacket_sealed[OF assms(1) p w(1)]) (simp_all add: replay_blocks_def replay_mark_def)
  have "server_ProcessPacket C ts now' from ?buf s1 = server_processPacketInternal C now' from ?p q (int e) (-1) ?s1"
    by (rule process_unknown_sender[OF _ _ w(2) em _ _ read])
      (use assms(1,2) kept(1) e(1,6) length_sealed_packet[OF assms(1), of ?p] in \<open>auto simp: getReceiveKey_def em_eq\<close>)
  then have step: "server_ProcessPacket C ts now' from ?buf s1 = processConnectionResponsePacket C from (challengeSequence s) d (int e) ?s1"
    using assms(3) kept(2) by (simp add: server_processPacketInternal_def)
  obtain i s2 where s2: "may_join i from (ctp_clientID t) e (ctp_userData t) ?s1"
    "processConnectionResponsePacket C from (challengeSequence s) d (int e) ?s1 = Some s2" "srv_inv s2" "welcomed C from i e ?tok ?s1 s2"
    using response_admits[OF assms(1) L(2), of "challengeSequence s" d ?tok e "from"] assms(2) kept(1) c(2) e(1,4) w(2-4)
    by (auto simp: issued_def em_eq findClientIndexByAddress_def findClientIndexByID_def)
  have "seated C from t expire mac i ?s1 s2"
    by (rule welcomed_seated[OF s2(4) L(2), of k]) (use s2(1) e in \<open>auto simp: may_join_def em_eq\<close>)
  then have "seated C from t expire mac i s1 s2" by (auto simp: seated_def delivered_def)
  with step s2(2,3) show ?thesis by auto
qed

end
