(* ===== verification/Server_Properties.thy ===== *)
theory Server_Properties
  imports Server_Handshake
begin

text \<open>
  The properties of the server, over every state it can reach: no call panics, the table of clients
  is consistent, a connect token admits one client, an unauthenticated sender gets at most one short
  reply, a packet touches no client but its sender, clients are admitted only through the handshake,
  and keep-alives and timeouts happen exactly when they are due.
\<close>

subsection \<open>Used connect tokens\<close>

text \<open>The clock readings a call takes for the history, and the calls that forget it.\<close>

fun op_clocks :: "srv_op \<Rightarrow> u64 list" where
  "op_clocks (CallUpdate _ _ waiting) = map (snd \<circ> snd) waiting"
| "op_clocks (CallProcessPacket _ now _ _) = [now]"
| "op_clocks _ = []"

fun op_restarts :: "srv_op \<Rightarrow> bool" where
  "op_restarts (CallStart _ _ _) = True"
| "op_restarts CallStop = True"
| "op_restarts CallClose = True"
| "op_restarts _ = False"

lemma process_waiting_spent:
  assumes "crypto_ok C" and "srv_inv s" and "process_waiting C ts waiting s = Some s'"
    and "\<forall>now \<in> set (map (snd \<circ> snd) waiting). now < e" and "token_spent (connectTokenEntries s) mac e"
  shows "token_spent (connectTokenEntries s') mac e"
  using assms(2-5)
proof (induction waiting arbitrary: s)
  case Nil
  then show ?case by simp
next
  case (Cons w waiting)
  obtain a d now where w: "w = (a, d, now)" by (cases w)
  obtain s1 where s1: "readAndProcessPacket C ts now a d serverAllowedPackets s = Some s1"
    "packet_step a (min 333 (length d)) now s s1"
    using readAndProcessPacket_ok[OF assms(1) Cons.prems(1)] by blast
  then have "srv_inv s1" "token_spent (connectTokenEntries s1) mac e"
    using Cons.prems(3,4) w by (simp_all add: packet_step_def spent_kept_def)
  with Cons.IH[of s1] Cons.prems(2,3) s1(1) w show ?case by simp
qed

lemma Update_spent:
  assumes "crypto_ok C" and "srv_inv s" and "server_Update C t ts waiting s = Some s'"
    and "\<forall>now \<in> set (map (snd \<circ> snd) waiting). now < e" and "token_spent (connectTokenEntries s) mac e"
  shows "token_spent (connectTokenEntries s') mac e"
proof -
  let ?s0 = "s\<lparr>srv_time := t\<rparr>"
  obtain s1 s2 where u: "server_receivePackets C ts waiting ?s0 = Some s1" "server_sendPackets C s1 = Some s2"
    "checkForTimeouts C s2 = Some s'"
    using assms(3) by (auto simp: server_Update_def Let_def split: bind_splits)
  obtain w where w: "process_waiting C ts w ?s0 = Some s1" "\<forall>now \<in> set (map (snd \<circ> snd) w). now < e"
    using u(1) assms(4) by (auto simp: server_receivePackets_def split: if_splits dest: in_set_takeD)
  have spent1: "token_spent (connectTokenEntries s1) mac e"
    by (rule process_waiting_spent[OF assms(1) _ w]) (use assms(2,5) in simp_all)
  have inv1: "srv_inv s1" using process_waiting_ok[OF assms(1), of ?s0 ts w] assms(2) w(1) by auto
  from sendPackets_ok[OF assms(1) inv1] u(2) obtain ps where "srv_inv s2" "sends_only s1 ps s2" by auto
  with checkForTimeouts_ok[OF assms(1), of s2] u(3) spent1 sends_onlyD(6)[of s1 ps s2] show ?thesis
    by (auto simp: timeouts_done_def)
qed

lemma exec_spent:
  assumes "crypto_ok C" and "srv_inv s" and "srv_exec C op s = Some s'"
    and "\<not> op_restarts op" and "\<forall>now \<in> set (op_clocks op). now < e" and "token_spent (connectTokenEntries s) mac e"
  shows "token_spent (connectTokenEntries s') mac e"
proof (cases op)
  case (CallUpdate t ts waiting)
  with assms Update_spent[OF assms(1,2)] show ?thesis by auto
next
  case (CallProcessPacket ts now a d)
  with assms readAndProcessPacket_ok[OF assms(1,2), of ts now a d serverAllowedPackets] show ?thesis
    by (auto simp: server_ProcessPacket_def packet_step_def spent_kept_def)
next
  case (CallSendPacket k d)
  with assms SendPacket_kept[OF assms(1,2), of k d s'] show ?thesis by (auto simp: same_setup_def)
next
  case (CallReceivePacket k)
  with assms ReceivePacket_ok[OF assms(2), of k] show ?thesis by (auto simp: same_setup_def)
next
  case (CallDisconnectClient k)
  with assms DisconnectClient_ok[OF assms(1,2), of k] show ?thesis by (auto simp: same_setup_def)
next
  case CallDisconnectAllClients
  with assms DisconnectAllClients_ok[OF assms(1,2)] show ?thesis by (auto simp: same_setup_def)
next
  case (CallConnectLoopbackClient k x ud)
  with assms ConnectLoopbackClient_ok[OF assms(2), of k x ud] show ?thesis by (auto simp: same_setup_def)
next
  case (CallDisconnectLoopbackClient k)
  with assms DisconnectLoopbackClient_ok[OF assms(2), of k] show ?thesis by (auto simp: same_setup_def)
next
  case (CallProcessLoopbackPacket k d q)
  with assms ProcessLoopbackPacket_ok[OF assms(2), of k d q] show ?thesis by (auto simp: same_setup_def)
qed (use assms(4) in simp_all)

lemma run_spent:
  assumes "crypto_ok C" and "srv_inv s" and "run (srv_exec C) ops s = Some s'"
    and "\<forall>op \<in> set ops. op_typed op \<and> \<not> op_restarts op \<and> (\<forall>now \<in> set (op_clocks op). now < e)"
    and "token_spent (connectTokenEntries s) mac e"
  shows "srv_inv s' \<and> token_spent (connectTokenEntries s') mac e"
proof
  let ?ok = "\<lambda>op. \<not> op_restarts op \<and> (\<forall>now \<in> set (op_clocks op). now < e)"
  have ops: "list_all (\<lambda>op. (crypto_ok C \<and> op_typed op) \<and> ?ok op) ops" using assms(1,4) by (simp add: list_all_iff)
  then have "list_all (\<lambda>op. crypto_ok C \<and> op_typed op) ops" by (simp add: list_all_iff)
  from server.run_inv[OF assms(2) this assms(3)] show "srv_inv s'" .
  show "token_spent (connectTokenEntries s') mac e"
    by (rule server.run_keeps[where P = "\<lambda>s. token_spent (connectTokenEntries s) mac e", OF assms(2) ops assms(3,5)])
      (use assms(1) exec_spent in auto)
qed

lemma spent_request_ignored:
  assumes "srv_inv s" and "token_spent (connectTokenEntries s) (drop 1008 (req_connectTokenData req)) e"
    and "length (req_connectTokenData req) = 1024"
  shows "processConnectionRequestPacket C now from req s = Some s"
proof -
  obtain err token where read: "connectTokenPrivate_read zeroConnectTokenPrivate (req_connectTokenData req) = Some (err, token)"
    using connectTokenPrivate_read_total[of zeroConnectTokenPrivate "req_connectTokenData req"] by auto
  have es: "entries_inv (connectTokenEntries s)" using srv_invD(3)[OF assms(1)] by (simp add: history_inv_def)
  have "length (drop 1008 (req_connectTokenData req)) = 16" using assms(3) by simp
  from token_spent_refused[OF es this assms(2)] show ?thesis
    by (simp add: processConnectionRequestPacket_def read)
qed

subsection \<open>Admission\<close>

text \<open>Of all packets only a connection response connects a slot.\<close>

lemma internal_connects:
  assumes "crypto_ok C" and "srv_inv s" and "running s" and "packet_ok p" and "origin from k c s"
    and "server_processPacketInternal C now from p q k c s = Some s'" and "\<not> clientConnected s i" and "clientConnected s' i"
  shows "\<exists>tq td e token plain. p = ConnectionResponse tq td \<and> k = int e \<and>
    decryptChallengeToken C td tq (challengeKey s) = Some (Inr plain) \<and>
    challengeToken_read zeroChallengeToken plain = Some (None, token) \<and> admitted from i e token s s'"
proof (cases p)
  case (ConnectionRequest req)
  with assms(4) have "length (req_connectTokenData req) = 1024" by simp
  from request_ok[OF assms(1,2) this, of now "from"] assms(6-8) ConnectionRequest show ?thesis
    by (auto simp: server_processPacketInternal_def requested_def split: if_splits)
next
  case (ConnectionResponse tq td)
  with assms(4) have td: "length td = 300" by simp
  from assms(5) have o: "k = -1 \<or> (\<exists>e<1024. k = int e \<and> Equal (em_address (srv_encryption s) e) from)"
    by (simp add: origin_def)
  have "processConnectionResponsePacket C from tq td k s = Some s'"
    using assms(6-8) ConnectionResponse by (auto simp: server_processPacketInternal_def split: if_splits)
  with response_ok[OF assms(1-3) td o, of tq] assms(7,8)
  obtain j e token plain where a: "decryptChallengeToken C td tq (challengeKey s) = Some (Inr plain)"
    "challengeToken_read zeroChallengeToken plain = Some (None, token)" "k = int e" "admitted from j e token s s'"
    by auto
  then have "j = i" using assms(7,8) by (auto simp: admitted_def Let_def split: if_splits)
  with a ConnectionResponse show ?thesis by blast
next
  case ConnectionDisconnect
  show ?thesis
  proof (cases "c = -1")
    case True
    with assms(6-8) ConnectionDisconnect show ?thesis by (simp add: server_processPacketInternal_def)
  next
    case False
    with assms(5) obtain j where j: "c = int j" "network_client s j" by (auto simp: origin_def)
    from disconnect_ok[OF assms(1,2) j(2), of False DisconnectReasonClientDisconnect] assms(6-8) ConnectionDisconnect j(1)
    show ?thesis by (auto simp: server_processPacketInternal_def disconnected_def split: if_splits)
  qed
qed (use assms(5-8) in \<open>auto simp: server_processPacketInternal_def note_received_def origin_def Let_def split: if_splits\<close>)

lemma read_packet_ok:
  assumes "crypto_ok C" and "readPacket C buf key pid ts minE priv allowed replay = Some (Some p, q, r)"
  shows "packet_ok p" "r = None \<longleftrightarrow> replay = None"
proof -
  show "packet_ok p"
    by (rule readPacket_cases[OF assms(1), of buf key pid ts minE priv allowed replay])
      (use assms(2) accepted_length(2)[OF _ assms(1)] in \<open>auto simp: request_accept_def\<close>)
  show "r = None \<longleftrightarrow> replay = None"
    by (rule readPacket_cases[OF assms(1), of buf key pid ts minE priv allowed replay])
      (use assms(2) in \<open>auto simp: replay_mark_def split: option.splits if_splits\<close>)
qed

lemma packet_connects:
  assumes "crypto_ok C" and "srv_inv s" and "server_ProcessPacket C ts now from buf s = Some s'"
    and "\<not> clientConnected s i" and "clientConnected s' i"
  shows "\<exists>e q tq td token plain L. fst (findEncryptionMapping (srv_encryption s) from (srv_time s)) = int e \<and>
    readPacket C buf (Some (em_receiveKey (srv_encryption s) e)) (ProtocolID (srv_config s)) ts
      (minConnectTokenExpireTimestamp s) (Some (PrivateKey (srv_config s))) serverAllowedPackets None =
      Some (Some (ConnectionResponse tq td), q, None) \<and>
    decryptChallengeToken C td tq (challengeKey s) = Some (Inr plain) \<and>
    challengeToken_read zeroChallengeToken plain = Some (None, token) \<and>
    admitted from i e token (s\<lparr>srv_encryption := (srv_encryption s)\<lparr>em_lastAccessTime := L\<rparr>\<rparr>) s'"
proof -
  let ?c = "findClientIndexByAddress from s"
  obtain k s1 L where s1: "lookup_origin from s = Some (k, s1)" "origin from k ?c s1" "packet_step from 0 now s s1"
    "s1 = s\<lparr>srv_encryption := (srv_encryption s)\<lparr>em_lastAccessTime := L\<rparr>\<rparr>"
    using lookup_ok[OF assms(2), of "from" 0 now] by blast
  have inv1: "srv_inv s1" using s1(3) by (simp add: packet_step_def)
  have run: "running s" "\<not> length buf \<le> 1"
    using assms(3-5) by (auto simp: server_ProcessPacket_def readAndProcessPacket_def split: if_splits)
  obtain key where key: "getReceiveKey (srv_encryption s1) k = Some key"
    using s1(2) by (auto simp: origin_def getReceiveKey_def)
  have g: "(\<not> running s \<or> length buf \<le> 1) = False" using run by blast
  have idx: "?c \<noteq> -1 \<Longrightarrow> idx MaxClients ?c = Some (nat ?c)" using s1(2) by (auto simp: origin_def)
  define replay where "replay = (if ?c = -1 then None else Some (clientReplayProtection s1 (nat ?c)))"
  have "(if key = None \<and> buf ! 0 \<noteq> 0 then Some s1 else do {
          (packet, sequence, replay) \<leftarrow> readPacket C buf key (ProtocolID (srv_config s)) ts
              (minConnectTokenExpireTimestamp s) (Some (PrivateKey (srv_config s))) serverAllowedPackets replay;
          let s2 = (case replay of None \<Rightarrow> s1
            | Some rp \<Rightarrow> s1\<lparr>clientReplayProtection := (clientReplayProtection s1)(nat ?c := rp)\<rparr>);
          case packet of None \<Rightarrow> Some s2
          | Some p \<Rightarrow> server_processPacketInternal C now from p sequence k ?c s2 }) = Some s'"
    using assms(3) idx
    unfolding server_ProcessPacket_def readAndProcessPacket_eq g if_False s1(1) bind.bind_lunit prod.case key replay_def
    by (auto simp: s1(4) split: if_splits)
  moreover have "clientConnected s' \<noteq> clientConnected s1" using assms(4,5) by (auto simp: s1(4))
  ultimately obtain p q r s2 where p: "readPacket C buf key (ProtocolID (srv_config s)) ts
        (minConnectTokenExpireTimestamp s) (Some (PrivateKey (srv_config s))) serverAllowedPackets replay = Some (Some p, q, r)"
      "server_processPacketInternal C now from p q k ?c s2 = Some s'"
      "s2 = (case r of None \<Rightarrow> s1 | Some rp \<Rightarrow> s1\<lparr>clientReplayProtection := (clientReplayProtection s1)(nat ?c := rp)\<rparr>)"
    by (auto simp: Let_def split: if_splits bind_splits option.splits)
  have s2: "srv_inv s2" "running s2" "origin from k ?c s2" "\<not> clientConnected s2 i" "challengeKey s2 = challengeKey s"
  proof -
    have c: "r \<noteq> None \<Longrightarrow> \<exists>j. ?c = int j \<and> network_client s1 j \<and> Equal (clientAddress s1 j) from"
      using read_packet_ok(2)[OF assms(1) p(1)] s1(2) by (auto simp: origin_def replay_def split: if_splits)
    show "srv_inv s2"
      using inv1 c replay_step[OF inv1] by (auto simp: p(3) packet_step_def split: option.splits)
    show "running s2" "origin from k ?c s2" "\<not> clientConnected s2 i" "challengeKey s2 = challengeKey s"
      using run s1(2) assms(4) by (simp_all add: p(3) s1(4) origin_def split: option.splits)
  qed
  from internal_connects[OF assms(1) s2(1,2) read_packet_ok(1)[OF assms(1) p(1)] s2(3) p(2) s2(4) assms(5)]
  obtain tq td e token plain where c: "p = ConnectionResponse tq td" "k = int e"
    "decryptChallengeToken C td tq (challengeKey s) = Some (Inr plain)"
    "challengeToken_read zeroChallengeToken plain = Some (None, token)" "admitted from i e token s2 s'"
    unfolding s2(5) by blast
  have none: "?c = -1"
    using s2(3) c(5) by (auto simp: origin_def admitted_def may_join_def)
  then have "replay = None" by (simp add: replay_def)
  moreover from this have r: "r = None" using read_packet_ok(2)[OF assms(1) p(1)] by simp
  moreover have "key = Some (em_receiveKey (srv_encryption s) e)"
    using key c(2) by (auto simp: getReceiveKey_def s1(4) split: bind_splits)
  moreover have "fst (findEncryptionMapping (srv_encryption s) from (srv_time s)) = int e"
    using s1(1) none c(2) by (auto simp: lookup_origin_def split: prod.splits)
  ultimately show ?thesis using p(1,3) c(1,3-5) s1(4) by auto
qed

text \<open>A mapping with an address has the number of an occupied entry of the token history.\<close>

lemma mapping_entry:
  assumes "srv_inv s" and "Equal (em_address (srv_encryption s) e) a"
  shows "\<exists>k<2048. em_connectTokenEntryIndex (srv_encryption s) e = int k \<and> te_state (connectTokenEntries s k) \<noteq> 0"
proof -
  have "Type (em_address (srv_encryption s) e) \<noteq> 0" using assms(2) by (auto simp: Equal_def split: if_splits)
  then have "0 \<le> em_connectTokenEntryIndex (srv_encryption s) e" "em_connectTokenEntryIndex (srv_encryption s) e < 2048"
    "te_state (connectTokenEntries s (nat (em_connectTokenEntryIndex (srv_encryption s) e))) \<noteq> 0"
    using srv_invD(3)[OF assms(1)] unfolding history_inv_def by metis+
  then show ?thesis by (intro exI[of _ "nat (em_connectTokenEntryIndex (srv_encryption s) e)"]) simp
qed

subsection \<open>A server to witness the properties\<close>

definition sample_config :: ServerConfig where
  "sample_config = \<lparr>ProtocolID = 0x1122334455667788, PrivateKey = replicate 32 7, MaxConnectTokenLifetime = 0,
     NetworkSimulator = False, ConnectDisconnectCallback = True, SendLoopbackPacketCallback = True,
     OverrideSendAndReceive = True, SendPacketOverride = True, ReceivePacketOverride = True\<rparr>"

definition sample_server :: Server where
  "sample_server = new_server sample_config sample_address zeroAddress 0 None None"

definition sample_running :: Server where
  "sample_running = the (Start checksum_crypto 4 100 (replicate 32 1) sample_server)"

lemma sample_start: "Start checksum_crypto 4 100 (replicate 32 1) sample_server = Some sample_running"
  by (simp add: sample_running_def Start_def sample_server_def new_server_def)

lemma sample_reachable: "srv_reachable checksum_crypto sample_server" "srv_reachable checksum_crypto sample_running"
proof -
  show s: "srv_reachable checksum_crypto sample_server"
    unfolding sample_server_def by (rule srv_created)
  show "srv_reachable checksum_crypto sample_running"
    by (rule srv_called[OF s checksum_crypto_ok, of "CallStart 4 100 (replicate 32 1)"]) (simp_all add: sample_start)
qed

lemma sample_running_fields [simp]:
  "running sample_running" "maxClients sample_running = 4" "\<not> clientConnected sample_running i"
  "connectTokenEntries sample_running = initial_entries" "srv_address sample_running = sample_address"
  "srv_flags sample_running = 0" "srv_time sample_running = 0" "numConnectedClients sample_running = 0"
  "srv_config sample_running = sample_config\<lparr>MaxConnectTokenLifetime := 30\<rparr>"
  "minConnectTokenExpireTimestamp sample_running = 130"
  "numEncryptionMappings (srv_encryption sample_running) = 0" "em_address (srv_encryption sample_running) j = zeroAddress"
  by (simp_all add: sample_running_def Start_def sample_server_def new_server_def normalize_config_def sample_config_def
      encryptionManager_reset_def)

text \<open>A loopback client in slot 2.\<close>

definition sample_loopback :: Server where
  "sample_loopback = the (ConnectLoopbackClient 2 99 [1, 2, 3] sample_running)"

lemma sample_loopback_connect: "ConnectLoopbackClient 2 99 [1, 2, 3] sample_running = Some sample_loopback"
  by (simp add: sample_loopback_def ConnectLoopbackClient_def slot_in_range_def)

lemma sample_loopback_reachable: "srv_reachable checksum_crypto sample_loopback"
  by (rule srv_called[OF sample_reachable(2) checksum_crypto_ok, of "CallConnectLoopbackClient 2 99 [1, 2, 3]"])
    (simp_all add: sample_loopback_connect)

lemma sample_loopback_fields [simp]:
  "running sample_loopback" "maxClients sample_loopback = 4" "clientConnected sample_loopback i \<longleftrightarrow> i = 2"
  "clientLoopback sample_loopback i \<longleftrightarrow> i = 2" "clientAddress sample_loopback 2 = zeroAddress"
  by (simp_all add: sample_loopback_def ConnectLoopbackClient_def slot_in_range_def notify_def)
    (simp_all add: sample_running_def Start_def sample_server_def new_server_def)

subsection \<open>Properties\<close>

text \<open>
  C6: only a nil callback panics. In every state a server can reach through its interface, whatever its
  configuration, whatever bytes arrive from whatever address and whatever slot the application names,
  a call panics exactly when it calls a callback that is nil: \<open>Update\<close> when packets come through the
  override and the receive callback is nil, and \<open>SendPacket\<close> with a payload of valid size for a
  connected loopback client when the loopback callback is nil. No other call panics, and no accessor.
\<close>

theorem server_panics_exactly:
  assumes "crypto_ok C" and "srv_reachable C s" and "op_typed op"
  shows "(srv_exec C op s = None \<longleftrightarrow>
      (\<exists>t ts waiting. op = CallUpdate t ts waiting \<and> OverrideSendAndReceive (srv_config s) \<and>
        \<not> NetworkSimulator (srv_config s) \<and> \<not> ReceivePacketOverride (srv_config s)) \<or>
      (\<exists>j d. op = CallSendPacket j d \<and> 0 < length d \<and> length d \<le> MaxPacketSize \<and> running s \<and>
        0 \<le> j \<and> j < maxClients s \<and> clientConnected s (nat j) \<and> clientLoopback s (nat j) \<and>
        \<not> SendLoopbackPacketCallback (srv_config s))) \<and>
    ClientConnected k s \<noteq> None \<and> ClientDisconnectReason k s \<noteq> None \<and>
    ClientID k s \<noteq> None \<and> ClientAddress k s \<noteq> None \<and> ClientLoopback k s \<noteq> None \<and>
    ClientUserData k s \<noteq> None \<and> server_NextPacketSequence k s \<noteq> None"
proof -
  note inv = reachable_inv[OF assms(1,2)]
  have "client_slot k s x get \<noteq> None" for x :: 'b and get
    using slot_range[OF srv_invD(1)[OF inv], of k] by (auto simp: client_slot_def)
  then have "ClientConnected k s \<noteq> None \<and> ClientDisconnectReason k s \<noteq> None \<and> ClientID k s \<noteq> None \<and>
      ClientAddress k s \<noteq> None \<and> ClientLoopback k s \<noteq> None \<and> ClientUserData k s \<noteq> None \<and>
      server_NextPacketSequence k s \<noteq> None"
    using slot_range[OF srv_invD(1)[OF inv], of k]
    by (auto simp: client_slot_def ClientConnected_def ClientDisconnectReason_def ClientID_def ClientAddress_def
        ClientLoopback_def ClientUserData_def server_NextPacketSequence_def)
  moreover have "srv_exec C op s = None \<longleftrightarrow> nil_callback op s"
    using server.stuck_iff[OF assms(2), of op] assms(1,3) by blast
  ultimately show ?thesis
    by (cases op) (auto simp: receives_def nil_loopback_callback_def slot_in_range_def simp del: not_None_eq)
qed

text \<open>A server without callbacks, with a loopback client in slot 2: only the payload for that client panics.\<close>

definition bare_config :: ServerConfig where
  "bare_config = sample_config\<lparr>SendLoopbackPacketCallback := False, OverrideSendAndReceive := False,
     SendPacketOverride := False, ReceivePacketOverride := False, ConnectDisconnectCallback := False\<rparr>"

definition bare_loopback :: Server where
  "bare_loopback = the (run (srv_exec checksum_crypto) [CallStart 4 100 (replicate 32 1), CallConnectLoopbackClient 2 99 [1, 2, 3]]
     (new_server bare_config sample_address zeroAddress 0 None None))"

lemma bare_loopback_run:
  "run (srv_exec checksum_crypto) [CallStart 4 100 (replicate 32 1), CallConnectLoopbackClient 2 99 [1, 2, 3]]
     (new_server bare_config sample_address zeroAddress 0 None None) = Some bare_loopback"
  unfolding bare_loopback_def by (simp add: Start_def new_server_def ConnectLoopbackClient_def slot_in_range_def)

lemma bare_loopback_reachable: "srv_reachable checksum_crypto bare_loopback"
  by (rule reachable_run[OF srv_created _ bare_loopback_run]) (simp add: checksum_crypto_ok)

lemma bare_loopback_fields:
  "running bare_loopback" "maxClients bare_loopback = 4" "clientConnected bare_loopback 2" "clientLoopback bare_loopback 2"
  "\<not> SendLoopbackPacketCallback (srv_config bare_loopback)" "\<not> OverrideSendAndReceive (srv_config bare_loopback)"
  by (simp_all add: bare_loopback_def Start_def new_server_def ConnectLoopbackClient_def slot_in_range_def notify_def
      normalize_config_def bare_config_def)

theorem server_panics_exactly_witness:
  "srv_exec checksum_crypto (CallSendPacket 2 [7]) bare_loopback = None \<and>
    srv_exec checksum_crypto (CallSendPacket 1 [7]) bare_loopback \<noteq> None \<and>
    srv_exec checksum_crypto (CallUpdate 1 5 [(sample_address, [0, 1, 2], 5)]) bare_loopback \<noteq> None \<and> ClientID 3 bare_loopback \<noteq> None"
proof -
  note p = server_panics_exactly[OF checksum_crypto_ok bare_loopback_reachable]
  have "srv_exec checksum_crypto (CallSendPacket 2 [7]) bare_loopback = None"
    using p[of "CallSendPacket 2 [7]"] bare_loopback_fields by simp
  moreover have "\<not> clientConnected bare_loopback 1"
    by (simp add: bare_loopback_def Start_def new_server_def ConnectLoopbackClient_def slot_in_range_def notify_def)
  then have "srv_exec checksum_crypto (CallSendPacket 1 [7]) bare_loopback \<noteq> None"
    using p[of "CallSendPacket 1 [7]"] by (simp del: not_None_eq srv_exec.simps)
  moreover have "srv_exec checksum_crypto (CallUpdate 1 5 [(sample_address, [0, 1, 2], 5)]) bare_loopback \<noteq> None"
    using p[of "CallUpdate 1 5 [(sample_address, [0, 1, 2], 5)]"] bare_loopback_fields by (simp del: not_None_eq srv_exec.simps)
  moreover have "ClientID 3 bare_loopback \<noteq> None" using p[of CallStop 3] by (simp del: not_None_eq)
  ultimately show ?thesis by blast
qed

text \<open>
  C7: the table of clients is consistent in every state a server can reach: the number of connected
  clients is the number of connected slots, connected slots exist only on a running server and below
  its slot count of at most 256, two network clients never share an address or a client ID, and the
  encryption mapping of a network client is for its address and belongs to its slot.
\<close>

theorem client_table_consistent:
  assumes "crypto_ok C" and "srv_reachable C s"
  shows "numConnectedClients s = int (card {i. clientConnected s i}) \<and>
    numConnectedClients s \<le> maxClients s \<and> maxClients s \<le> int MaxClients \<and>
    (\<forall>i. clientConnected s i \<longrightarrow> running s \<and> int i < maxClients s) \<and>
    (\<forall>i j. network_client s i \<and> network_client s j \<and> i \<noteq> j \<longrightarrow>
       \<not> Equal (clientAddress s i) (clientAddress s j) \<and> clientID s i \<noteq> clientID s j) \<and>
    (\<forall>i. network_client s i \<longrightarrow> (\<exists>e<maxEncryptionMappings. clientEncryptionIndex s i = int e \<and>
       Equal (em_address (srv_encryption s) e) (clientAddress s i) \<and> em_clientIndex (srv_encryption s) e = int i))"
proof -
  have inv: "srv_inv s" by (rule reachable_inv[OF assms])
  note I = srv_invD[OF inv]
  have "{i. clientConnected s i} \<subseteq> {..<nat (maxClients s)}" using connected_range(4)[OF I(1)] by auto
  from card_mono[OF _ this] have "card {i. clientConnected s i} \<le> nat (maxClients s)" by simp
  moreover have range: "0 \<le> maxClients s" "maxClients s \<le> 256" using I(1) by (auto simp: slots_inv_def split: if_splits)
  ultimately have "int (card {i. clientConnected s i}) \<le> maxClients s" by linarith
  moreover have "numConnectedClients s = int (card {i. clientConnected s i})" using I(1) by (simp add: slots_inv_def)
  moreover have "\<forall>i. clientConnected s i \<longrightarrow> running s \<and> int i < maxClients s" using connected_range(2,3)[OF I(1)] by blast
  ultimately show ?thesis using I(2,5) range by (simp add: keys_inv_def apart_inv_def)
qed

theorem client_table_consistent_witness:
  "numConnectedClients sample_loopback = int (card {i. clientConnected sample_loopback i}) \<and>
    clientConnected sample_loopback 2 \<and> int 2 < maxClients sample_loopback"
  using client_table_consistent[OF checksum_crypto_ok sample_loopback_reachable] by simp


text \<open>A network client that went through the handshake.\<close>

lemma sample_welcome_from:
  assumes "Equal a a"
  shows "welcome_token 100 a sample_private 100000 mac sample_running"
proof -
  have "found_server_address sample_private sample_running"
    by (simp add: found_server_address_def sample_private_def generateConnectTokenPrivate_def Equal_def sample_address_def)
  moreover have "entry_index initial_entries mac = -1" "find_index (entry_available initial_entries 100) 2048 \<noteq> -1"
    by (simp_all add: entry_index_def find_index_neg entry_matches_def entry_available_def initial_entries_def connectTokenEntriesReset_def exI[of _ 0])
  moreover have "\<exists>j<1024. Type (em_address (srv_encryption sample_running) j) = 0"
    by (rule exI[of _ 0]) simp
  ultimately show ?thesis
    using assms
    by (simp add: welcome_token_def sample_private_ok findClientIndexByAddress_def findClientIndexByID_def find_index_neg findEncryptionMapping_def)
qed

lemma sample_welcome: "welcome_token 100 sample_address sample_private 100000 mac sample_running"
  by (rule sample_welcome_from) (simp add: Equal_def sample_address_def)

lemma sample_sealed:
  "\<exists>plain sealed opened. connectTokenPrivate_write sample_private (replicate 1024 0) = Some plain \<and>
    encryptConnectTokenPrivate checksum_crypto plain 0x1122334455667788 100000 (replicate 24 0) (replicate 32 7) = Some (Inr sealed) \<and>
    length sealed = 1024 \<and> length opened = 1024 \<and> drop 1008 opened = drop 1008 sealed \<and>
    decryptConnectTokenPrivate checksum_crypto sealed 0x1122334455667788 100000 (replicate 24 0) (replicate 32 7) = Some (Inr opened) \<and>
    connectTokenPrivate_read zeroConnectTokenPrivate opened = Some (None, sample_private)"
  using private_token_transfer[OF checksum_crypto_ok sample_private_ok, of "replicate 1024 0" "replicate 32 7" "replicate 24 0"]
  by fastforce

lemma sample_seat:
  "\<exists>s1 buf s2 i mac. srv_reachable checksum_crypto s1 \<and> server_ProcessPacket checksum_crypto 100 100 sample_address buf s1 = Some s2 \<and>
    srv_reachable checksum_crypto s2 \<and> running s2 \<and> srv_time s1 = 0 \<and> srv_time s2 = 0 \<and> maxClients s2 = maxClients s1 \<and>
    srv_config s2 = srv_config sample_running \<and> length mac = 16 \<and> seated checksum_crypto sample_address sample_private 100000 mac i s1 s2 \<and>
    (\<exists>opened. length opened = 1024 \<and> drop 1008 opened = mac \<and>
      connectTokenPrivate_read zeroConnectTokenPrivate opened = Some (None, sample_private))"
proof -
  let ?r = sample_running and ?C = checksum_crypto and ?t = sample_private
  obtain sealed opened where sealed: "length sealed = 1024" "length opened = 1024" "drop 1008 opened = drop 1008 sealed"
    "decryptConnectTokenPrivate ?C sealed (ProtocolID (srv_config ?r)) 100000 (replicate 24 0) (PrivateKey (srv_config ?r)) = Some (Inr opened)"
    "connectTokenPrivate_read zeroConnectTokenPrivate opened = Some (None, ?t)"
    using sample_sealed by (auto simp: sample_config_def)
  have inv: "srv_inv ?r" using reachable_inv[OF checksum_crypto_ok sample_reachable(2)] by simp
  obtain s1 d where s1: "server_ProcessPacket ?C 100 100 sample_address (request_bytes (ProtocolID (srv_config ?r)) 100000 (replicate 24 0) sealed) ?r = Some s1"
    "challenged ?C sample_address ?t 100000 (drop 1008 sealed) d ?r s1"
    using request_step[OF checksum_crypto_ok inv _ _ _ sealed sample_welcome, of 100] by auto
  obtain s2 i where s2: "server_ProcessPacket ?C 100 100 sample_address (sealed_packet ?C (ConnectionResponse (challengeSequence ?r) d) 0
      (ctp_clientToServerKey ?t) (ProtocolID (srv_config ?r))) s1 = Some s2" "srv_inv s2"
    "seated ?C sample_address ?t 100000 (drop 1008 sealed) i s1 s2"
    using response_step[OF checksum_crypto_ok _ _ s1(2) sample_welcome, of 100 100 0] by auto
  have r1: "srv_reachable ?C s1"
    using srv_called[OF sample_reachable(2) checksum_crypto_ok, of "CallProcessPacket 100 100 _ _"] s1(1) by simp
  from this have r2: "srv_reachable ?C s2"
    using srv_called[OF _ checksum_crypto_ok, of _ "CallProcessPacket 100 100 _ _"] s2(1) by simp
  have "srv_inv s1" using s1(2) by (simp add: challenged_def)
  with ProcessPacket_ok[OF checksum_crypto_ok this, of 100 100 sample_address] s2(1) have "setup_kept s1 s2"
    by (metis option.inject)
  moreover have "running s1" "srv_time s1 = 0" "srv_config s1 = srv_config ?r" using challengedD(1,3,6)[OF s1(2)] by simp_all
  ultimately have kept: "srv_time s2 = 0" "running s2" "maxClients s2 = maxClients s1" "srv_time s1 = 0"
    "srv_config s2 = srv_config ?r" by (simp_all add: setup_kept_def)
  have "length (drop 1008 sealed) = 16" using sealed(1) by simp
  with r1 r2 kept s2(1,3) sealed(2,3,5) show ?thesis by blast
qed

lemma sample_client:
  "\<exists>s i mac. srv_reachable checksum_crypto s \<and> running s \<and> network_client s i \<and> int i < maxClients s \<and>
    clientAddress s i = sample_address \<and> clientID s i = 7 \<and> sint (clientTimeout s i) = 15 \<and>
    clientLastPacketSendTime s i = 0 \<and> clientLastPacketReceiveTime s i = 0 \<and> srv_time s = 0 \<and>
    length mac = 16 \<and> token_spent (connectTokenEntries s) mac 100000 \<and> receives (srv_config s) \<and>
    (\<exists>opened. length opened = 1024 \<and> drop 1008 opened = mac \<and>
      connectTokenPrivate_read zeroConnectTokenPrivate opened = Some (None, sample_private))"
proof -
  obtain s1 s2 i mac where s2: "srv_reachable checksum_crypto s2" "running s2" "srv_time s1 = 0" "srv_time s2 = 0"
    "maxClients s2 = maxClients s1" "srv_config s2 = srv_config sample_running" "length mac = 16" "seated checksum_crypto sample_address sample_private 100000 mac i s1 s2"
    "\<exists>opened. length opened = 1024 \<and> drop 1008 opened = mac \<and>
      connectTokenPrivate_read zeroConnectTokenPrivate opened = Some (None, sample_private)"
    using sample_seat by blast
  have "ctp_clientID sample_private = 7" "sint (ctp_timeoutSeconds sample_private) = 15"
    by (simp_all add: sample_private_def generateConnectTokenPrivate_def)
  moreover have "receives (srv_config sample_running)" by (simp add: receives_def sample_config_def)
  ultimately show ?thesis using s2
    unfolding seated_def by (intro exI[of _ s2] exI[of _ i] exI[of _ mac]) simp
qed


text \<open>One round of \<open>server_Update\<close>: packets, then keep-alives, then timeouts.\<close>

abbreviation keep_alives :: "crypto \<Rightarrow> Server \<Rightarrow> (Address \<times> byte list) list" where
  "keep_alives C s \<equiv> concat (map (\<lambda>i. if keep_alive_due s i
     then delivered s (clientAddress s i) (keep_alive_bytes C s i) else []) [0..<nat (maxClients s)])"

lemma Update_round:
  assumes "crypto_ok C" and "srv_inv s" and "receives (srv_config s)" and "running s"
  shows "\<exists>s1 s2 s'. server_receivePackets C ts waiting (s\<lparr>srv_time := t\<rparr>) = Some s1 \<and> srv_inv s1 \<and> srv_time s1 = t \<and>
    sends_only s1 (keep_alives C s1) s2 \<and> server_Update C t ts waiting s = Some s' \<and>
    (\<exists>new. srv_events s' = srv_events s1 @ new \<and> sent_packets new = keep_alives C s1) \<and>
    (\<forall>i. if silent s1 i then timed_out i s' else slot_view i s' = slot_view i s2)"
proof -
  let ?s0 = "s\<lparr>srv_time := t\<rparr>"
  obtain s1 where s1: "server_receivePackets C ts waiting ?s0 = Some s1" "srv_inv s1" "setup_kept ?s0 s1"
    using receivePackets_ok[OF assms(1), of ?s0] assms(2,3) by auto
  then have run: "running s1" "srv_time s1 = t" using assms(4) by (simp_all add: setup_kept_def)
  obtain s2 where s2: "server_sendPackets C s1 = Some s2" "srv_inv s2" "sends_only s1 (keep_alives C s1) s2"
    using sendPackets_ok[OF assms(1) s1(2)] run by auto
  note kept = sends_onlyD[OF s2(3)]
  obtain s' where s': "checkForTimeouts C s2 = Some s'" "timeouts_done (nat (maxClients s2)) s2 s'"
    using checkForTimeouts_ok[OF assms(1) s2(2)] kept(5) run by (auto simp: setup_kept_def)
  have silent: "silent s2 i = silent s1 i" "silent s2 i \<Longrightarrow> i < nat (maxClients s2)" for i
    using kept connected_range(4)[OF srv_invD(1)[OF s2(2)]] by (simp_all add: silent_def)
  have "if silent s1 i then timed_out i s' else slot_view i s' = slot_view i s2" for i
    using s'(2) silent[of i] by (auto simp: timeouts_done_def split: if_splits)
  moreover obtain n1 n2 where "srv_events s2 = srv_events s1 @ n1" "sent_packets n1 = keep_alives C s1"
    "srv_events s' = srv_events s2 @ n2" "sent_packets n2 = []"
    using s2(3) s'(2) by (auto simp: sends_only_def timeouts_done_def)
  then have "\<exists>new. srv_events s' = srv_events s1 @ new \<and> sent_packets new = keep_alives C s1"
    by (intro exI[of _ "n1 @ n2"]) simp
  moreover have "server_Update C t ts waiting s = Some s'" using s1(1) s2(1) s'(1) by (simp add: server_Update_def Let_def)
  ultimately show ?thesis using s1(1,2) s2(3) run(2) by blast
qed

lemma receive_nothing:
  "receives (srv_config s) \<Longrightarrow> server_receivePackets C ts [] (s\<lparr>srv_time := t\<rparr>) = Some (s\<lparr>srv_time := t\<rparr>)"
  by (auto simp: server_receivePackets_def receives_def)


text \<open>
  C2: the handshake admits every client with a valid connect token. A running server answers the
  connection request of a client it does not know with one challenge packet, and the response that
  returns the challenge with one keep-alive packet; the client then has a slot with the client ID,
  user data, timeout and keys of its token, the count of clients is one higher and the token is
  recorded as used.
\<close>

theorem server_handshake:
  assumes "crypto_ok C" and "srv_reachable C s" and "running s" and "srv_flags s = 0"
    and "length nonce = 24" and "length (PrivateKey (srv_config s)) = KeyBytes"
    and "connectTokenPrivate_write t (replicate connectTokenPrivateBytes 0) = Some plain"
    and "encryptConnectTokenPrivate C plain (ProtocolID (srv_config s)) expire nonce (PrivateKey (srv_config s)) = Some (Inr sealed)"
    and "welcome_token now from t expire (drop (connectTokenPrivateBytes - MacBytes) sealed) s" and "ts < expire"
  shows "\<exists>challenge s1 s2 i.
    server_ProcessPacket C ts now from (request_bytes (ProtocolID (srv_config s)) expire nonce sealed) s = Some s1 \<and>
    challenged C from t expire (drop (connectTokenPrivateBytes - MacBytes) sealed) challenge s s1 \<and>
    server_ProcessPacket C ts now from (sealed_packet C (ConnectionResponse (challengeSequence s) challenge) q
      (ctp_clientToServerKey t) (ProtocolID (srv_config s))) s1 = Some s2 \<and>
    seated C from t expire (drop (connectTokenPrivateBytes - MacBytes) sealed) i s1 s2"
proof -
  have inv: "srv_inv s" by (rule reachable_inv[OF assms(1,2)])
  have "ctp_ok t" using assms(9) by (simp add: welcome_token_def)
  from private_token_transfer[OF assms(1) this, of "replicate 1024 0" "PrivateKey (srv_config s)" nonce "ProtocolID (srv_config s)" expire]
  obtain opened where sealed: "length sealed = 1024" "length opened = 1024" "drop 1008 opened = drop 1008 sealed"
    "decryptConnectTokenPrivate C sealed (ProtocolID (srv_config s)) expire nonce (PrivateKey (srv_config s)) = Some (Inr opened)"
    "connectTokenPrivate_read zeroConnectTokenPrivate opened = Some (None, t)"
    using assms(5-8) by auto
  have w: "welcome_token now from t expire (drop 1008 sealed) s" using assms(9) by simp
  obtain s1 d where s1: "server_ProcessPacket C ts now from (request_bytes (ProtocolID (srv_config s)) expire nonce sealed) s = Some s1"
    "challenged C from t expire (drop 1008 sealed) d s s1"
    using request_step[OF assms(1) inv assms(3-5) sealed w assms(10)] by blast
  from response_step[OF assms(1,3,4) s1(2) w, of ts now q] s1 show ?thesis by auto
qed


theorem server_handshake_witness:
  "\<exists>plain sealed challenge s1 s2 i.
    encryptConnectTokenPrivate checksum_crypto plain 0x1122334455667788 100000 (replicate 24 0) (replicate 32 7) = Some (Inr sealed) \<and>
    server_ProcessPacket checksum_crypto 100 100 sample_address
      (request_bytes 0x1122334455667788 100000 (replicate 24 0) sealed) sample_running = Some s1 \<and>
    challenged checksum_crypto sample_address sample_private 100000 (drop 1008 sealed) challenge sample_running s1 \<and>
    server_ProcessPacket checksum_crypto 100 100 sample_address (sealed_packet checksum_crypto
      (ConnectionResponse (challengeSequence sample_running) challenge) 0 (ctp_clientToServerKey sample_private) 0x1122334455667788) s1 = Some s2 \<and>
    seated checksum_crypto sample_address sample_private 100000 (drop 1008 sealed) i s1 s2"
proof -
  obtain plain sealed where sealed: "connectTokenPrivate_write sample_private (replicate 1024 0) = Some plain"
    "encryptConnectTokenPrivate checksum_crypto plain 0x1122334455667788 100000 (replicate 24 0) (replicate 32 7) = Some (Inr sealed)"
    using sample_sealed by blast
  have "running sample_running" "srv_flags sample_running = 0" "length (replicate 24 (0 :: byte)) = 24"
    "length (PrivateKey (srv_config sample_running)) = KeyBytes"
    by (simp_all add: sample_config_def)
  from server_handshake[OF checksum_crypto_ok sample_reachable(2) this, of sample_private plain 100000 sealed 100 sample_address 100 0]
    sealed sample_welcome
  have "\<exists>challenge s1 s2 i.
    server_ProcessPacket checksum_crypto 100 100 sample_address
      (request_bytes 0x1122334455667788 100000 (replicate 24 0) sealed) sample_running = Some s1 \<and>
    challenged checksum_crypto sample_address sample_private 100000 (drop 1008 sealed) challenge sample_running s1 \<and>
    server_ProcessPacket checksum_crypto 100 100 sample_address (sealed_packet checksum_crypto
      (ConnectionResponse (challengeSequence sample_running) challenge) 0 (ctp_clientToServerKey sample_private) 0x1122334455667788) s1 = Some s2 \<and>
    seated checksum_crypto sample_address sample_private 100000 (drop 1008 sealed) i s1 s2"
    by (simp add: sample_config_def)
  with sealed(2) show ?thesis by blast
qed


text \<open>
  C10: no amplification. Whatever arrives, the server answers a packet with at most one packet, to the
  address the packet came from, of at most 333 bytes and never longer than the packet that arrived.
\<close>

theorem no_amplification:
  assumes "crypto_ok C" and "srv_reachable C s"
  shows "\<exists>s' new. server_ProcessPacket C ts now from packetData s = Some s' \<and> srv_events s' = srv_events s @ new \<and>
    (sent_packets new = [] \<or>
     (\<exists>reply. sent_packets new = [(from, reply)] \<and> length reply \<le> 333 \<and> length reply \<le> length packetData))"
proof -
  have "srv_inv s" using reachable_inv[OF assms] by simp
  from readAndProcessPacket_ok[OF assms(1) this, of ts now "from" packetData serverAllowedPackets]
  show ?thesis by (fastforce simp: server_ProcessPacket_def packet_step_def replied_def)
qed

theorem no_amplification_witness:
  "\<exists>s' new. server_ProcessPacket checksum_crypto 5 5 sample_address [0, 1, 2] sample_running = Some s' \<and>
    srv_events s' = srv_events sample_running @ new \<and>
    (sent_packets new = [] \<or>
     (\<exists>reply. sent_packets new = [(sample_address, reply)] \<and> length reply \<le> 333 \<and> length reply \<le> length [0, 1, 2 :: byte]))"
  by (rule no_amplification[OF checksum_crypto_ok sample_reachable(2)])

text \<open>
  C4: a connect token admits one client. Once the history of a server records a token as used, then
  after any calls that do not restart the server, as long as every clock reading is before the
  token's expire timestamp, a connection request that carries the token changes nothing at all:
  no reply, no encryption mapping, no new entry.
\<close>

theorem used_token_refused:
  assumes "crypto_ok C" and "srv_reachable C s" and "token_spent (connectTokenEntries s) mac expire"
    and "run (srv_exec C) ops s = Some s'"
    and "\<forall>op \<in> set ops. op_typed op \<and> \<not> op_restarts op \<and> (\<forall>now \<in> set (op_clocks op). now < expire)"
    and "length (req_connectTokenData req) = connectTokenPrivateBytes"
    and "drop (connectTokenPrivateBytes - MacBytes) (req_connectTokenData req) = mac"
  shows "processConnectionRequestPacket C now from req s' = Some s'"
proof -
  have "srv_inv s'" "token_spent (connectTokenEntries s') mac expire"
    using run_spent[OF assms(1) server.reach_inv[OF assms(2)] assms(4,5,3)] by simp_all
  with assms(6,7) show ?thesis by (intro spent_request_ignored[of s' req expire]) simp_all
qed

theorem used_token_refused_witness:
  "\<exists>s opened s'. connectTokenPrivate_read zeroConnectTokenPrivate opened = Some (None, sample_private) \<and>
    token_spent (connectTokenEntries s) (drop 1008 opened) 100000 \<and> DisconnectAllClients checksum_crypto s = Some s' \<and>
    processConnectionRequestPacket checksum_crypto 300 sample_address
      \<lparr>req_versionInfo = versionInfo, req_protocolID = 0x1122334455667788, req_connectTokenExpireTimestamp = 100000,
       req_connectTokenNonce = replicate 24 0, req_connectTokenData = opened\<rparr> s' = Some s'"
proof -
  obtain s mac opened where s: "srv_reachable checksum_crypto s" "length mac = 16" "token_spent (connectTokenEntries s) mac 100000"
    and t: "length opened = 1024" "drop 1008 opened = mac" "connectTokenPrivate_read zeroConnectTokenPrivate opened = Some (None, sample_private)"
    using sample_client by blast
  obtain s' where s': "DisconnectAllClients checksum_crypto s = Some s'"
    using DisconnectAllClients_ok[OF checksum_crypto_ok reachable_inv[OF checksum_crypto_ok s(1)]] by blast
  from used_token_refused[OF checksum_crypto_ok s(1,3), of "[CallDisconnectAllClients]" s' "\<lparr>req_versionInfo = versionInfo, req_protocolID = 0x1122334455667788,
    req_connectTokenExpireTimestamp = 100000, req_connectTokenNonce = replicate 24 0, req_connectTokenData = opened\<rparr>" 300 sample_address]
    s s' t show ?thesis by auto
qed

text \<open>
  C11: isolation. A packet from one address leaves every connected client with another address
  exactly as it was: its slot with identity, address, sequence number, replay window, received
  packets and times, and the keys of its encryption mapping.
\<close>

theorem packet_isolated:
  assumes "crypto_ok C" and "srv_reachable C s" and "server_ProcessPacket C ts now from packetData s = Some s'"
    and "clientConnected s i" and "\<not> Equal (clientAddress s i) from"
  shows "slot_view i s' = slot_view i s \<and> (\<not> clientLoopback s i \<longrightarrow> client_keys i s' = client_keys i s)"
proof -
  have "srv_inv s" using reachable_inv[OF assms(1,2)] by simp
  from readAndProcessPacket_ok[OF assms(1) this, of ts now "from" packetData serverAllowedPackets] assms(3)
  have "others_kept from s s'" by (auto simp: server_ProcessPacket_def packet_step_def)
  with assms(4,5) show ?thesis by (simp add: others_kept_def)
qed

theorem packet_isolated_witness:
  "let s' = the (server_ProcessPacket checksum_crypto 5 5 sample_address [0, 1, 2] sample_loopback) in
   slot_view 2 s' = slot_view 2 sample_loopback"
proof -
  obtain s' where s': "server_ProcessPacket checksum_crypto 5 5 sample_address [0, 1, 2] sample_loopback = Some s'"
    using ProcessPacket_ok[OF checksum_crypto_ok reachable_inv[OF checksum_crypto_ok sample_loopback_reachable]]
    by blast
  from packet_isolated[OF checksum_crypto_ok sample_loopback_reachable s', of 2] show ?thesis by (simp add: s')
qed


text \<open>
  C18: keep-alives. Whatever arrives, a round of \<open>Update\<close> gives every network client of a running server
  to which nothing was sent for a tenth of a second exactly one keep-alive packet, in the order of
  the slots, with the slot number, the slot count and the client's next sequence number, sealed
  under the client's send key; after the replies to the packets that arrived nobody else is sent
  anything, also not by the timeout check. The round returns, as the callback that receives packets
  is set where it is used.
\<close>

theorem keep_alives_exact:
  assumes "crypto_ok C" and "srv_reachable C s" and "running s" and "receives (srv_config s)"
  shows "\<exists>s1 s' new. server_receivePackets C ts waiting (s\<lparr>srv_time := t\<rparr>) = Some s1 \<and>
    server_Update C t ts waiting s = Some s' \<and> srv_events s' = srv_events s1 @ new \<and>
    sent_packets new = concat (map (\<lambda>i. if keep_alive_due s1 i
      then delivered s1 (clientAddress s1 i) (keep_alive_bytes C s1 i) else []) [0..<nat (maxClients s1)])"
  using Update_round[OF assms(1) reachable_inv[OF assms(1,2)] assms(4,3)] by blast

theorem keep_alives_exact_witness:
  "\<exists>s i s1 s' new. keep_alive_due s1 i \<and> server_receivePackets checksum_crypto 5 [] (s\<lparr>srv_time := 1\<rparr>) = Some s1 \<and>
    server_Update checksum_crypto 1 5 [] s = Some s' \<and> srv_events s' = srv_events s1 @ new \<and>
    sent_packets new = concat (map (\<lambda>i. if keep_alive_due s1 i
      then delivered s1 (clientAddress s1 i) (keep_alive_bytes checksum_crypto s1 i) else []) [0..<nat (maxClients s1)])"
proof -
  obtain s i where s: "srv_reachable checksum_crypto s" "running s" "network_client s i" "clientLastPacketSendTime s i = 0"
    and r0: "receives (srv_config s)" using sample_client by blast
  have "keep_alive_due (s\<lparr>srv_time := 1\<rparr>) i" using s(3,4) by (simp add: keep_alive_due_def)
  moreover have r: "server_receivePackets checksum_crypto 5 [] (s\<lparr>srv_time := 1\<rparr>) = Some (s\<lparr>srv_time := 1\<rparr>)"
    by (rule receive_nothing[OF r0])
  moreover note keep_alives_exact[OF checksum_crypto_ok s(1,2) r0, of 5 "[]" 1, unfolded r option.inject]
  ultimately show ?thesis by blast
qed

text \<open>
  C19: timeouts. After the packets that arrived and the keep-alives, a round of \<open>Update\<close> disconnects
  exactly the network clients with a positive timeout from which nothing was received for that long
  and records the reason; every other slot stays as it was. The round returns, as the callback that
  receives packets is set where it is used.
\<close>

theorem timeouts_exact:
  assumes "crypto_ok C" and "srv_reachable C s" and "running s" and "receives (srv_config s)"
  shows "\<exists>s1 s'. server_receivePackets C ts waiting (s\<lparr>srv_time := t\<rparr>) = Some s1 \<and>
    server_Update C t ts waiting s = Some s' \<and>
    (\<forall>i. if silent s1 i then \<not> clientConnected s' i \<and> clientDisconnectReason s' i = DisconnectReasonTimedOut
      else clientConnected s' i = clientConnected s1 i \<and> clientID s' i = clientID s1 i \<and>
        clientAddress s' i = clientAddress s1 i \<and> clientDisconnectReason s' i = clientDisconnectReason s1 i)"
proof -
  obtain s1 s2 s' where u: "server_receivePackets C ts waiting (s\<lparr>srv_time := t\<rparr>) = Some s1"
    "sends_only s1 (keep_alives C s1) s2" "server_Update C t ts waiting s = Some s'"
    "\<forall>i. if silent s1 i then timed_out i s' else slot_view i s' = slot_view i s2"
    using Update_round[OF assms(1) reachable_inv[OF assms(1,2)] assms(4,3)] by blast
  have "if silent s1 i then \<not> clientConnected s' i \<and> clientDisconnectReason s' i = DisconnectReasonTimedOut
      else clientConnected s' i = clientConnected s1 i \<and> clientID s' i = clientID s1 i \<and>
        clientAddress s' i = clientAddress s1 i \<and> clientDisconnectReason s' i = clientDisconnectReason s1 i" for i
    using u(4)[rule_format, of i] sends_onlyD[OF u(2)] by (auto simp: timed_out_def slot_view_def split: if_splits)
  with u(1,3) show ?thesis by blast
qed

theorem timeouts_exact_witness:
  "\<exists>s i s'. network_client s i \<and> server_Update checksum_crypto 15 5 [] s = Some s' \<and>
    \<not> clientConnected s' i \<and> clientDisconnectReason s' i = DisconnectReasonTimedOut"
proof -
  obtain s i where s: "srv_reachable checksum_crypto s" "running s" "network_client s i" "sint (clientTimeout s i) = 15"
    "clientLastPacketReceiveTime s i = 0" and r0: "receives (srv_config s)" using sample_client by blast
  have "silent (s\<lparr>srv_time := 15\<rparr>) i" using s(3-5) by (simp add: silent_def del: of_int_sint)
  moreover have "server_receivePackets checksum_crypto 5 [] (s\<lparr>srv_time := 15\<rparr>) = Some (s\<lparr>srv_time := 15\<rparr>)"
    by (rule receive_nothing[OF r0])
  ultimately show ?thesis
    using timeouts_exact[OF checksum_crypto_ok s(1,2) r0, of 5 "[]" 15] s(3) by (metis option.inject)
qed


text \<open>
  C3: nobody is connected without the handshake. When a packet connects a slot, its sender had a live
  encryption mapping, the packet is a connection response that opens under the receive key of that
  mapping, and it carries a challenge token that opens under the server's challenge key. The slot
  gets the client ID and user data of the challenge token and the address the packet came from,
  no connected client had that address or client ID, and the occupied entry of the token history whose
  number was stored with the mapping is marked as used, while the rest of the history stays. This is
  the entry made for the client's connect token, unless it was given to another token in between.
\<close>

theorem admission_needs_handshake:
  assumes "crypto_ok C" and "srv_reachable C s" and "server_ProcessPacket C ts now from packetData s = Some s'"
    and "\<not> clientConnected s i" and "clientConnected s' i"
  shows "\<exists>e k q tq tokenData token plain. fst (findEncryptionMapping (srv_encryption s) from (srv_time s)) = int e \<and>
    readPacket C packetData (Some (em_receiveKey (srv_encryption s) e)) (ProtocolID (srv_config s)) ts
      (minConnectTokenExpireTimestamp s) (Some (PrivateKey (srv_config s))) serverAllowedPackets None =
      Some (Some (ConnectionResponse tq tokenData), q, None) \<and>
    decryptChallengeToken C tokenData tq (challengeKey s) = Some (Inr plain) \<and>
    challengeToken_read zeroChallengeToken plain = Some (None, token) \<and>
    clientID s' i = cht_clientID token \<and> clientUserData s' i = cht_userData token \<and> clientAddress s' i = from \<and>
    (\<forall>j. clientConnected s j \<longrightarrow> \<not> Equal (clientAddress s j) from \<and> clientID s j \<noteq> cht_clientID token) \<and>
    em_connectTokenEntryIndex (srv_encryption s) e = int k \<and> k < maxConnectTokenEntries \<and>
    te_state (connectTokenEntries s k) \<noteq> connectTokenEntryFree \<and>
    connectTokenEntries s' = (connectTokenEntries s)(k := (connectTokenEntries s k)\<lparr>te_state := connectTokenEntryConsumed\<rparr>)"
proof -
  note inv = reachable_inv[OF assms(1,2)]
  obtain e q tq td token plain L where c: "fst (findEncryptionMapping (srv_encryption s) from (srv_time s)) = int e"
    "readPacket C packetData (Some (em_receiveKey (srv_encryption s) e)) (ProtocolID (srv_config s)) ts
      (minConnectTokenExpireTimestamp s) (Some (PrivateKey (srv_config s))) serverAllowedPackets None =
      Some (Some (ConnectionResponse tq td), q, None)"
    "decryptChallengeToken C td tq (challengeKey s) = Some (Inr plain)"
    "challengeToken_read zeroChallengeToken plain = Some (None, token)"
    "admitted from i e token (s\<lparr>srv_encryption := (srv_encryption s)\<lparr>em_lastAccessTime := L\<rparr>\<rparr>) s'"
    using packet_connects[OF assms(1) inv assms(3-5)] by blast
  obtain k where k: "em_connectTokenEntryIndex (srv_encryption s) e = int k" "k < 2048" "te_state (connectTokenEntries s k) \<noteq> 0"
    using mapping_entry[OF inv, of e "from"] c(5) by (auto simp: admitted_def may_join_def)
  have "clientID s' i = cht_clientID token \<and> clientUserData s' i = cht_userData token \<and> clientAddress s' i = from \<and>
    (\<forall>j. clientConnected s j \<longrightarrow> \<not> Equal (clientAddress s j) from \<and> clientID s j \<noteq> cht_clientID token) \<and>
    connectTokenEntries s' = (connectTokenEntries s)(k := (connectTokenEntries s k)\<lparr>te_state := connectTokenEntryConsumed\<rparr>)"
    using c(5) k by (auto simp: admitted_def may_join_def joined_def Let_def connectTokenEntriesConsume_def)
  with c(1-4) k show ?thesis by (intro exI[of _ e] exI[of _ k] exI[of _ q] exI[of _ tq] exI[of _ td] exI[of _ token] exI[of _ plain]) simp
qed

theorem admission_needs_handshake_witness:
  "\<exists>s buf s' i e k. server_ProcessPacket checksum_crypto 100 100 sample_address buf s = Some s' \<and>
    \<not> clientConnected s i \<and> clientConnected s' i \<and> clientAddress s' i = sample_address \<and>
    fst (findEncryptionMapping (srv_encryption s) sample_address (srv_time s)) = int e \<and>
    em_connectTokenEntryIndex (srv_encryption s) e = int k \<and> te_state (connectTokenEntries s' k) = connectTokenEntryConsumed"
proof -
  obtain s buf s' i mac where s: "srv_reachable checksum_crypto s"
    "server_ProcessPacket checksum_crypto 100 100 sample_address buf s = Some s'"
    "seated checksum_crypto sample_address sample_private 100000 mac i s s'"
    using sample_seat by blast
  have c: "\<not> clientConnected s i" "clientConnected s' i" using s(3) by (simp_all add: seated_def)
  from admission_needs_handshake[OF checksum_crypto_ok s(1,2) c] obtain e k where
    "fst (findEncryptionMapping (srv_encryption s) sample_address (srv_time s)) = int e" "clientAddress s' i = sample_address"
    "em_connectTokenEntryIndex (srv_encryption s) e = int k"
    "connectTokenEntries s' = (connectTokenEntries s)(k := (connectTokenEntries s k)\<lparr>te_state := connectTokenEntryConsumed\<rparr>)"
    by (elim exE conjE)
  with s(2) c show ?thesis
    by (intro exI[of _ s] exI[of _ buf] exI[of _ s'] exI[of _ i] exI[of _ e] exI[of _ k]) simp
qed

end
