(* ===== verification/Client.thy ===== *)
theory Client
  imports Packet Packet_Queue Transport
begin

text \<open>
  \<^verbatim>\<open>client.go\<close>: the state of a client and every operation that changes it. The packets that arrive,
  each with the clock reading its handler takes, are arguments. The field \<open>cl_events\<close> logs what leaves
  the client: packets, payloads handed to the loopback callback, and calls of the state change
  callback. A callback is set or not (\<open>bool\<close>).
\<close>

definition clientMaxReceivePackets :: nat where [simp]: "clientMaxReceivePackets = 64"

record ClientConfig =
  cc_NetworkSimulator :: bool
  cc_StateChangeCallback :: bool
  cc_SendLoopbackPacketCallback :: bool
  cc_OverrideSendAndReceive :: bool
  cc_SendPacketOverride :: bool
  cc_ReceivePacketOverride :: bool

record Client =
  cl_config :: ClientConfig
  cl_state :: int
  cl_time :: float64
  connectStartTime :: float64
  lastPacketSendTime :: float64
  lastPacketReceiveTime :: float64
  shouldDisconnect :: bool
  shouldDisconnectState :: int
  cl_sequence :: u64
  cl_clientIndex :: int
  cl_maxClients :: int
  serverAddressIndex :: int
  cl_address :: Address
  serverAddress :: Address
  cl_connectToken :: connectToken
  cl_socketIPv4 :: "socket option"
  cl_socketIPv6 :: "socket option"
  readPacketKey :: "byte list"
  writePacketKey :: "byte list"
  hasPacketKeys :: bool
  cl_replayProtection :: replayProtection
  packetReceiveQueue :: "byte list packetQueue"
  challengeTokenSequence :: u64
  challengeTokenData :: "byte list"
  cl_loopback :: bool
  cl_events :: "event list"

text \<open>The end of \<^verbatim>\<open>NewClientDual\<close>: the client that is returned, given the two sockets.\<close>

definition socket_address :: "Address \<Rightarrow> socket option \<Rightarrow> socket option \<Rightarrow> Address" where
  "socket_address address1 ipv4 ipv6 =
     (if Type address1 = AddressIPv4 then (case ipv4 of Some k \<Rightarrow> sk_address k | None \<Rightarrow> zeroAddress)
      else case ipv6 of Some k \<Rightarrow> sk_address k | None \<Rightarrow> zeroAddress)"

definition new_client ::
  "ClientConfig \<Rightarrow> Address \<Rightarrow> float64 \<Rightarrow> socket option \<Rightarrow> socket option \<Rightarrow> Client" where
  "new_client config address1 time ipv4 ipv6 =
     \<lparr>cl_config = config, cl_state = ClientStateDisconnected, cl_time = time, connectStartTime = 0,
      lastPacketSendTime = -1000, lastPacketReceiveTime = -1000, shouldDisconnect = False,
      shouldDisconnectState = ClientStateDisconnected, cl_sequence = 0, cl_clientIndex = 0, cl_maxClients = 0,
      serverAddressIndex = 0,
      cl_address = (if cc_NetworkSimulator config then address1 else socket_address address1 ipv4 ipv6),
      serverAddress = zeroAddress, cl_connectToken = zeroConnectToken, cl_socketIPv4 = ipv4, cl_socketIPv6 = ipv6,
      readPacketKey = replicate KeyBytes 0, writePacketKey = replicate KeyBytes 0, hasPacketKeys = False,
      cl_replayProtection = replay_reset \<lparr>mostRecentSequence = 0, receivedPacket = (\<lambda>_. 0)\<rparr>,
      packetReceiveQueue = new_packetQueue, challengeTokenSequence = 0,
      challengeTokenData = replicate challengeTokenBytes 0, cl_loopback = False, cl_events = []\<rparr>"

subsection \<open>State changes\<close>

definition setState :: "int \<Rightarrow> Client \<Rightarrow> Client" where
  "setState clientState client =
     (let client = (if cc_StateChangeCallback (cl_config client)
        then client\<lparr>cl_events := cl_events client @ [StateChangeEvent (cl_state client) clientState]\<rparr> else client)
      in client\<lparr>cl_state := clientState\<rparr>)"

definition resetBeforeNextConnect :: "Client \<Rightarrow> Client" where
  "resetBeforeNextConnect client = client\<lparr>
     connectStartTime := cl_time client, lastPacketSendTime := cl_time client - 1,
     lastPacketReceiveTime := cl_time client, shouldDisconnect := False,
     shouldDisconnectState := ClientStateDisconnected, challengeTokenSequence := 0,
     challengeTokenData := replicate challengeTokenBytes 0,
     cl_replayProtection := replay_reset (cl_replayProtection client)\<rparr>"

definition resetConnectionData :: "int \<Rightarrow> Client \<Rightarrow> Client" where
  "resetConnectionData clientState client =
     (let client = client\<lparr>cl_sequence := 0, cl_loopback := False, cl_clientIndex := 0, cl_maxClients := 0,
        connectStartTime := 0, serverAddressIndex := 0, serverAddress := zeroAddress,
        cl_connectToken := zeroConnectToken, readPacketKey := replicate KeyBytes 0,
        writePacketKey := replicate KeyBytes 0, hasPacketKeys := False\<rparr>;
        client = resetBeforeNextConnect (setState clientState client)
      in client\<lparr>packetReceiveQueue := packetQueue_clear (packetReceiveQueue client)\<rparr>)"

subsection \<open>Sending\<close>

definition sendPacketToServerInternal :: "crypto \<Rightarrow> packet \<Rightarrow> Client \<Rightarrow> Client option" where
  "sendPacketToServerInternal C p client = do {
     (packetBytes, packetData) \<leftarrow> writePacket C p (replicate maxPacketBytes 0) (cl_sequence client)
       (writePacketKey client) (ct_protocolID (cl_connectToken client));
     let client = client\<lparr>cl_sequence := cl_sequence client + 1\<rparr>;
     if packetBytes = 0 then Some client
     else if packetBytes > length packetData then None
     else Some (client\<lparr>
       cl_events := sendPacketToAddress (cc_NetworkSimulator (cl_config client))
         (cc_OverrideSendAndReceive (cl_config client) \<and> cc_SendPacketOverride (cl_config client))
         (socket_sends (cl_socketIPv4 client)) (socket_sends (cl_socketIPv6 client)) (cl_address client) (serverAddress client)
         (take packetBytes packetData) (cl_events client),
       lastPacketSendTime := cl_time client\<rparr>) }"

definition client_disconnectInternal :: "crypto \<Rightarrow> int \<Rightarrow> bool \<Rightarrow> Client \<Rightarrow> Client option" where
  "client_disconnectInternal C destinationState sendDisconnectPackets client =
     (if cl_state client \<le> ClientStateDisconnected \<or> cl_state client = destinationState then Some client
      else do {
        client \<leftarrow> (if \<not> cl_loopback client \<and> sendDisconnectPackets \<and> cl_state client > ClientStateDisconnected
          then for_range (\<lambda>_ client. sendPacketToServerInternal C ConnectionDisconnect client) 0 numDisconnectPackets client
          else Some client);
        Some (resetConnectionData destinationState client) })"

definition client_Disconnect :: "crypto \<Rightarrow> Client \<Rightarrow> Client option" where
  "client_Disconnect C client = client_disconnectInternal C ClientStateDisconnected True client"

definition Connect :: "crypto \<Rightarrow> byte list \<Rightarrow> Client \<Rightarrow> Client option" where
  "Connect C connectTokenData client = do {
     client \<leftarrow> client_Disconnect C client;
     (err, token) \<leftarrow> connectToken_read (cl_connectToken client) connectTokenData;
     let client = client\<lparr>cl_connectToken := token\<rparr>;
     if err \<noteq> None then Some (setState ClientStateInvalidConnectToken client)
     else do {
       let client = client\<lparr>serverAddressIndex := 0, serverAddress := ct_serverAddresses token 0,
         readPacketKey := ct_serverToClientKey token, writePacketKey := ct_clientToServerKey token,
         hasPacketKeys := True\<rparr>;
       Some (setState ClientStateSendingConnectionRequest (resetBeforeNextConnect client)) } }"

definition client_sendPackets :: "crypto \<Rightarrow> Client \<Rightarrow> Client option" where
  "client_sendPackets C client =
     (if cl_state client = ClientStateSendingConnectionRequest then
        if lastPacketSendTime client + 1 / packetSendRate \<ge> cl_time client then Some client
        else sendPacketToServerInternal C (ConnectionRequest
          \<lparr>req_versionInfo = versionInfo, req_protocolID = ct_protocolID (cl_connectToken client),
           req_connectTokenExpireTimestamp = ct_expireTimestamp (cl_connectToken client),
           req_connectTokenNonce = ct_nonce (cl_connectToken client),
           req_connectTokenData = ct_privateData (cl_connectToken client)\<rparr>) client
      else if cl_state client = ClientStateSendingConnectionResponse then
        if lastPacketSendTime client + 1 / packetSendRate \<ge> cl_time client then Some client
        else sendPacketToServerInternal C
          (ConnectionResponse (challengeTokenSequence client) (challengeTokenData client)) client
      else if cl_state client = ClientStateConnected then
        if lastPacketSendTime client + 1 / packetSendRate \<ge> cl_time client then Some client
        else sendPacketToServerInternal C (ConnectionKeepAlive 0 0) client
      else Some client)"

subsection \<open>Receiving\<close>

definition client_processPacketInternal :: "Address \<Rightarrow> packet \<Rightarrow> u64 \<Rightarrow> Client \<Rightarrow> Client" where
  "client_processPacketInternal from p sequence client =
     (case p of
        ConnectionDenied \<Rightarrow>
          if (cl_state client = ClientStateSendingConnectionRequest \<or>
              cl_state client = ClientStateSendingConnectionResponse) \<and> Equal from (serverAddress client)
          then client\<lparr>shouldDisconnect := True, shouldDisconnectState := ClientStateConnectionDenied,
            lastPacketReceiveTime := cl_time client\<rparr>
          else client
      | ConnectionChallenge tokenSequence tokenData \<Rightarrow>
          if cl_state client = ClientStateSendingConnectionRequest \<and> Equal from (serverAddress client)
          then setState ClientStateSendingConnectionResponse (client\<lparr>challengeTokenSequence := tokenSequence,
            challengeTokenData := tokenData, lastPacketReceiveTime := cl_time client\<rparr>)
          else client
      | ConnectionKeepAlive index slots \<Rightarrow>
          if Equal from (serverAddress client) then
            if cl_state client = ClientStateConnected then client\<lparr>lastPacketReceiveTime := cl_time client\<rparr>
            else if cl_state client = ClientStateSendingConnectionResponse
            then setState ClientStateConnected (client\<lparr>lastPacketReceiveTime := cl_time client,
              cl_clientIndex := sint index, cl_maxClients := sint slots\<rparr>)
            else client
          else client
      | ConnectionPayload payload \<Rightarrow>
          if cl_state client = ClientStateConnected \<and> Equal from (serverAddress client)
          then client\<lparr>packetReceiveQueue := snd (packetQueue_push (packetReceiveQueue client) payload sequence),
            lastPacketReceiveTime := cl_time client\<rparr>
          else client
      | ConnectionDisconnect \<Rightarrow>
          if cl_state client = ClientStateConnected \<and> Equal from (serverAddress client)
          then client\<lparr>shouldDisconnect := True, shouldDisconnectState := ClientStateDisconnected,
            lastPacketReceiveTime := cl_time client\<rparr>
          else client
      | _ \<Rightarrow> client)"

definition clientAllowedPackets :: "bool arr" where
  "clientAllowedPackets =
     (\<lambda>_. False)(unat connectionDeniedPacket := True, unat connectionChallengePacket := True,
       unat connectionKeepAlivePacket := True, unat connectionPayloadPacket := True,
       unat connectionDisconnectPacket := True)"

definition client_ProcessPacket :: "crypto \<Rightarrow> u64 \<Rightarrow> Address \<Rightarrow> byte list \<Rightarrow> Client \<Rightarrow> Client option" where
  "client_ProcessPacket C currentTimestamp from packetData client = do {
     (packet, sequence, replay) \<leftarrow>
       readPacket C packetData (if hasPacketKeys client then Some (readPacketKey client) else None)
         (ct_protocolID (cl_connectToken client)) currentTimestamp 0 None clientAllowedPackets
         (Some (cl_replayProtection client));
     let client = (case replay of None \<Rightarrow> client | Some rp \<Rightarrow> client\<lparr>cl_replayProtection := rp\<rparr>);
     case packet of None \<Rightarrow> Some client
     | Some p \<Rightarrow> Some (client_processPacketInternal from p sequence client) }"

text \<open>
  The packets that are waiting, in the order the simulator, the override or the socket delivers them,
  each with the clock reading taken when it is processed. Without the override, packets are read
  from the socket of the server address's family, if there is one.
\<close>

definition can_receive :: "Client \<Rightarrow> bool" where
  "can_receive client \<longleftrightarrow> cc_NetworkSimulator (cl_config client) \<or> cc_OverrideSendAndReceive (cl_config client) \<or>
     (if Type (serverAddress client) = AddressIPv4 then cl_socketIPv4 client \<noteq> None
      else Type (serverAddress client) = AddressIPv6 \<and> cl_socketIPv6 client \<noteq> None)"

fun client_process_waiting :: "crypto \<Rightarrow> (Address \<times> byte list \<times> u64) list \<Rightarrow> Client \<Rightarrow> Client option" where
  "client_process_waiting C [] client = Some client"
| "client_process_waiting C ((from, packetData, now) # waiting) client =
     (if \<not> can_receive client then Some client
      else do {
        client \<leftarrow> client_ProcessPacket C now from packetData client;
        client_process_waiting C waiting client })"

definition client_receivePackets :: "crypto \<Rightarrow> (Address \<times> byte list \<times> u64) list \<Rightarrow> Client \<Rightarrow> Client option" where
  "client_receivePackets C waiting client =
     (if \<not> cc_NetworkSimulator (cl_config client) then
        if cc_OverrideSendAndReceive (cl_config client) \<and> \<not> cc_ReceivePacketOverride (cl_config client) then None
        else client_process_waiting C waiting client
      else client_process_waiting C (take clientMaxReceivePackets waiting) client)"

subsection \<open>Update\<close>

definition connectToNextServer :: "Client \<Rightarrow> (bool \<times> Client) option" where
  "connectToNextServer client =
     (if serverAddressIndex client + 1 \<ge> ct_numServerAddresses (cl_connectToken client) then Some (False, client)
      else do {
        let client = client\<lparr>serverAddressIndex := serverAddressIndex client + 1\<rparr>;
        i \<leftarrow> idx MaxServersPerConnect (serverAddressIndex client);
        let client = resetBeforeNextConnect (client\<lparr>serverAddress := ct_serverAddresses (cl_connectToken client) i\<rparr>);
        Some (True, setState ClientStateSendingConnectionRequest client) })"

text \<open>Try the next server, and give up with the given state if there is none.\<close>

definition next_server_or :: "crypto \<Rightarrow> int \<Rightarrow> Client \<Rightarrow> Client option" where
  "next_server_or C destinationState client = do {
     (connecting, client) \<leftarrow> connectToNextServer client;
     if connecting then Some client else client_disconnectInternal C destinationState False client }"

definition client_timed_out :: "Client \<Rightarrow> bool" where
  "client_timed_out client \<longleftrightarrow> sint (ct_timeoutSeconds (cl_connectToken client)) > 0 \<and>
     lastPacketReceiveTime client + of_int (sint (ct_timeoutSeconds (cl_connectToken client))) < cl_time client"

definition token_lifetime :: "Client \<Rightarrow> float64" where
  "token_lifetime client =
     of_nat (unat (ct_expireTimestamp (cl_connectToken client) - ct_createTimestamp (cl_connectToken client)))"

text \<open>The end of \<open>Update\<close>: expiry of the connect token, disconnecting, timeouts.\<close>

definition client_settle :: "crypto \<Rightarrow> Client \<Rightarrow> Client option" where
  "client_settle C client =
     (if cl_state client > ClientStateDisconnected \<and> cl_state client < ClientStateConnected \<and>
         cl_time client - connectStartTime client \<ge> token_lifetime client
      then client_disconnectInternal C ClientStateConnectTokenExpired False client
      else if shouldDisconnect client then next_server_or C (shouldDisconnectState client) client
      else if cl_state client = ClientStateSendingConnectionRequest \<and> client_timed_out client
      then next_server_or C ClientStateConnectionRequestTimedOut client
      else if cl_state client = ClientStateSendingConnectionResponse \<and> client_timed_out client
      then next_server_or C ClientStateConnectionResponseTimedOut client
      else if cl_state client = ClientStateConnected \<and> client_timed_out client
      then client_disconnectInternal C ClientStateConnectionTimedOut False client
      else Some client)"

definition client_Update :: "crypto \<Rightarrow> float64 \<Rightarrow> (Address \<times> byte list \<times> u64) list \<Rightarrow> Client \<Rightarrow> Client option" where
  "client_Update C time waiting client = do {
     let client = client\<lparr>cl_time := time\<rparr>;
     if cl_loopback client then Some client
     else do {
       client \<leftarrow> client_receivePackets C waiting client;
       client \<leftarrow> client_sendPackets C client;
       client_settle C client } }"

subsection \<open>The interface of the application\<close>

definition client_SendPacket :: "crypto \<Rightarrow> byte list \<Rightarrow> Client \<Rightarrow> Client option" where
  "client_SendPacket C packetData client =
     (if length packetData \<le> 0 \<or> length packetData > MaxPacketSize then Some client
      else if cl_state client \<noteq> ClientStateConnected then Some client
      else if \<not> cl_loopback client then sendPacketToServerInternal C (ConnectionPayload packetData) client
      else if \<not> cc_SendLoopbackPacketCallback (cl_config client) then None
      else Some (client\<lparr>
        cl_events := cl_events client @ [LoopbackPacketEvent (cl_clientIndex client) packetData (cl_sequence client)],
        cl_sequence := cl_sequence client + 1\<rparr>))"

definition client_ReceivePacket :: "Client \<Rightarrow> (byte list option \<times> u64) \<times> Client" where
  "client_ReceivePacket client =
     (let ((payload, sequence), q) = packetQueue_pop (packetReceiveQueue client);
          client = client\<lparr>packetReceiveQueue := q\<rparr>
      in if payload = None then ((None, 0), client) else ((payload, sequence), client))"

definition client_NextPacketSequence :: "Client \<Rightarrow> u64" where
  "client_NextPacketSequence client = cl_sequence client"

definition client_Port :: "Client \<Rightarrow> u16" where
  "client_Port client =
     (if Type (cl_address client) = AddressIPv4
      then case cl_socketIPv4 client of None \<Rightarrow> 0 | Some k \<Rightarrow> Port (sk_address k)
      else case cl_socketIPv6 client of None \<Rightarrow> 0 | Some k \<Rightarrow> Port (sk_address k))"

definition ConnectLoopback :: "int \<Rightarrow> int \<Rightarrow> Client \<Rightarrow> Client" where
  "ConnectLoopback clientIndex slots client = client\<lparr>cl_state := ClientStateConnected,
     cl_clientIndex := clientIndex, cl_maxClients := slots, cl_loopback := True\<rparr>"

definition DisconnectLoopback :: "Client \<Rightarrow> Client" where
  "DisconnectLoopback client = resetConnectionData ClientStateDisconnected client"

definition client_ProcessLoopbackPacket :: "byte list \<Rightarrow> u64 \<Rightarrow> Client \<Rightarrow> Client" where
  "client_ProcessLoopbackPacket packetData packetSequence client =
     (if \<not> cl_loopback client then client
      else if length packetData \<le> 0 \<or> length packetData > MaxPacketSize then client
      else client\<lparr>packetReceiveQueue := snd (packetQueue_push (packetReceiveQueue client) packetData packetSequence)\<rparr>)"

definition client_Close :: "crypto \<Rightarrow> Client \<Rightarrow> Client option" where
  "client_Close C client = do {
     client \<leftarrow> (if \<not> cl_loopback client then client_Disconnect C client else Some (DisconnectLoopback client));
     let client = client\<lparr>cl_socketIPv4 := socket_destroy (cl_socketIPv4 client), cl_socketIPv6 := socket_destroy (cl_socketIPv6 client)\<rparr>;
     Some (client\<lparr>packetReceiveQueue := packetQueue_clear (packetReceiveQueue client)\<rparr>) }"

end
