(* ===== verification/Client_Inv.thy ===== *)
theory Client_Inv
  imports Client Machine
begin

text \<open>
  The invariant of a client, the exact effect of sending, and that every operation returns and
  keeps the invariant.
\<close>

subsection \<open>The invariant\<close>

text \<open>
  A client that is connecting or connected holds the keys of its connect token and works on one of
  the server addresses in it.
\<close>

definition linked :: "Client \<Rightarrow> bool" where
  "linked c \<longleftrightarrow> (let t = cl_connectToken c in hasPacketKeys c \<and>
     readPacketKey c = ct_serverToClientKey t \<and> writePacketKey c = ct_clientToServerKey t \<and>
     0 \<le> serverAddressIndex c \<and> serverAddressIndex c < ct_numServerAddresses t \<and>
     ct_numServerAddresses t \<le> int MaxServersPerConnect \<and>
     serverAddress c = ct_serverAddresses t (nat (serverAddressIndex c)) \<and>
     length (ct_nonce t) = connectTokenNonceBytes \<and> length (ct_privateData t) = connectTokenPrivateBytes)"

text \<open>A client that is neither has no keys, starts at sequence number 0 and holds no packets.\<close>

definition idle :: "Client \<Rightarrow> bool" where
  "idle c \<longleftrightarrow> \<not> hasPacketKeys c \<and> \<not> cl_loopback c \<and> cl_sequence c = 0 \<and> queue_list (packetReceiveQueue c) = []"

definition cl_inv :: "Client \<Rightarrow> bool" where
  "cl_inv c \<longleftrightarrow> length (readPacketKey c) = KeyBytes \<and> length (writePacketKey c) = KeyBytes \<and>
     length (challengeTokenData c) = challengeTokenBytes \<and> queue_inv (packetReceiveQueue c) \<and>
     ClientStateConnectTokenExpired \<le> cl_state c \<and> cl_state c \<le> ClientStateConnected \<and>
     (cl_state c \<le> ClientStateDisconnected \<longrightarrow> idle c) \<and>
     (cl_state c > ClientStateDisconnected \<and> \<not> cl_loopback c \<longrightarrow> linked c) \<and>
     (cl_loopback c \<longrightarrow> cl_state c = ClientStateConnected) \<and>
     (shouldDisconnect c \<longrightarrow> cl_state c > ClientStateDisconnected \<and>
        (shouldDisconnectState c = ClientStateConnectionDenied \<or> shouldDisconnectState c = ClientStateDisconnected))"

lemmas cl_inv_defs = cl_inv_def linked_def idle_def Let_def

text \<open>
  Packets can be polled for: when they come through the override rather than the simulator or the
  sockets, the receive callback, which is called without a check, is set.
\<close>

definition cl_receives :: "ClientConfig \<Rightarrow> bool" where
  "cl_receives config \<longleftrightarrow> cc_NetworkSimulator config \<or> \<not> cc_OverrideSendAndReceive config \<or> cc_ReceivePacketOverride config"

text \<open>A payload for the loopback server, whose callback is called without a check, and is nil.\<close>

definition cl_nil_loopback_callback :: "byte list \<Rightarrow> Client \<Rightarrow> bool" where
  "cl_nil_loopback_callback d c \<longleftrightarrow> 0 < length d \<and> length d \<le> MaxPacketSize \<and> cl_state c = ClientStateConnected \<and>
     cl_loopback c \<and> \<not> cc_SendLoopbackPacketCallback (cl_config c)"

lemma cl_inv_new: "cl_inv (new_client config a t v4 v6)"
  by (simp add: cl_inv_defs new_client_def)

lemma setState_fields [simp]:
  "cl_state (setState x c) = x" "cl_config (setState x c) = cl_config c" "cl_time (setState x c) = cl_time c"
  "connectStartTime (setState x c) = connectStartTime c" "lastPacketSendTime (setState x c) = lastPacketSendTime c"
  "lastPacketReceiveTime (setState x c) = lastPacketReceiveTime c" "shouldDisconnect (setState x c) = shouldDisconnect c"
  "shouldDisconnectState (setState x c) = shouldDisconnectState c" "cl_sequence (setState x c) = cl_sequence c"
  "cl_clientIndex (setState x c) = cl_clientIndex c" "cl_maxClients (setState x c) = cl_maxClients c"
  "serverAddressIndex (setState x c) = serverAddressIndex c" "cl_address (setState x c) = cl_address c"
  "serverAddress (setState x c) = serverAddress c" "cl_connectToken (setState x c) = cl_connectToken c"
  "cl_socketIPv4 (setState x c) = cl_socketIPv4 c" "cl_socketIPv6 (setState x c) = cl_socketIPv6 c"
  "readPacketKey (setState x c) = readPacketKey c" "writePacketKey (setState x c) = writePacketKey c"
  "hasPacketKeys (setState x c) = hasPacketKeys c" "cl_replayProtection (setState x c) = cl_replayProtection c"
  "packetReceiveQueue (setState x c) = packetReceiveQueue c" "challengeTokenSequence (setState x c) = challengeTokenSequence c"
  "challengeTokenData (setState x c) = challengeTokenData c" "cl_loopback (setState x c) = cl_loopback c"
  "cl_events (setState x c) = cl_events c @
     (if cc_StateChangeCallback (cl_config c) then [StateChangeEvent (cl_state c) x] else [])"
  by (simp_all add: setState_def Let_def)

lemma reset_fields [simp]:
  "cl_state (resetConnectionData x c) = x" "cl_config (resetConnectionData x c) = cl_config c"
  "cl_time (resetConnectionData x c) = cl_time c" "cl_sequence (resetConnectionData x c) = 0"
  "cl_loopback (resetConnectionData x c) = False" "hasPacketKeys (resetConnectionData x c) = False"
  "shouldDisconnect (resetConnectionData x c) = False"
  "readPacketKey (resetConnectionData x c) = replicate 32 0" "writePacketKey (resetConnectionData x c) = replicate 32 0"
  "challengeTokenData (resetConnectionData x c) = replicate 300 0"
  "cl_connectToken (resetConnectionData x c) = zeroConnectToken"
  "packetReceiveQueue (resetConnectionData x c) = packetQueue_clear (packetReceiveQueue c)"
  "cl_socketIPv4 (resetConnectionData x c) = cl_socketIPv4 c" "cl_socketIPv6 (resetConnectionData x c) = cl_socketIPv6 c"
  "cl_address (resetConnectionData x c) = cl_address c"
  "cl_events (resetConnectionData x c) = cl_events c @
     (if cc_StateChangeCallback (cl_config c) then [StateChangeEvent (cl_state c) x] else [])"
  by (simp_all add: resetConnectionData_def resetBeforeNextConnect_def Let_def)

lemma cl_inv_reset: "-6 \<le> x \<Longrightarrow> x \<le> 0 \<Longrightarrow> cl_inv (resetConnectionData x c)"
  by (simp add: cl_inv_defs)

subsection \<open>Sending\<close>

text \<open>The bytes of a packet on the wire, and the log entries its transmission makes.\<close>

definition wire :: "crypto \<Rightarrow> packet \<Rightarrow> u64 \<Rightarrow> byte list \<Rightarrow> u64 \<Rightarrow> byte list" where
  "wire C p q key pid = (case p of
     ConnectionRequest r \<Rightarrow> request_bytes (req_protocolID r) (req_connectTokenExpireTimestamp r)
       (req_connectTokenNonce r) (req_connectTokenData r)
   | _ \<Rightarrow> sealed_packet C p q key pid)"

definition cl_out :: "Client \<Rightarrow> byte list \<Rightarrow> event list" where
  "cl_out c d = sendPacketToAddress (cc_NetworkSimulator (cl_config c))
     (cc_OverrideSendAndReceive (cl_config c) \<and> cc_SendPacketOverride (cl_config c))
     (socket_sends (cl_socketIPv4 c)) (socket_sends (cl_socketIPv6 c)) (cl_address c) (serverAddress c) d []"

definition sendable :: "packet \<Rightarrow> bool" where
  "sendable p \<longleftrightarrow> packet_ok p \<and> (case p of ConnectionRequest r \<Rightarrow> req_versionInfo r = versionInfo | _ \<Rightarrow> True)"

lemma writePacket_wire:
  assumes "crypto_ok C" and "sendable p" and "length key = 32" and "length buf = 1300"
  shows "writePacket C p buf q key pid =
      Some (length (wire C p q key pid), wire C p q key pid @ drop (length (wire C p q key pid)) buf) \<and>
    0 < length (wire C p q key pid)"
proof (cases p)
  case (ConnectionRequest r)
  then obtain pid' e nonce sealed where r: "r = \<lparr>req_versionInfo = versionInfo, req_protocolID = pid',
      req_connectTokenExpireTimestamp = e, req_connectTokenNonce = nonce, req_connectTokenData = sealed\<rparr>"
    "length nonce = 24" "length sealed = 1024"
    using assms(2) by (cases r) (auto simp: sendable_def)
  with writePacket_request[of nonce sealed buf C pid' e q key pid] assms(4) ConnectionRequest show ?thesis
    by (simp add: wire_def)
qed (use assms writePacket_sealed[OF assms(1) _ _ assms(3,4), of p q pid] length_sealed_packet[OF assms(1), of p q key pid]
  in \<open>simp_all add: sendable_def wire_def is_request_def\<close>)

lemma send_exact:
  assumes "crypto_ok C" and "sendable p" and "length (writePacketKey c) = 32"
  shows "sendPacketToServerInternal C p c = Some (c\<lparr>cl_sequence := cl_sequence c + 1,
    cl_events := cl_events c @ cl_out c (wire C p (cl_sequence c) (writePacketKey c) (ct_protocolID (cl_connectToken c))),
    lastPacketSendTime := cl_time c\<rparr>)"
proof -
  define w where "w = wire C p (cl_sequence c) (writePacketKey c) (ct_protocolID (cl_connectToken c))"
  define d where "d = w @ drop (length w) (replicate 1300 0)"
  have "writePacket C p (replicate 1300 0) (cl_sequence c) (writePacketKey c) (ct_protocolID (cl_connectToken c)) = Some (length w, d)"
    "0 < length w"
    using writePacket_wire[OF assms, of "replicate 1300 0"] by (simp_all add: w_def d_def)
  moreover have "length w \<le> length d" "take (length w) d = w" by (simp_all add: d_def)
  ultimately show ?thesis
    unfolding sendPacketToServerInternal_def w_def[symmetric] cl_out_def
    by (subst sendPacketToAddress_events) simp
qed

lemma cl_out_cong [simp]:
  "cl_out (c\<lparr>cl_sequence := q\<rparr>) d = cl_out c d" "cl_out (c\<lparr>cl_events := E\<rparr>) d = cl_out c d"
  "cl_out (c\<lparr>lastPacketSendTime := t\<rparr>) d = cl_out c d" "cl_out (c\<lparr>cl_time := t\<rparr>) d = cl_out c d"
  "cl_out (c\<lparr>cl_replayProtection := r\<rparr>) d = cl_out c d"
  by (simp_all add: cl_out_def)

lemma cl_inv_sent:
  assumes "cl_inv c" and "0 < cl_state c"
  shows "cl_inv (c\<lparr>cl_sequence := q, cl_events := E, lastPacketSendTime := t\<rparr>)"
  using assms by (auto simp: cl_inv_defs)

lemma sendable_disconnect [simp]: "sendable ConnectionDisconnect"
  by (simp add: sendable_def)

text \<open>The redundant disconnect packets, with consecutive sequence numbers.\<close>

definition disconnect_packets :: "crypto \<Rightarrow> nat \<Rightarrow> Client \<Rightarrow> event list" where
  "disconnect_packets C n c = concat (map (\<lambda>i. cl_out c (wire C ConnectionDisconnect (cl_sequence c + of_nat i)
     (writePacketKey c) (ct_protocolID (cl_connectToken c)))) [0..<n])"

lemma disconnect_packets_Suc:
  "disconnect_packets C (Suc n) c =
    cl_out c (wire C ConnectionDisconnect (cl_sequence c) (writePacketKey c) (ct_protocolID (cl_connectToken c))) @
    disconnect_packets C n (c\<lparr>cl_sequence := cl_sequence c + 1, cl_events := E, lastPacketSendTime := t\<rparr>)"
  by (simp add: disconnect_packets_def upt_conv_Cons map_Suc_upt[symmetric] comp_def ac_simps del: upt_Suc)

lemma send_disconnects:
  assumes "crypto_ok C" and "length (writePacketKey c) = 32"
  shows "\<exists>t. for_range (\<lambda>_ client. sendPacketToServerInternal C ConnectionDisconnect client) a n c =
    Some (c\<lparr>cl_sequence := cl_sequence c + of_nat n, cl_events := cl_events c @ disconnect_packets C n c, lastPacketSendTime := t\<rparr>)"
  using assms(2)
proof (induction n arbitrary: a c)
  case 0
  show ?case by (rule exI[of _ "lastPacketSendTime c"]) (simp add: disconnect_packets_def)
next
  case (Suc n)
  let ?E = "cl_events c @ cl_out c (wire C ConnectionDisconnect (cl_sequence c) (writePacketKey c) (ct_protocolID (cl_connectToken c)))"
  let ?c = "c\<lparr>cl_sequence := cl_sequence c + 1, cl_events := ?E, lastPacketSendTime := cl_time c\<rparr>"
  have "length (writePacketKey ?c) = 32" using Suc.prems by simp
  from Suc.IH[OF this] obtain t where "for_range (\<lambda>_ client. sendPacketToServerInternal C ConnectionDisconnect client) (Suc a) n ?c =
    Some (?c\<lparr>cl_sequence := cl_sequence ?c + of_nat n, cl_events := cl_events ?c @ disconnect_packets C n ?c, lastPacketSendTime := t\<rparr>)"
    by blast
  then show ?case
    using send_exact[OF assms(1) sendable_disconnect Suc.prems]
    by (intro exI[of _ t]) (simp add: disconnect_packets_Suc[where E = ?E and t = "cl_time c"] ac_simps)
qed

subsection \<open>Operations keep the invariant\<close>

text \<open>What leaving a connection does: perhaps disconnect packets, then a reset.\<close>

lemma reset_absorbs [simp]:
  "resetConnectionData x (c\<lparr>cl_sequence := q, cl_events := E, lastPacketSendTime := t\<rparr>) = resetConnectionData x (c\<lparr>cl_events := E\<rparr>)"
  by (rule Client.equality) (simp_all add: resetConnectionData_def resetBeforeNextConnect_def Let_def)

lemma disconnectInternal_eq:
  assumes "crypto_ok C" and "cl_inv c" and "0 < cl_state c" and "x \<le> 0"
  shows "client_disconnectInternal C x notify c = Some (resetConnectionData x (c\<lparr>cl_events := cl_events c @
    (if notify \<and> \<not> cl_loopback c then disconnect_packets C numDisconnectPackets c else [])\<rparr>))"
proof (cases "notify \<and> \<not> cl_loopback c")
  case True
  have "length (writePacketKey c) = 32" using assms(2) by (simp add: cl_inv_def)
  with send_disconnects[OF assms(1), of c 0 10] True assms(3,4) show ?thesis
    by (auto simp: client_disconnectInternal_def)
next
  case False
  with assms(3,4) show ?thesis by (auto simp: client_disconnectInternal_def)
qed

lemma disconnectInternal_ok:
  assumes "crypto_ok C" and "cl_inv c" and "-6 \<le> x" and "x \<le> 0"
  shows "\<exists>c'. client_disconnectInternal C x notify c = Some c' \<and> cl_inv c' \<and> cl_config c' = cl_config c \<and> cl_time c' = cl_time c \<and>
    cl_state c' = (if 0 < cl_state c then x else cl_state c) \<and> \<not> shouldDisconnect c' \<and> cl_state c' \<le> 0"
proof (cases "0 < cl_state c")
  case True
  from disconnectInternal_eq[OF assms(1,2) True assms(4), of notify] show ?thesis
    using assms(3,4) True by (auto simp: cl_inv_reset)
next
  case False
  with assms(2) show ?thesis by (auto simp: client_disconnectInternal_def cl_inv_def)
qed

lemma client_Connect_ok:
  assumes "crypto_ok C" and "cl_inv c"
  shows "\<exists>c'. Connect C d c = Some c' \<and> cl_inv c' \<and> cl_config c' = cl_config c"
proof -
  obtain c1 where c1: "client_Disconnect C c = Some c1" "cl_inv c1" "cl_config c1 = cl_config c" "cl_state c1 \<le> 0"
    "\<not> shouldDisconnect c1"
    using disconnectInternal_ok[OF assms, of 0 True] by (auto simp: client_Disconnect_def)
  obtain err t where t: "connectToken_read (cl_connectToken c1) d = Some (err, t)"
    "err = None \<Longrightarrow> 0 < ct_numServerAddresses t \<and> ct_numServerAddresses t \<le> 32 \<and> length (ct_nonce t) = 24 \<and>
      length (ct_privateData t) = 1024 \<and> length (ct_clientToServerKey t) = 32 \<and> length (ct_serverToClientKey t) = 32"
    using connectToken_read_total[of "cl_connectToken c1" d] by auto
  from c1 t show ?thesis
    by (cases "err = None") (auto simp: Connect_def resetBeforeNextConnect_def cl_inv_defs)
qed


lemma processInternal_fields [simp]:
  "cl_config (client_processPacketInternal from p q c) = cl_config c" "cl_time (client_processPacketInternal from p q c) = cl_time c"
  "serverAddress (client_processPacketInternal from p q c) = serverAddress c"
  "cl_connectToken (client_processPacketInternal from p q c) = cl_connectToken c"
  "serverAddressIndex (client_processPacketInternal from p q c) = serverAddressIndex c"
  "readPacketKey (client_processPacketInternal from p q c) = readPacketKey c"
  "writePacketKey (client_processPacketInternal from p q c) = writePacketKey c"
  "cl_sequence (client_processPacketInternal from p q c) = cl_sequence c"
  "hasPacketKeys (client_processPacketInternal from p q c) = hasPacketKeys c"
  "cl_loopback (client_processPacketInternal from p q c) = cl_loopback c"
  "cl_socketIPv4 (client_processPacketInternal from p q c) = cl_socketIPv4 c"
  "cl_socketIPv6 (client_processPacketInternal from p q c) = cl_socketIPv6 c"
  "cl_address (client_processPacketInternal from p q c) = cl_address c"
  "connectStartTime (client_processPacketInternal from p q c) = connectStartTime c"
  "lastPacketSendTime (client_processPacketInternal from p q c) = lastPacketSendTime c"
  "cl_replayProtection (client_processPacketInternal from p q c) = cl_replayProtection c"
  by (simp_all add: client_processPacketInternal_def split: packet.splits)

lemma processInternal_sent [simp]:
  "sent_packets (cl_events (client_processPacketInternal from p q c)) = sent_packets (cl_events c)"
  by (simp add: client_processPacketInternal_def sent_packets_def List.map_filter_def split: packet.splits)

lemma cl_inv_processInternal:
  assumes "cl_inv c" and "packet_ok p"
  shows "cl_inv (client_processPacketInternal from p q c)"
  using assms by (cases p) (auto simp: client_processPacketInternal_def cl_inv_defs)

lemma cl_inv_replay [simp]: "cl_inv (c\<lparr>cl_replayProtection := r\<rparr>) = cl_inv c"
  by (simp add: cl_inv_defs)

text \<open>A packet is dropped, or read under the read key and handled.\<close>

lemma client_ProcessPacket_cases:
  assumes "crypto_ok C"
  obtains (dropped) r where "client_ProcessPacket C ts from d c = Some (c\<lparr>cl_replayProtection := r\<rparr>)"
  | (handled) p q where "client_ProcessPacket C ts from d c = Some (client_processPacketInternal from p q
        (c\<lparr>cl_replayProtection := the (replay_mark (Some (cl_replayProtection c)) (packetType p) q)\<rparr>))"
      "packet_ok p" "\<not> is_request p"
      "encrypted_accept C d (if hasPacketKeys c then Some (readPacketKey c) else None) (ct_protocolID (cl_connectToken c))
        clientAllowedPackets (Some (cl_replayProtection c)) (Some p) q"
proof -
  let ?key = "if hasPacketKeys c then Some (readPacketKey c) else None"
  let ?read = "readPacket C d ?key (ct_protocolID (cl_connectToken c)) ts 0 None clientAllowedPackets (Some (cl_replayProtection c))"
  show thesis
  proof (rule readPacket_cases[OF assms, of d ?key "ct_protocolID (cl_connectToken c)" ts 0 None clientAllowedPackets "Some (cl_replayProtection c)"])
    fix q assume "?read = Some (None, q, Some (cl_replayProtection c))"
    then have "client_ProcessPacket C ts from d c = Some (c\<lparr>cl_replayProtection := cl_replayProtection c\<rparr>)"
      by (simp add: client_ProcessPacket_def)
    then show thesis by (rule dropped)
  next
    fix req assume "request_accept C d (ct_protocolID (cl_connectToken c)) ts 0 None clientAllowedPackets req"
    then show thesis by (auto simp: request_accept_def)
  next
    fix p q b rest assume p: "?read = Some (p, q, replay_mark (Some (cl_replayProtection c)) (b AND 0xF) q)"
      "encrypted_accept C d ?key (ct_protocolID (cl_connectToken c)) clientAllowedPackets (Some (cl_replayProtection c)) p q" "d = b # rest"
    obtain r where r: "replay_mark (Some (cl_replayProtection c)) (b AND 0xF) q = Some r"
      by (simp add: replay_mark_def)
    show thesis
    proof (cases p)
      case None
      with p(1) r have "client_ProcessPacket C ts from d c = Some (c\<lparr>cl_replayProtection := r\<rparr>)"
        by (simp add: client_ProcessPacket_def)
      then show thesis by (rule dropped)
    next
      case (Some p')
      then have ty: "packetType p' = b AND 0xF" using p(2,3) by (auto simp: encrypted_accept_def)
      show thesis
        by (rule handled[of p' q])
          (use p r Some accepted_length(2,3)[OF p(2)[unfolded Some] assms] in \<open>simp_all add: client_ProcessPacket_def ty\<close>)
    qed
  qed
qed

lemma client_ProcessPacket_ok:
  assumes "crypto_ok C" and "cl_inv c"
  shows "\<exists>c'. client_ProcessPacket C ts from d c = Some c' \<and> cl_inv c' \<and> cl_config c' = cl_config c \<and>
    cl_loopback c' = cl_loopback c \<and> cl_time c' = cl_time c"
  by (rule client_ProcessPacket_cases[OF assms(1), of ts "from" d c]) (use assms(2) in \<open>auto simp: cl_inv_processInternal\<close>)

lemma client_process_waiting_ok:
  assumes "crypto_ok C" and "cl_inv c"
  shows "\<exists>c'. client_process_waiting C waiting c = Some c' \<and> cl_inv c' \<and> cl_config c' = cl_config c \<and>
    cl_loopback c' = cl_loopback c \<and> cl_time c' = cl_time c"
  using assms(2)
proof (induction waiting arbitrary: c)
  case (Cons w waiting)
  obtain a d now where w: "w = (a, d, now)" by (cases w)
  obtain c1 where "client_ProcessPacket C now a d c = Some c1" "cl_inv c1" "cl_config c1 = cl_config c"
    "cl_loopback c1 = cl_loopback c" "cl_time c1 = cl_time c"
    using client_ProcessPacket_ok[OF assms(1) Cons.prems] by blast
  with Cons.IH[of c1] Cons.prems show ?case by (auto simp: w)
qed simp

lemma client_receivePackets_ok:
  assumes "crypto_ok C" and "cl_inv c" and "cl_receives (cl_config c)"
  shows "\<exists>c'. client_receivePackets C waiting c = Some c' \<and> cl_inv c' \<and> cl_config c' = cl_config c \<and>
    cl_loopback c' = cl_loopback c \<and> cl_time c' = cl_time c"
  using client_process_waiting_ok[OF assms(1,2)] assms(3) by (auto simp: client_receivePackets_def cl_receives_def)

text \<open>The packet a client owes the server, by state.\<close>

definition due_packet :: "Client \<Rightarrow> packet option" where
  "due_packet c = (if lastPacketSendTime c + 1 / packetSendRate \<ge> cl_time c then None
     else if cl_state c = ClientStateSendingConnectionRequest then Some (ConnectionRequest
       \<lparr>req_versionInfo = versionInfo, req_protocolID = ct_protocolID (cl_connectToken c),
        req_connectTokenExpireTimestamp = ct_expireTimestamp (cl_connectToken c),
        req_connectTokenNonce = ct_nonce (cl_connectToken c), req_connectTokenData = ct_privateData (cl_connectToken c)\<rparr>)
     else if cl_state c = ClientStateSendingConnectionResponse
     then Some (ConnectionResponse (challengeTokenSequence c) (challengeTokenData c))
     else if cl_state c = ClientStateConnected then Some (ConnectionKeepAlive 0 0)
     else None)"

definition sent :: "crypto \<Rightarrow> packet \<Rightarrow> Client \<Rightarrow> Client" where
  "sent C p c = c\<lparr>cl_sequence := cl_sequence c + 1,
    cl_events := cl_events c @ cl_out c (wire C p (cl_sequence c) (writePacketKey c) (ct_protocolID (cl_connectToken c))),
    lastPacketSendTime := cl_time c\<rparr>"

lemma sent_fields [simp]:
  "cl_config (sent C p c) = cl_config c" "cl_state (sent C p c) = cl_state c" "cl_time (sent C p c) = cl_time c"
  "cl_loopback (sent C p c) = cl_loopback c" "shouldDisconnect (sent C p c) = shouldDisconnect c"
  "shouldDisconnectState (sent C p c) = shouldDisconnectState c" "cl_connectToken (sent C p c) = cl_connectToken c"
  "connectStartTime (sent C p c) = connectStartTime c" "lastPacketReceiveTime (sent C p c) = lastPacketReceiveTime c"
  "serverAddressIndex (sent C p c) = serverAddressIndex c" "serverAddress (sent C p c) = serverAddress c"
  "cl_sequence (sent C p c) = cl_sequence c + 1" "lastPacketSendTime (sent C p c) = cl_time c"
  "cl_events (sent C p c) = cl_events c @
     cl_out c (wire C p (cl_sequence c) (writePacketKey c) (ct_protocolID (cl_connectToken c)))"
  by (simp_all add: sent_def)

lemma client_sendPackets_eq:
  assumes "crypto_ok C" and "cl_inv c" and "\<not> cl_loopback c"
  shows "client_sendPackets C c = Some (case due_packet c of None \<Rightarrow> c | Some p \<Rightarrow> sent C p c)"
proof -
  have key: "length (writePacketKey c) = 32" using assms(2) by (simp add: cl_inv_def)
  have "sendable p" if "due_packet c = Some p" for p
    using that assms(2,3) by (auto simp: due_packet_def sendable_def cl_inv_defs split: if_splits)
  then show ?thesis
    using send_exact[OF assms(1) _ key]
    by (auto simp: client_sendPackets_def due_packet_def sent_def)
qed

lemma client_sendPackets_ok:
  assumes "crypto_ok C" and "cl_inv c" and "\<not> cl_loopback c"
  shows "\<exists>c'. client_sendPackets C c = Some c' \<and> cl_inv c' \<and> cl_config c' = cl_config c \<and> \<not> cl_loopback c'"
proof -
  have "cl_inv (sent C p c)" if "due_packet c = Some p" for p
    unfolding sent_def by (rule cl_inv_sent[OF assms(2)]) (use that in \<open>auto simp: due_packet_def split: if_splits\<close>)
  with assms client_sendPackets_eq[OF assms] show ?thesis by (cases "due_packet c") auto
qed


lemma next_server_cases:
  assumes "crypto_ok C" and "cl_inv c" and "\<not> cl_loopback c" and "0 < cl_state c" and "-6 \<le> x" and "x \<le> 0"
  shows "next_server_or C x c = Some (
    if serverAddressIndex c + 1 < ct_numServerAddresses (cl_connectToken c)
    then setState ClientStateSendingConnectionRequest (resetBeforeNextConnect (c\<lparr>serverAddressIndex := serverAddressIndex c + 1,
      serverAddress := ct_serverAddresses (cl_connectToken c) (nat (serverAddressIndex c + 1))\<rparr>))
    else resetConnectionData x c)"
proof -
  have "linked c" using assms(2-4) by (simp add: cl_inv_def)
  then have "serverAddressIndex c + 1 < ct_numServerAddresses (cl_connectToken c) \<Longrightarrow>
      idx 32 (serverAddressIndex c + 1) = Some (nat (serverAddressIndex c + 1))"
    by (simp add: linked_def Let_def)
  then show ?thesis
    using disconnectInternal_eq[OF assms(1,2,4,6), of False]
    by (simp add: next_server_or_def connectToNextServer_def not_le)
qed

lemma next_server_ok:
  assumes "crypto_ok C" and "cl_inv c" and "\<not> cl_loopback c" and "0 < cl_state c" and "-6 \<le> x" and "x \<le> 0"
  shows "\<exists>c'. next_server_or C x c = Some c' \<and> cl_inv c' \<and> cl_config c' = cl_config c"
  using next_server_cases[OF assms] assms
  by (auto simp: cl_inv_reset cl_inv_defs resetBeforeNextConnect_def)

text \<open>
  The verdict at the end of an update: the state to give up with, and whether another server may be
  tried first.
\<close>

definition verdict :: "Client \<Rightarrow> (int \<times> bool) option" where
  "verdict c =
     (if cl_state c > 0 \<and> cl_state c < 3 \<and> cl_time c - connectStartTime c \<ge> token_lifetime c
      then Some (ClientStateConnectTokenExpired, False)
      else if shouldDisconnect c then Some (shouldDisconnectState c, True)
      else if cl_state c = 1 \<and> client_timed_out c then Some (ClientStateConnectionRequestTimedOut, True)
      else if cl_state c = 2 \<and> client_timed_out c then Some (ClientStateConnectionResponseTimedOut, True)
      else if cl_state c = 3 \<and> client_timed_out c then Some (ClientStateConnectionTimedOut, False)
      else None)"

lemma settle_verdict:
  "client_settle C c = (case verdict c of None \<Rightarrow> Some c
     | Some (x, retry) \<Rightarrow> if retry then next_server_or C x c else client_disconnectInternal C x False c)"
  by (simp add: client_settle_def verdict_def)

lemma verdict_range:
  "cl_inv c \<Longrightarrow> verdict c = Some (x, retry) \<Longrightarrow> 0 < cl_state c \<and> -6 \<le> x \<and> x \<le> 0"
  by (auto simp: verdict_def cl_inv_def split: if_splits)

lemma settle_ok:
  assumes "crypto_ok C" and "cl_inv c" and "\<not> cl_loopback c"
  shows "\<exists>c'. client_settle C c = Some c' \<and> cl_inv c' \<and> cl_config c' = cl_config c"
proof (cases "verdict c")
  case None
  with assms(2) show ?thesis by (simp add: settle_verdict)
next
  case (Some v)
  obtain x retry where v: "v = (x, retry)" by (cases v)
  note r = verdict_range[OF assms(2) Some[unfolded v]]
  with next_server_ok[OF assms, of x] disconnectInternal_ok[OF assms(1,2), of x False] Some v show ?thesis
    by (cases retry) (auto simp: settle_verdict)
qed

lemma client_Update_ok:
  assumes "crypto_ok C" and "cl_inv c" and "cl_loopback c \<or> cl_receives (cl_config c)"
  shows "\<exists>c'. client_Update C t waiting c = Some c' \<and> cl_inv c' \<and> cl_config c' = cl_config c"
proof (cases "cl_loopback c")
  case True
  with assms(2) show ?thesis by (auto simp: client_Update_def cl_inv_defs)
next
  case False
  let ?c0 = "c\<lparr>cl_time := t\<rparr>"
  have "cl_inv ?c0" using assms(2) by (simp add: cl_inv_defs)
  then obtain c1 where c1: "client_receivePackets C waiting ?c0 = Some c1" "cl_inv c1" "cl_config c1 = cl_config c" "\<not> cl_loopback c1"
    using client_receivePackets_ok[OF assms(1), of ?c0] assms(3) False by auto
  obtain c2 where c2: "client_sendPackets C c1 = Some c2" "cl_inv c2" "cl_config c2 = cl_config c" "\<not> cl_loopback c2"
    using client_sendPackets_ok[OF assms(1) c1(2,4)] c1(3) by auto
  from settle_ok[OF assms(1) c2(2,4)] c2(3) show ?thesis
    using False c1(1) c2(1) by (auto simp: client_Update_def)
qed

lemma client_Update_receives: "client_Update C t waiting c = Some c' \<Longrightarrow> cl_loopback c \<or> cl_receives (cl_config c)"
  by (auto simp: client_Update_def client_receivePackets_def cl_receives_def Let_def split: if_splits bind_splits)

lemma client_SendPacket_ok:
  assumes "crypto_ok C" and "cl_inv c" and "\<not> cl_nil_loopback_callback d c"
  shows "\<exists>c'. client_SendPacket C d c = Some c' \<and> cl_inv c' \<and> cl_config c' = cl_config c"
proof (cases "0 < length d \<and> length d \<le> 1200 \<and> cl_state c = 3 \<and> \<not> cl_loopback c")
  case True
  then have "sendable (ConnectionPayload d)" "length (writePacketKey c) = 32"
    using assms(2) by (cases d; simp add: sendable_def cl_inv_def)+
  from send_exact[OF assms(1) this] cl_inv_sent[OF assms(2)] True show ?thesis
    by (simp add: client_SendPacket_def)
next
  case False
  with assms(2,3) show ?thesis
    by (auto simp: client_SendPacket_def cl_nil_loopback_callback_def cl_inv_defs)
qed

lemma client_ReceivePacket_cases:
  assumes "queue_inv (packetReceiveQueue c)"
  obtains (none) "client_ReceivePacket c = ((None, 0), c)" "queue_list (packetReceiveQueue c) = []"
  | (some) p s q where "client_ReceivePacket c = ((Some p, s), c\<lparr>packetReceiveQueue := q\<rparr>)"
      "queue_list (packetReceiveQueue c) = (p, s) # queue_list q" "queue_inv q"
proof (cases "numPackets (packetReceiveQueue c) = 0")
  case True
  then have "queue_list (packetReceiveQueue c) = []" by (metis length_0_conv length_queue_list)
  with queue_pop_empty[OF True] show thesis by (intro none) (simp_all add: client_ReceivePacket_def)
next
  case False
  then obtain p s q where "packetQueue_pop (packetReceiveQueue c) = ((Some p, s), q)"
    "queue_list (packetReceiveQueue c) = (p, s) # queue_list q" "queue_inv q"
    using queue_pop[OF assms] by blast
  then show thesis by (intro some) (simp_all add: client_ReceivePacket_def)
qed

lemma client_ReceivePacket_ok:
  assumes "cl_inv c"
  shows "cl_inv (snd (client_ReceivePacket c)) \<and> cl_config (snd (client_ReceivePacket c)) = cl_config c"
proof -
  have "queue_inv (packetReceiveQueue c)" using assms by (simp add: cl_inv_def)
  then show ?thesis
    by (rule client_ReceivePacket_cases) (use assms in \<open>auto simp: cl_inv_defs\<close>)
qed

lemma client_Close_ok:
  assumes "crypto_ok C" and "cl_inv c"
  shows "\<exists>c'. client_Close C c = Some c' \<and> cl_inv c' \<and> cl_config c' = cl_config c"
proof -
  have closed: "cl_inv (c\<lparr>cl_socketIPv4 := a, cl_socketIPv6 := b, packetReceiveQueue := packetQueue_clear q\<rparr>)" if "cl_inv c" for c a b q
    using that by (auto simp: cl_inv_defs)
  obtain c1 where "client_Disconnect C c = Some c1" "cl_inv c1" "cl_config c1 = cl_config c"
    using disconnectInternal_ok[OF assms, of 0 True] by (auto simp: client_Disconnect_def)
  then show ?thesis
    by (cases "cl_loopback c") (simp_all add: client_Close_def DisconnectLoopback_def closed cl_inv_reset)
qed


subsection \<open>Runs\<close>

datatype cl_op =
    ClientConnect "byte list"
  | ClientUpdate float64 "(Address \<times> byte list \<times> u64) list"
  | ClientProcessPacket u64 Address "byte list"
  | ClientSendPacket "byte list"
  | ClientReceivePacket
  | ClientDisconnect
  | ClientConnectLoopback int int
  | ClientDisconnectLoopback
  | ClientProcessLoopbackPacket "byte list" u64
  | ClientClose

fun cl_exec :: "crypto \<Rightarrow> cl_op \<Rightarrow> Client \<Rightarrow> Client option" where
  "cl_exec C (ClientConnect d) c = Connect C d c"
| "cl_exec C (ClientUpdate t waiting) c = client_Update C t waiting c"
| "cl_exec C (ClientProcessPacket ts a d) c = client_ProcessPacket C ts a d c"
| "cl_exec C (ClientSendPacket d) c = client_SendPacket C d c"
| "cl_exec C ClientReceivePacket c = Some (snd (client_ReceivePacket c))"
| "cl_exec C ClientDisconnect c = client_Disconnect C c"
| "cl_exec C (ClientConnectLoopback i n) c = Some (ConnectLoopback i n c)"
| "cl_exec C ClientDisconnectLoopback c = Some (DisconnectLoopback c)"
| "cl_exec C (ClientProcessLoopbackPacket d q) c = Some (client_ProcessLoopbackPacket d q c)"
| "cl_exec C ClientClose c = client_Close C c"

text \<open>The calls on which a client panics: those that call a callback of its configuration that is nil.\<close>

fun cl_nil_callback :: "cl_op \<Rightarrow> Client \<Rightarrow> bool" where
  "cl_nil_callback (ClientUpdate _ _) c \<longleftrightarrow> \<not> cl_loopback c \<and> \<not> cl_receives (cl_config c)"
| "cl_nil_callback (ClientSendPacket d) c \<longleftrightarrow> cl_nil_loopback_callback d c"
| "cl_nil_callback _ c \<longleftrightarrow> False"

lemma cl_exec_ok:
  assumes "crypto_ok C" and "cl_inv c" and "\<not> cl_nil_callback op c"
  shows "\<exists>c'. cl_exec C op c = Some c' \<and> cl_inv c'"
proof (cases op)
  case (ClientConnect d)
  with client_Connect_ok[OF assms(1), of c d] assms(2) show ?thesis by auto
next
  case (ClientUpdate t waiting)
  with client_Update_ok[OF assms(1), of c t waiting] assms(2,3) show ?thesis by auto
next
  case (ClientProcessPacket ts a d)
  with client_ProcessPacket_ok[OF assms(1), of c ts a d] assms(2) show ?thesis by auto
next
  case (ClientSendPacket d)
  with client_SendPacket_ok[OF assms(1), of c d] assms(2,3) show ?thesis by auto
next
  case ClientReceivePacket
  with client_ReceivePacket_ok[of c] assms(2) show ?thesis by auto
next
  case ClientDisconnect
  with disconnectInternal_ok[OF assms(1), of c 0 True] assms(2) show ?thesis by (auto simp: client_Disconnect_def)
next
  case (ClientConnectLoopback i n)
  with assms(2) show ?thesis by (auto simp: ConnectLoopback_def cl_inv_defs)
next
  case ClientDisconnectLoopback
  with assms(2) show ?thesis by (simp add: DisconnectLoopback_def cl_inv_reset)
next
  case (ClientProcessLoopbackPacket d q)
  with assms(2) show ?thesis by (auto simp: client_ProcessLoopbackPacket_def cl_inv_defs)
next
  case ClientClose
  with client_Close_ok[OF assms(1), of c] assms(2) show ?thesis by auto
qed

lemma cl_exec_fails:
  assumes "cl_nil_callback op c"
  shows "cl_exec C op c = None"
proof (cases op)
  case (ClientUpdate t waiting)
  with assms client_Update_receives[of C t waiting c] show ?thesis by (cases "client_Update C t waiting c") auto
next
  case (ClientSendPacket d)
  with assms show ?thesis by (auto simp: client_SendPacket_def cl_nil_loopback_callback_def)
qed (use assms in simp_all)

text \<open>A client as a machine: it starts as \<open>NewClientDual\<close> builds it, with any configuration.\<close>

definition cl_init :: "Client \<Rightarrow> bool" where
  "cl_init c \<longleftrightarrow> (\<exists>config a t v4 v6. c = new_client config a t v4 v6)"

interpretation client: machine cl_init "\<lambda>_. crypto_ok C" "cl_exec C" cl_inv cl_nil_callback for C
proof
  show "cl_inv c" if "cl_init c" for c
    using that cl_inv_new by (auto simp: cl_init_def)
  show "\<exists>c'. cl_exec C op c = Some c' \<and> cl_inv c'" if "cl_inv c" "crypto_ok C" "\<not> cl_nil_callback op c" for c op
    by (rule cl_exec_ok[OF that(2,1,3)])
  show "cl_exec C op c = None" if "cl_nil_callback op c" for c op
    by (rule cl_exec_fails[OF that])
qed

abbreviation cl_reachable :: "crypto \<Rightarrow> Client \<Rightarrow> bool" where
  "cl_reachable C \<equiv> reachable cl_init (\<lambda>_. crypto_ok C) (cl_exec C)"

end
