(* ===== verification/Client_Properties.thy ===== *)
theory Client_Properties
  imports Client_Inv "HOL-Library.Sublist"
begin

text \<open>
  The properties of the client, over every state it can reach: which calls panic, what a client holds
  in each state, and that it makes progress only on authentic packets from its server. The state
  machine is in \<open>Client_States\<close>, sequence numbers and the list of servers in \<open>Client_Sequence\<close>.
\<close>

subsection \<open>Packets that move the client on\<close>

lemma clientAllowed [simp]:
  "clientAllowedPackets 1" "clientAllowedPackets 2" "clientAllowedPackets 4" "clientAllowedPackets 5" "clientAllowedPackets 6"
  "\<not> clientAllowedPackets 0" "\<not> clientAllowedPackets 3"
  by (simp_all add: clientAllowedPackets_def)

lemma processInternal_moves:
  assumes "cl_state (client_processPacketInternal from p q c) \<noteq> cl_state c"
  shows "Equal from (serverAddress c) \<and>
    ((\<exists>tq td. p = ConnectionChallenge tq td \<and> cl_state c = 1 \<and>
        cl_state (client_processPacketInternal from p q c) = 2 \<and>
        challengeTokenSequence (client_processPacketInternal from p q c) = tq \<and>
        Client.challengeTokenData (client_processPacketInternal from p q c) = td) \<or>
     (\<exists>i n. p = ConnectionKeepAlive i n \<and> cl_state c = 2 \<and>
        cl_state (client_processPacketInternal from p q c) = 3 \<and>
        cl_clientIndex (client_processPacketInternal from p q c) = sint i \<and>
        cl_maxClients (client_processPacketInternal from p q c) = sint n))"
  using assms by (cases p) (auto simp: client_processPacketInternal_def split: if_splits)

text \<open>A packet sealed under the read key is read and handled.\<close>

lemma client_takes:
  assumes "crypto_ok C" and "packet_ok p" and "\<not> is_request p" and "hasPacketKeys c" and "length (readPacketKey c) = 32"
    and "clientAllowedPackets (unat (packetType p))" and "\<not> replay_blocks (Some (cl_replayProtection c)) (packetType p) q"
    and "key = readPacketKey c" and "pid = ct_protocolID (cl_connectToken c)"
  shows "client_ProcessPacket C ts from (sealed_packet C p q key pid) c =
    Some (client_processPacketInternal from p q (c\<lparr>cl_replayProtection :=
      (if packetType p \<ge> connectionKeepAlivePacket then advanceSequence (cl_replayProtection c) q else cl_replayProtection c)\<rparr>))"
  using assms(4,8,9) readPacket_sealed[where allowed = clientAllowedPackets, OF assms(1-3,5-7), of "ct_protocolID (cl_connectToken c)" ts 0 None]
  by (simp add: client_ProcessPacket_def replay_mark_def)

subsection \<open>A client to witness the properties\<close>

definition sample_cl_config :: ClientConfig where
  "sample_cl_config = \<lparr>cc_NetworkSimulator = False, cc_StateChangeCallback = True, cc_SendLoopbackPacketCallback = True,
     cc_OverrideSendAndReceive = True, cc_SendPacketOverride = True, cc_ReceivePacketOverride = True\<rparr>"

definition sample_client0 :: Client where
  "sample_client0 = new_client sample_cl_config zeroAddress 0 None None"

lemma sample_client0_reachable: "cl_reachable checksum_crypto sample_client0"
  unfolding sample_client0_def by (rule reachable.created) (unfold cl_init_def, blast)

text \<open>A client that starts to connect with a valid token.\<close>

definition connecting :: "connectToken \<Rightarrow> Client \<Rightarrow> Client" where
  "connecting t c = setState ClientStateSendingConnectionRequest (resetBeforeNextConnect (c\<lparr>cl_connectToken := t,
     serverAddressIndex := 0, serverAddress := ct_serverAddresses t 0, readPacketKey := ct_serverToClientKey t,
     writePacketKey := ct_clientToServerKey t, hasPacketKeys := True\<rparr>))"

lemma Connect_exact:
  assumes "cl_state c \<le> 0" and "connectToken_read (cl_connectToken c) d = Some (None, t)"
  shows "Connect C d c = Some (connecting t c)"
  using assms by (simp add: Connect_def client_Disconnect_def client_disconnectInternal_def connecting_def)

text \<open>A connect token that names two servers.\<close>

lemma nat_less_2: "(\<forall>i<(2::nat). P i) \<longleftrightarrow> P 0 \<and> P 1"
  using less_2_cases by force

definition sample_server2 :: Address where "sample_server2 = sample_address\<lparr>Port := 40001\<rparr>"

definition sample_token2 :: connectToken where
  "sample_token2 = sample_token\<lparr>ct_numServerAddresses := 2,
     ct_serverAddresses := (\<lambda>_. zeroAddress)(0 := sample_address, 1 := sample_server2)\<rparr>"

lemma sample_token2_ok: "ct_ok sample_token2"
proof -
  have "address_canonical sample_server2"
    by (simp add: sample_server2_def sample_address_def address_canonical_def address_wf_def)
  then show ?thesis
    by (simp add: ct_ok_def sample_token2_def sample_token_def zeroConnectToken_def addresses_ok_def sample_address_canonical
        less_Suc_eq_0_disj nat_less_2)
qed

definition sample_connecting :: Client where
  "sample_connecting = connecting sample_token2 sample_client0"

lemma sample_connect:
  "\<exists>d. Connect checksum_crypto d sample_client0 = Some sample_connecting"
proof -
  obtain d where "connectToken_read zeroConnectToken d = Some (None, sample_token2)"
    using connect_token_transfer[OF sample_token2_ok, of "replicate 2048 0"] by auto
  moreover have "cl_state sample_client0 \<le> 0" "cl_connectToken sample_client0 = zeroConnectToken"
    by (simp_all add: sample_client0_def new_client_def)
  ultimately show ?thesis using Connect_exact[of sample_client0 d sample_token2] by (auto simp: sample_connecting_def)
qed

lemma sample_connecting_reachable: "cl_reachable checksum_crypto sample_connecting"
proof -
  obtain d where "cl_exec checksum_crypto (ClientConnect d) sample_client0 = Some sample_connecting"
    using sample_connect by auto
  from reachable.called[OF sample_client0_reachable checksum_crypto_ok this] show ?thesis .
qed

lemma sample_token2_fields [simp]:
  "ct_protocolID sample_token2 = 9" "ct_createTimestamp sample_token2 = 100" "ct_expireTimestamp sample_token2 = 130"
  "ct_timeoutSeconds sample_token2 = 15" "ct_numServerAddresses sample_token2 = 2"
  "ct_serverAddresses sample_token2 0 = sample_address" "ct_serverAddresses sample_token2 (Suc 0) = sample_server2"
  "ct_serverToClientKey sample_token2 = replicate 32 0" "ct_clientToServerKey sample_token2 = replicate 32 0"
  by (simp_all add: sample_token2_def sample_token_def zeroConnectToken_def)

lemma sample_connecting_fields [simp]:
  "cl_state sample_connecting = 1" "serverAddress sample_connecting = sample_address"
  "cl_connectToken sample_connecting = sample_token2" "cl_loopback sample_connecting = False"
  "hasPacketKeys sample_connecting" "cl_time sample_connecting = 0" "connectStartTime sample_connecting = 0"
  "lastPacketReceiveTime sample_connecting = 0" "lastPacketSendTime sample_connecting = -1"
  "serverAddressIndex sample_connecting = 0" "cl_sequence sample_connecting = 0" "\<not> shouldDisconnect sample_connecting"
  "cl_config sample_connecting = sample_cl_config"
  "readPacketKey sample_connecting = replicate 32 0" "writePacketKey sample_connecting = replicate 32 0"
  by (simp_all add: sample_connecting_def connecting_def resetBeforeNextConnect_def sample_client0_def new_client_def)

lemma sample_window: "\<exists>rp. cl_replayProtection sample_connecting = replay_reset rp"
  by (auto simp: sample_connecting_def connecting_def resetBeforeNextConnect_def)

lemma Equal_sample [simp]: "Equal sample_address sample_address"
  by (simp add: Equal_def sample_address_def)

text \<open>The same client after a challenge and after the keep-alive that accepts it.\<close>

definition sample_responding :: Client where
  "sample_responding = client_processPacketInternal sample_address (ConnectionChallenge 5 (replicate 300 1)) 8 sample_connecting"

definition sample_connected :: Client where
  "sample_connected = client_processPacketInternal sample_address (ConnectionKeepAlive 3 16) 0
     (sample_responding\<lparr>cl_replayProtection := advanceSequence (cl_replayProtection sample_responding) 0\<rparr>)"

lemma fresh_window [simp]:
  "\<not> alreadyReceived (replay_reset rp) 0" "\<not> alreadyReceived (cl_replayProtection sample_connecting) 0"
  using sample_window by (auto simp: alreadyReceived_def replay_reset_def)

lemma sample_responding_fields [simp]:
  "cl_state sample_responding = 2" "shouldDisconnect sample_responding = False" "lastPacketReceiveTime sample_responding = 0"
  "cl_events sample_responding = cl_events sample_connecting @ [StateChangeEvent 1 2]"
  by (simp_all add: sample_responding_def client_processPacketInternal_def sample_cl_config_def)

lemma sample_responding_kept [simp]:
  "serverAddress sample_responding = sample_address" "cl_connectToken sample_responding = sample_token2"
  "\<not> cl_loopback sample_responding" "hasPacketKeys sample_responding" "cl_time sample_responding = 0"
  "serverAddressIndex sample_responding = 0" "cl_config sample_responding = sample_cl_config"
  "readPacketKey sample_responding = replicate 32 0" "cl_replayProtection sample_responding = cl_replayProtection sample_connecting"
  by (simp_all add: sample_responding_def)

lemma sample_connected_fields [simp]:
  "cl_state sample_connected = 3" "shouldDisconnect sample_connected = False" "cl_clientIndex sample_connected = 3"
  "serverAddress sample_connected = sample_address" "cl_connectToken sample_connected = sample_token2"
  "\<not> cl_loopback sample_connected" "hasPacketKeys sample_connected" "cl_time sample_connected = 0"
  "serverAddressIndex sample_connected = 0" "cl_config sample_connected = sample_cl_config"
  "readPacketKey sample_connected = replicate 32 0" "writePacketKey sample_connected = replicate 32 0"
  "cl_sequence sample_connected = 0"
  by (simp_all add: sample_connected_def client_processPacketInternal_def sample_responding_def)

lemma sample_packets:
  "client_ProcessPacket checksum_crypto 0 sample_address
     (sealed_packet checksum_crypto (ConnectionChallenge 5 (replicate 300 1)) 8 (replicate 32 0) 9) sample_connecting = Some sample_responding"
  "client_ProcessPacket checksum_crypto 0 sample_address
     (sealed_packet checksum_crypto (ConnectionKeepAlive 3 16) 0 (replicate 32 0) 9) sample_responding = Some sample_connected"
  by (simp add: client_takes[OF checksum_crypto_ok] replay_blocks_def sample_responding_def)
    (simp add: client_takes[OF checksum_crypto_ok] replay_blocks_def sample_connected_def)

lemma sample_responding_reachable: "cl_reachable checksum_crypto sample_responding"
  using reachable.called[OF sample_connecting_reachable checksum_crypto_ok, of "ClientProcessPacket 0 _ _"] sample_packets(1) by simp

lemma sample_connected_reachable: "cl_reachable checksum_crypto sample_connected"
  using reachable.called[OF sample_responding_reachable checksum_crypto_ok, of "ClientProcessPacket 0 _ _"] sample_packets(2) by simp

subsection \<open>Properties\<close>

text \<open>
  C26: only a nil callback panics. In every state a client can reach through its interface, whatever
  its configuration, whatever bytes arrive from whatever address and whatever connect token it is
  given, a call panics exactly when it calls a callback that is nil: \<open>Update\<close> of a client that is not in
  loopback when packets come through the override and the receive callback is nil, and \<open>SendPacket\<close>
  with a payload of valid size in loopback when the loopback callback is nil.
\<close>

theorem client_panics_exactly:
  assumes "crypto_ok C" and "cl_reachable C c"
  shows "cl_exec C op c = None \<longleftrightarrow>
    (\<exists>t waiting. op = ClientUpdate t waiting \<and> \<not> cl_loopback c \<and> cc_OverrideSendAndReceive (cl_config c) \<and>
      \<not> cc_NetworkSimulator (cl_config c) \<and> \<not> cc_ReceivePacketOverride (cl_config c)) \<or>
    (\<exists>d. op = ClientSendPacket d \<and> 0 < length d \<and> length d \<le> MaxPacketSize \<and> cl_state c = ClientStateConnected \<and>
      cl_loopback c \<and> \<not> cc_SendLoopbackPacketCallback (cl_config c))"
proof -
  have "cl_exec C op c = None \<longleftrightarrow> cl_nil_callback op c"
    using client.stuck_iff[OF assms(2), of op] assms(1) by blast
  then show ?thesis
    by (cases op) (auto simp: cl_receives_def cl_nil_loopback_callback_def simp del: not_None_eq)
qed

text \<open>A client without callbacks that is connected in loopback.\<close>

definition bare_cl_config :: ClientConfig where
  "bare_cl_config = \<lparr>cc_NetworkSimulator = False, cc_StateChangeCallback = False, cc_SendLoopbackPacketCallback = False,
     cc_OverrideSendAndReceive = False, cc_SendPacketOverride = False, cc_ReceivePacketOverride = False\<rparr>"

definition bare_client :: Client where
  "bare_client = ConnectLoopback 3 16 (new_client bare_cl_config zeroAddress 0 None None)"

lemma bare_client_reachable: "cl_reachable checksum_crypto bare_client"
proof -
  have "cl_reachable checksum_crypto (new_client bare_cl_config zeroAddress 0 None None)"
    by (rule reachable.created) (unfold cl_init_def, blast)
  from reachable.called[OF this checksum_crypto_ok, of "ClientConnectLoopback 3 16"] show ?thesis
    by (simp add: bare_client_def)
qed

theorem client_panics_exactly_witness:
  "cl_exec checksum_crypto (ClientSendPacket [7]) bare_client = None \<and>
    cl_exec checksum_crypto (ClientUpdate 1 []) bare_client \<noteq> None \<and>
    cl_exec checksum_crypto (ClientProcessPacket 0 sample_address [1, 2, 3]) sample_client0 \<noteq> None"
proof -
  note p = client_panics_exactly[OF checksum_crypto_ok bare_client_reachable]
  have "cl_state bare_client = 3" "cl_loopback bare_client" "\<not> cc_SendLoopbackPacketCallback (cl_config bare_client)"
    by (simp_all add: bare_client_def ConnectLoopback_def new_client_def bare_cl_config_def)
  then have "cl_exec checksum_crypto (ClientSendPacket [7]) bare_client = None" "cl_exec checksum_crypto (ClientUpdate 1 []) bare_client \<noteq> None"
    using p[of "ClientSendPacket [7]"] p[of "ClientUpdate 1 []"] by (simp_all del: not_None_eq cl_exec.simps)
  moreover have "cl_exec checksum_crypto (ClientProcessPacket 0 sample_address [1, 2, 3]) sample_client0 \<noteq> None"
    using client_panics_exactly[OF checksum_crypto_ok sample_client0_reachable, of "ClientProcessPacket 0 sample_address [1, 2, 3]"]
    by (simp del: not_None_eq cl_exec.simps)
  ultimately show ?thesis by blast
qed

text \<open>
  C27: what a client holds in each state it can reach. The state is one of the ten client states. A
  client that is connecting or connected over the network has the two keys of its connect token and
  talks to the server address of the token that its index names; any other client has no keys, will
  start at sequence number 0 and has no received packets, so nothing of an earlier connection is left.
\<close>

theorem client_state_consistent:
  assumes "crypto_ok C" and "cl_reachable C c"
  shows "ClientStateConnectTokenExpired \<le> cl_state c \<and> cl_state c \<le> ClientStateConnected \<and>
    (cl_loopback c \<longrightarrow> cl_state c = ClientStateConnected) \<and>
    (if cl_state c \<le> ClientStateDisconnected
     then \<not> hasPacketKeys c \<and> cl_sequence c = 0 \<and> fst (client_ReceivePacket c) = (None, 0)
     else cl_loopback c \<or>
       hasPacketKeys c \<and> readPacketKey c = ct_serverToClientKey (cl_connectToken c) \<and>
       writePacketKey c = ct_clientToServerKey (cl_connectToken c) \<and>
       0 \<le> serverAddressIndex c \<and> serverAddressIndex c < ct_numServerAddresses (cl_connectToken c) \<and>
       serverAddress c = ct_serverAddresses (cl_connectToken c) (nat (serverAddressIndex c)))"
proof -
  have inv: "cl_inv c" by (rule client.reach_inv[OF assms(2)])
  then have "queue_inv (packetReceiveQueue c)" by (simp add: cl_inv_def)
  then have "queue_list (packetReceiveQueue c) = [] \<Longrightarrow> fst (client_ReceivePacket c) = (None, 0)"
    by (rule client_ReceivePacket_cases) auto
  with inv show ?thesis by (auto simp: cl_inv_defs)
qed

theorem client_state_consistent_witness:
  "cl_state sample_connected = ClientStateConnected \<and> hasPacketKeys sample_connected \<and>
    readPacketKey sample_connected = ct_serverToClientKey (cl_connectToken sample_connected) \<and>
    serverAddress sample_connected = ct_serverAddresses (cl_connectToken sample_connected) (nat (serverAddressIndex sample_connected)) \<and>
    \<not> hasPacketKeys sample_client0 \<and> fst (client_ReceivePacket sample_client0) = (None, 0)"
proof -
  have "\<not> hasPacketKeys sample_client0 \<and> fst (client_ReceivePacket sample_client0) = (None, 0)"
    using client_state_consistent[OF checksum_crypto_ok sample_client0_reachable]
    by (simp add: sample_client0_def new_client_def)
  moreover have "cl_state sample_connected = 3" "\<not> cl_loopback sample_connected" by simp_all
  ultimately show ?thesis
    using client_state_consistent[OF checksum_crypto_ok sample_connected_reachable] by simp
qed

text \<open>
  C28: a client moves on only on authentic packets from its server. When a packet changes the state of
  a client, it came from the address of the server the client is working on, it is sealed under the
  server-to-client key of the connect token for the protocol id of the token, and it is either a
  challenge that takes the client from sending requests to sending responses, with exactly the
  challenge the client will return, or a keep-alive that takes it from sending responses to
  connected, with its slot and the slot count. The keep-alive has passed the replay window of the
  client; challenges are not checked against it.
\<close>

theorem client_progress_authentic:
  assumes "crypto_ok C" and "cl_reachable C c" and "client_ProcessPacket C ts from packetData c = Some c'"
    and "cl_state c' \<noteq> cl_state c"
  shows "Equal from (serverAddress c) \<and> (\<exists>p b sq. packetData = b # sq @ seal (chacha C) (ct_serverToClientKey (cl_connectToken c))
      (replicate 4 0 @ le_encode 8 (le_decode sq :: u64)) (versionInfo @ le_encode 8 (ct_protocolID (cl_connectToken c)) @ [b]) (enc_body p) \<and>
    (cl_state c = ClientStateSendingConnectionRequest \<and> cl_state c' = ClientStateSendingConnectionResponse \<and>
       p = ConnectionChallenge (challengeTokenSequence c') (Client.challengeTokenData c') \<or>
     cl_state c = ClientStateSendingConnectionResponse \<and> cl_state c' = ClientStateConnected \<and>
       \<not> alreadyReceived (cl_replayProtection c) (le_decode sq) \<and>
       (\<exists>i n. p = ConnectionKeepAlive i n \<and> cl_clientIndex c' = sint i \<and> cl_maxClients c' = sint n)))"
proof -
  have inv: "cl_inv c" by (rule client.reach_inv[OF assms(2)])
  show ?thesis
  proof (rule client_ProcessPacket_cases[OF assms(1), of ts "from" packetData c])
    fix r assume "client_ProcessPacket C ts from packetData c = Some (c\<lparr>cl_replayProtection := r\<rparr>)"
    with assms(3,4) show ?thesis by auto
  next
    fix p q assume p: "client_ProcessPacket C ts from packetData c = Some (client_processPacketInternal from p q
        (c\<lparr>cl_replayProtection := the (replay_mark (Some (cl_replayProtection c)) (packetType p) q)\<rparr>))"
      "encrypted_accept C packetData (if hasPacketKeys c then Some (readPacketKey c) else None) (ct_protocolID (cl_connectToken c))
        clientAllowedPackets (Some (cl_replayProtection c)) (Some p) q"
    let ?c = "c\<lparr>cl_replayProtection := the (replay_mark (Some (cl_replayProtection c)) (packetType p) q)\<rparr>"
    have c': "c' = client_processPacketInternal from p q ?c" using p(1) assms(3) by simp
    note m = processInternal_moves[of "from" p q ?c, folded c', simplified, OF assms(4)]
    have "readPacketKey c = ct_serverToClientKey (cl_connectToken c)"
      using inv m by (auto simp: cl_inv_defs)
    with p(2) obtain b sq where "packetData = b # sq @ seal (chacha C) (ct_serverToClientKey (cl_connectToken c)) (nonce_bytes q)
        (packet_ad (ct_protocolID (cl_connectToken c)) b) (enc_body p)" "q = le_decode sq" "packetType p = b AND 0xF"
      "\<not> replay_blocks (Some (cl_replayProtection c)) (packetType p) q"
      by (auto simp: encrypted_accept_def split: if_splits)
    with m show ?thesis
      by (auto simp: nonce_bytes_def packet_ad_def replay_blocks_def)
  qed
qed

theorem client_progress_authentic_witness:
  "let d = sealed_packet checksum_crypto (ConnectionChallenge 5 (replicate 300 1)) 8 (replicate 32 0) 9;
       c' = the (client_ProcessPacket checksum_crypto 100 sample_address d sample_connecting)
   in cl_state c' = ClientStateSendingConnectionResponse \<and> Equal sample_address (serverAddress sample_connecting)"
proof -
  let ?p = "ConnectionChallenge 5 (replicate 300 1)"
  let ?d = "sealed_packet checksum_crypto ?p 8 (replicate 32 0) 9"
  have p: "client_ProcessPacket checksum_crypto 100 sample_address ?d sample_connecting =
      Some (client_processPacketInternal sample_address ?p 8 (sample_connecting\<lparr>cl_replayProtection := cl_replayProtection sample_connecting\<rparr>))"
    by (subst client_takes[OF checksum_crypto_ok]) (simp_all add: replay_blocks_def)
  let ?c = "client_processPacketInternal sample_address ?p 8 (sample_connecting\<lparr>cl_replayProtection := cl_replayProtection sample_connecting\<rparr>)"
  have st: "cl_state ?c = 2" by (simp add: client_processPacketInternal_def)
  have "cl_state ?c \<noteq> cl_state sample_connecting" unfolding st by simp
  from client_progress_authentic[OF checksum_crypto_ok sample_connecting_reachable p this] show ?thesis
    unfolding Let_def p option.sel st by simp
qed

end
