(* ===== verification/Client_States.thy ===== *)
theory Client_States
  imports Client_Properties
begin

text \<open>
  The state machine of the client: every change of state that is reported to the application is one
  of a fixed list, and the reports of a run form a path from the state before it to the state after it.
\<close>

text \<open>The changes of state that \<^verbatim>\<open>STANDARD.md\<close> describes, by cause.\<close>

inductive standard_step :: "int \<Rightarrow> int \<Rightarrow> bool" where
  connect: "a \<le> ClientStateDisconnected \<Longrightarrow> standard_step a ClientStateSendingConnectionRequest"
| bad_token: "a \<le> ClientStateDisconnected \<Longrightarrow> standard_step a ClientStateInvalidConnectToken"
| challenge: "standard_step ClientStateSendingConnectionRequest ClientStateSendingConnectionResponse"
| accepted: "standard_step ClientStateSendingConnectionResponse ClientStateConnected"
| next_server: "a = ClientStateSendingConnectionRequest \<or> a = ClientStateSendingConnectionResponse \<Longrightarrow>
    standard_step a ClientStateSendingConnectionRequest"
| denied: "a = ClientStateSendingConnectionRequest \<or> a = ClientStateSendingConnectionResponse \<Longrightarrow>
    standard_step a ClientStateConnectionDenied"
| expired: "a = ClientStateSendingConnectionRequest \<or> a = ClientStateSendingConnectionResponse \<Longrightarrow>
    standard_step a ClientStateConnectTokenExpired"
| request_timeout: "standard_step ClientStateSendingConnectionRequest ClientStateConnectionRequestTimedOut"
| response_timeout: "standard_step ClientStateSendingConnectionResponse ClientStateConnectionResponseTimedOut"
| timeout: "standard_step ClientStateConnected ClientStateConnectionTimedOut"
| disconnected: "standard_step ClientStateConnected ClientStateDisconnected"

text \<open>
  The changes of state the code makes besides: giving up while connecting, which the standard does not
  speak of, and two that are not the ones it asks for, leaving an established connection for the next
  server or for the denied state.
\<close>

inductive other_step :: "int \<Rightarrow> int \<Rightarrow> bool" where
  given_up: "a = ClientStateSendingConnectionRequest \<or> a = ClientStateSendingConnectionResponse \<Longrightarrow>
    other_step a ClientStateDisconnected"
| connected_next_server: "other_step ClientStateConnected ClientStateSendingConnectionRequest"
| connected_denied: "other_step ClientStateConnected ClientStateConnectionDenied"

definition client_step :: "int \<Rightarrow> int \<Rightarrow> bool" where
  "client_step a b \<longleftrightarrow> standard_step a b \<or> other_step a b"

inductive_simps standard_step_simps [simplified]: "standard_step a b"
inductive_simps other_step_simps [simplified]: "other_step a b"

lemma client_step_iff:
  "client_step a b \<longleftrightarrow> a \<le> 0 \<and> (b = 1 \<or> b = -5) \<or> a = 1 \<and> (b = 1 \<or> b = 2 \<or> b = 0 \<or> b = -1 \<or> b = -2 \<or> b = -6) \<or>
     a = 2 \<and> (b = 1 \<or> b = 3 \<or> b = 0 \<or> b = -1 \<or> b = -3 \<or> b = -6) \<or> a = 3 \<and> (b = 1 \<or> b = 0 \<or> b = -1 \<or> b = -4)"
  unfolding client_step_def standard_step_simps other_step_simps by auto

lemma client_step_intros [simp, intro]:
  "a \<le> 0 \<Longrightarrow> client_step a 1" "a \<le> 0 \<Longrightarrow> client_step a (-5)" "client_step 1 2" "client_step 2 3"
  "0 < a \<Longrightarrow> a \<le> 3 \<Longrightarrow> client_step a 1" "0 < a \<Longrightarrow> a \<le> 3 \<Longrightarrow> client_step a 0" "0 < a \<Longrightarrow> a \<le> 3 \<Longrightarrow> client_step a (-1)"
  "a = 1 \<or> a = 2 \<Longrightarrow> client_step a (-6)" "client_step 1 (-2)" "client_step 2 (-3)" "client_step 3 (-4)"
  unfolding client_step_iff by auto

fun state_change :: "event \<Rightarrow> (int \<times> int) option" where
  "state_change (StateChangeEvent a b) = Some (a, b)"
| "state_change _ = None"

definition state_changes :: "event list \<Rightarrow> (int \<times> int) list" where
  "state_changes events = List.map_filter state_change events"

text \<open>A path through the state machine, one change after the other.\<close>

fun path :: "int \<Rightarrow> (int \<times> int) list \<Rightarrow> int \<Rightarrow> bool" where
  "path a [] b \<longleftrightarrow> a = b"
| "path a ((x, y) # es) b \<longleftrightarrow> x = a \<and> client_step x y \<and> path y es b"

lemma path_append: "path a xs b \<Longrightarrow> path b ys c \<Longrightarrow> path a (xs @ ys) c"
  by (induction a xs b rule: path.induct) auto

lemma state_changes_simps [simp]:
  "state_changes [] = []" "state_changes (xs @ ys) = state_changes xs @ state_changes ys"
  "state_changes (StateChangeEvent a b # xs) = (a, b) # state_changes xs"
  by (simp_all add: state_changes_def List.map_filter_def)

lemma state_changes_out [simp]: "state_changes (cl_out c d) = []" "state_changes (disconnect_packets C n c) = []"
proof -
  show out: "state_changes (cl_out c d) = []" for c d
    by (simp add: cl_out_def sendPacketToAddress_def state_changes_def List.map_filter_def)
  show "state_changes (disconnect_packets C n c) = []"
    by (induction n) (simp_all add: disconnect_packets_def out)
qed

definition moves :: "Client \<Rightarrow> Client \<Rightarrow> bool" where
  "moves c c' \<longleftrightarrow> cl_config c' = cl_config c \<and> (\<exists>new. cl_events c' = cl_events c @ new \<and>
     (cc_StateChangeCallback (cl_config c) \<longrightarrow> path (cl_state c) (state_changes new) (cl_state c')))"

lemma moves_trans [trans]: "moves c c1 \<Longrightarrow> moves c1 c2 \<Longrightarrow> moves c c2"
proof -
  assume a: "moves c c1" "moves c1 c2"
  obtain n1 where n1: "cl_events c1 = cl_events c @ n1"
    "cc_StateChangeCallback (cl_config c) \<longrightarrow> path (cl_state c) (state_changes n1) (cl_state c1)"
    using a(1) by (auto simp: moves_def)
  obtain n2 where n2: "cl_events c2 = cl_events c1 @ n2"
    "cc_StateChangeCallback (cl_config c1) \<longrightarrow> path (cl_state c1) (state_changes n2) (cl_state c2)"
    using a(2) by (auto simp: moves_def)
  have "cl_config c1 = cl_config c" "cl_config c2 = cl_config c" using a by (simp_all add: moves_def)
  with n1 n2 path_append show ?thesis
    unfolding moves_def by (intro conjI exI[of _ "n1 @ n2"]) auto
qed

lemma moves_quiet: "cl_config c' = cl_config c \<Longrightarrow> cl_events c' = cl_events c @ new \<Longrightarrow> state_changes new = [] \<Longrightarrow>
    cl_state c' = cl_state c \<Longrightarrow> moves c c'"
  by (auto simp: moves_def)

lemma moves_refl [simp]: "moves c c"
  by (simp add: moves_def)

lemma moves_step: "cl_config c' = cl_config c \<Longrightarrow> cl_state c' = x \<Longrightarrow> client_step (cl_state c) x \<Longrightarrow>
    cl_events c' = cl_events c @ new @ (if cc_StateChangeCallback (cl_config c) then [StateChangeEvent (cl_state c) x] else []) \<Longrightarrow>
    state_changes new = [] \<Longrightarrow> moves c c'"
  by (auto simp: moves_def)

lemma moves_set: "client_step (cl_state c) x \<Longrightarrow> moves c (setState x c)"
  by (rule moves_step[where new = "[]"]) simp_all

lemma moves_processInternal: "moves c (client_processPacketInternal from p q c)"
proof (cases p)
  case (ConnectionChallenge tq td)
  then show ?thesis
    by (auto simp: client_processPacketInternal_def intro: moves_step[where new = "[]"])
next
  case (ConnectionKeepAlive i n)
  then show ?thesis
    by (auto simp: client_processPacketInternal_def intro: moves_step[where new = "[]"] moves_quiet[where new = "[]"])
qed (auto simp: client_processPacketInternal_def intro: moves_quiet[where new = "[]"])

lemma moves_replay [simp]: "moves (c\<lparr>cl_replayProtection := r\<rparr>) c' = moves c c'" "moves c (c\<lparr>cl_replayProtection := r\<rparr>)"
  by (simp_all add: moves_def)

lemma moves_ProcessPacket:
  assumes "crypto_ok C" and "client_ProcessPacket C ts from d c = Some c'"
  shows "moves c c'"
proof (rule client_ProcessPacket_cases[OF assms(1), of ts "from" d c])
  fix p q
  let ?c = "c\<lparr>cl_replayProtection := the (replay_mark (Some (cl_replayProtection c)) (packetType p) q)\<rparr>"
  assume "client_ProcessPacket C ts from d c = Some (client_processPacketInternal from p q ?c)"
  with assms(2) moves_processInternal[of ?c "from" p q] show ?thesis by simp
qed (use assms(2) in auto)

lemma moves_waiting:
  assumes "crypto_ok C" and "client_process_waiting C waiting c = Some c'"
  shows "moves c c'"
  using assms
proof (induction C waiting c rule: client_process_waiting.induct)
  case (2 C a d now waiting c)
  then show ?case
    by (auto split: if_splits bind_splits intro: moves_trans[OF moves_ProcessPacket[OF 2(2)]])
qed simp

lemma moves_sendPackets:
  assumes "crypto_ok C" and "cl_inv c" and "\<not> cl_loopback c" and "client_sendPackets C c = Some c'"
  shows "moves c c'"
proof (cases "due_packet c")
  case None
  with client_sendPackets_eq[OF assms(1-3)] assms(4) show ?thesis by simp
next
  case (Some p)
  with client_sendPackets_eq[OF assms(1-3)] assms(4) have "c' = sent C p c" by simp
  then show ?thesis
    by (intro moves_quiet[where new = "cl_out c (wire C p (cl_sequence c) (writePacketKey c) (ct_protocolID (cl_connectToken c)))"]) simp_all
qed

lemma moves_reset:
  "client_step (cl_state c) x \<Longrightarrow> state_changes new = [] \<Longrightarrow> moves c (resetConnectionData x (c\<lparr>cl_events := cl_events c @ new\<rparr>))"
  by (rule moves_step[where new = new and x = x]) simp_all

lemma moves_disconnect:
  assumes "crypto_ok C" and "cl_inv c" and "0 < cl_state c \<Longrightarrow> client_step (cl_state c) x" and "x \<le> 0"
    and "client_disconnectInternal C x notify c = Some c'"
  shows "moves c c'"
proof (cases "0 < cl_state c")
  case True
  with disconnectInternal_eq[OF assms(1,2) True assms(4), of notify] assms(3,5) show ?thesis
    using moves_reset[of c x "[]"] by (auto intro!: moves_reset split: if_splits)
next
  case False
  with assms(5) show ?thesis by (simp add: client_disconnectInternal_def)
qed

lemma step_of_inv: "cl_inv c \<Longrightarrow> 0 < cl_state c \<Longrightarrow> client_step (cl_state c) 0 \<and> client_step (cl_state c) 1"
  by (auto simp: cl_inv_def)

lemma verdict_step:
  "cl_inv c \<Longrightarrow> verdict c = Some (x, retry) \<Longrightarrow> client_step (cl_state c) x"
  by (auto simp: verdict_def cl_inv_def split: if_splits)

lemma moves_settle:
  assumes "crypto_ok C" and "cl_inv c" and "\<not> cl_loopback c" and "client_settle C c = Some c'"
  shows "moves c c'"
proof (cases "verdict c")
  case None
  with assms(4) show ?thesis by (simp add: settle_verdict)
next
  case (Some v)
  obtain x retry where v: "v = (x, retry)" by (cases v)
  note r = verdict_range[OF assms(2) Some[unfolded v]] and st = verdict_step[OF assms(2) Some[unfolded v]]
  show ?thesis
  proof (cases retry)
    case True
    have reset: "moves c (resetConnectionData x c)" using moves_reset[OF st, of "[]"] by simp
    have "next_server_or C x c = Some c'" using assms(4) Some v True by (simp add: settle_verdict)
    with next_server_cases[OF assms(1-3), of x] r reset step_of_inv[OF assms(2)] show ?thesis
      by (auto simp: resetBeforeNextConnect_def split: if_splits intro!: moves_step[where new = "[]"])
  next
    case False
    with assms(4) Some v have "client_disconnectInternal C x False c = Some c'" by (simp add: settle_verdict)
    from moves_disconnect[OF assms(1,2) _ _ this] st r show ?thesis by blast
  qed
qed

lemma moves_Update:
  assumes "crypto_ok C" and "cl_inv c" and "client_Update C t waiting c = Some c'"
  shows "moves c c'"
proof (cases "cl_loopback c")
  case True
  with assms(3) show ?thesis by (auto simp: client_Update_def intro!: moves_quiet[where new = "[]"])
next
  case False
  let ?c0 = "c\<lparr>cl_time := t\<rparr>"
  have inv0: "cl_inv ?c0" using assms(2) by (simp add: cl_inv_defs)
  obtain c1 c2 where c: "client_receivePackets C waiting ?c0 = Some c1" "client_sendPackets C c1 = Some c2"
    "client_settle C c2 = Some c'"
    using assms(3) False by (auto simp: client_Update_def split: bind_splits)
  have inv1: "cl_inv c1" "\<not> cl_loopback c1"
    using client_receivePackets_ok[OF assms(1) inv0, of waiting] client_Update_receives[OF assms(3)] c(1) False by auto
  have inv2: "cl_inv c2" "\<not> cl_loopback c2"
    using client_sendPackets_ok[OF assms(1) inv1] c(2) by auto
  have "moves ?c0 c1"
    using c(1) moves_waiting[OF assms(1)] by (auto simp: client_receivePackets_def split: if_splits)
  also have "moves c1 c2" by (rule moves_sendPackets[OF assms(1) inv1 c(2)])
  also have "moves c2 c'" by (rule moves_settle[OF assms(1) inv2 c(3)])
  finally show ?thesis by (simp add: moves_def)
qed

lemma moves_Connect:
  assumes "crypto_ok C" and "cl_inv c" and "Connect C d c = Some c'"
  shows "moves c c'"
proof -
  obtain c1 err t where c1: "client_Disconnect C c = Some c1" "connectToken_read (cl_connectToken c1) d = Some (err, t)"
    using assms(3) by (auto simp: Connect_def split: bind_splits)
  have "moves c c1" by (rule moves_disconnect[OF assms(1,2) _ _ c1(1)[unfolded client_Disconnect_def]]) (simp_all add: step_of_inv[OF assms(2)])
  moreover have "cl_state c1 \<le> 0" using disconnectInternal_ok[OF assms(1,2), of 0 True] c1(1) by (auto simp: client_Disconnect_def)
  then have "moves c1 c'"
    using assms(3) c1 by (cases "err = None")
      (auto simp: Connect_def Let_def resetBeforeNextConnect_def intro!: moves_step[where new = "[]"])
  ultimately show ?thesis by (rule moves_trans)
qed

lemma moves_SendPacket:
  assumes "crypto_ok C" and "cl_inv c" and "client_SendPacket C d c = Some c'"
  shows "moves c c'"
proof (cases "0 < length d \<and> length d \<le> 1200 \<and> cl_state c = 3 \<and> \<not> cl_loopback c")
  case True
  then have "sendable (ConnectionPayload d)" "length (writePacketKey c) = 32"
    using assms(2) by (cases d; simp add: sendable_def cl_inv_def)+
  from send_exact[OF assms(1) this] assms(3) True have "c' = sent C (ConnectionPayload d) c"
    by (simp add: client_SendPacket_def sent_def)
  then show ?thesis
    by (intro moves_quiet[where new = "cl_out c (wire C (ConnectionPayload d) (cl_sequence c) (writePacketKey c)
      (ct_protocolID (cl_connectToken c)))"]) simp_all
next
  case False
  with assms(3) show ?thesis
    by (auto simp: client_SendPacket_def state_changes_def List.map_filter_def split: if_splits
        intro!: moves_quiet[where new = "[LoopbackPacketEvent (cl_clientIndex c) d (cl_sequence c)]"])
qed

lemma moves_Close:
  assumes "crypto_ok C" and "cl_inv c" and "client_Close C c = Some c'"
  shows "moves c c'"
proof -
  obtain c1 where c1: "(if \<not> cl_loopback c then client_Disconnect C c else Some (DisconnectLoopback c)) = Some c1"
    "c' = c1\<lparr>cl_socketIPv4 := socket_destroy (cl_socketIPv4 c1), cl_socketIPv6 := socket_destroy (cl_socketIPv6 c1),
      packetReceiveQueue := packetQueue_clear (packetReceiveQueue c1)\<rparr>"
    using assms(3) by (auto simp: client_Close_def Let_def split: bind_splits)
  have "moves c c1"
  proof (cases "cl_loopback c")
    case True
    then have "cl_state c = 3" using assms(2) by (simp add: cl_inv_def)
    with True c1(1) moves_reset[of c 0 "[]"] show ?thesis by (auto simp: DisconnectLoopback_def)
  next
    case False
    then have "client_disconnectInternal C 0 True c = Some c1" using c1(1) by (simp add: client_Disconnect_def)
    from moves_disconnect[OF assms(1,2) _ _ this] step_of_inv[OF assms(2)] show ?thesis by simp
  qed
  also have "moves c1 c'" by (simp add: c1(2) moves_def)
  finally show ?thesis .
qed

text \<open>The two calls that switch loopback mode on and off, which are outside the state machine.\<close>

fun loopback_switch :: "cl_op \<Rightarrow> bool" where
  "loopback_switch (ClientConnectLoopback _ _) \<longleftrightarrow> True"
| "loopback_switch ClientDisconnectLoopback \<longleftrightarrow> True"
| "loopback_switch _ \<longleftrightarrow> False"

lemma moves_exec:
  assumes "crypto_ok C" and "cl_inv c" and "cl_exec C op c = Some c'"
    and "\<not> loopback_switch op"
  shows "moves c c'"
proof -
  note inv = assms(2)
  show ?thesis
  proof (cases op)
    case (ClientConnect d)
    with assms(3) moves_Connect[OF assms(1) inv] show ?thesis by simp
  next
    case (ClientUpdate t waiting)
    with assms(3) moves_Update[OF assms(1) inv] show ?thesis by simp
  next
    case (ClientProcessPacket ts a d)
    with assms(3) moves_ProcessPacket[OF assms(1)] show ?thesis by simp
  next
    case (ClientSendPacket d)
    with assms(3) moves_SendPacket[OF assms(1) inv] show ?thesis by simp
  next
    case ClientReceivePacket
    with assms(3) show ?thesis
      by (auto simp: client_ReceivePacket_def Let_def split: prod.splits if_splits intro!: moves_quiet[where new = "[]"])
  next
    case ClientDisconnect
    with assms(3) have "client_disconnectInternal C 0 True c = Some c'" by (simp add: client_Disconnect_def)
    from moves_disconnect[OF assms(1) inv _ _ this] step_of_inv[OF inv] show ?thesis by simp
  next
    case (ClientProcessLoopbackPacket d q)
    with assms(3) show ?thesis
      by (auto simp: client_ProcessLoopbackPacket_def intro!: moves_quiet[where new = "[]"])
  next
    case ClientClose
    with assms(3) moves_Close[OF assms(1) inv] show ?thesis by simp
  qed (use assms(4) in simp_all)
qed

subsection \<open>Properties\<close>

text \<open>
  C16: the client follows its state machine. With a state change callback, every sequence of calls but
  the two loopback switches reports a list of state changes that starts in the state before it, ends
  in the state after it, and takes only steps of the standard - connecting, a rejected token, the
  challenge, acceptance, the next server, denial, expiry, the three timeouts and disconnecting - or one
  of the three steps it does not have: giving up while connecting, and leaving an established
  connection for the next server or for the denied state.
\<close>

theorem client_state_machine:
  assumes "crypto_ok C" and "cl_reachable C c" and "cc_StateChangeCallback (cl_config c)"
    and "run (cl_exec C) ops c = Some c'" and "\<forall>op \<in> set ops. \<not> loopback_switch op"
  shows "\<exists>new. cl_events c' = cl_events c @ new \<and> path (cl_state c) (state_changes new) (cl_state c')"
proof -
  have ops: "list_all (\<lambda>op. crypto_ok C \<and> \<not> loopback_switch op) ops" using assms(1,5) by (simp add: list_all_iff)
  have "moves c c'"
    by (rule client.run_keeps[where P = "moves c", OF client.reach_inv[OF assms(2)] ops assms(4) moves_refl])
      (blast intro: moves_trans moves_exec)
  with assms(3) show ?thesis by (auto simp: moves_def)
qed

theorem client_state_machine_witness:
  "\<exists>c' new. run (cl_exec checksum_crypto)
      [ClientProcessPacket 0 sample_address (sealed_packet checksum_crypto (ConnectionChallenge 5 (replicate 300 1)) 8 (replicate 32 0) 9),
       ClientProcessPacket 0 sample_address (sealed_packet checksum_crypto (ConnectionKeepAlive 3 16) 0 (replicate 32 0) 9),
       ClientDisconnect] sample_connecting = Some c' \<and>
    cl_events c' = cl_events sample_connecting @ new \<and> path 1 (state_changes new) (cl_state c') \<and> cl_state c' = 0"
proof -
  obtain c' where c': "cl_exec checksum_crypto ClientDisconnect sample_connected = Some c'" "cl_state c' = 0"
    using disconnectInternal_eq[OF checksum_crypto_ok client.reach_inv[OF sample_connected_reachable], of 0 True]
    by (auto simp: client_Disconnect_def)
  then have "run (cl_exec checksum_crypto) [ClientProcessPacket 0 sample_address (sealed_packet checksum_crypto (ConnectionChallenge 5 (replicate 300 1)) 8 (replicate 32 0) 9),
       ClientProcessPacket 0 sample_address (sealed_packet checksum_crypto (ConnectionKeepAlive 3 16) 0 (replicate 32 0) 9),
       ClientDisconnect] sample_connecting = Some c'"
    using sample_packets by simp
  moreover have "cc_StateChangeCallback (cl_config sample_connecting)" by (simp add: sample_cl_config_def)
  ultimately show ?thesis
    using client_state_machine[OF checksum_crypto_ok sample_connecting_reachable, of _ c'] c'(2) by fastforce
qed

lemma settle_should_disconnect:
  assumes "crypto_ok C" and "cl_inv c" and "\<not> cl_loopback c" and "cl_state c = 3" and "shouldDisconnect c"
  shows "client_settle C c = Some (
    if serverAddressIndex c + 1 < ct_numServerAddresses (cl_connectToken c)
    then setState ClientStateSendingConnectionRequest (resetBeforeNextConnect (c\<lparr>serverAddressIndex := serverAddressIndex c + 1,
      serverAddress := ct_serverAddresses (cl_connectToken c) (nat (serverAddressIndex c + 1))\<rparr>))
    else resetConnectionData (shouldDisconnectState c) c)"
proof -
  have v: "verdict c = Some (shouldDisconnectState c, True)" using assms(4,5) by (simp add: verdict_def)
  with next_server_cases[OF assms(1-3), of "shouldDisconnectState c"] verdict_range[OF assms(2) v] show ?thesis
    by (simp add: settle_verdict)
qed

text \<open>An update whose packets have been processed: what is due is sent, then the verdict falls.\<close>

lemma Update_exact:
  assumes "crypto_ok C" and "\<not> cl_loopback c" and "cl_receives (cl_config c)"
    and "client_process_waiting C waiting (c\<lparr>cl_time := t\<rparr>) = Some c1" and "cl_inv (c\<lparr>cl_time := t\<rparr>)"
    and "length waiting \<le> 64"
  shows "client_Update C t waiting c = client_settle C (case due_packet c1 of None \<Rightarrow> c1 | Some p \<Rightarrow> sent C p c1)"
proof -
  have "client_receivePackets C waiting (c\<lparr>cl_time := t\<rparr>) = Some c1"
    using assms(3,4,6) by (auto simp: client_receivePackets_def cl_receives_def)
  moreover have "cl_inv c1" "\<not> cl_loopback c1"
    using client_process_waiting_ok[OF assms(1,5), of waiting] assms(2,4) by auto
  ultimately show ?thesis using assms(2) client_sendPackets_eq[OF assms(1), of c1] by (simp add: client_Update_def)
qed

lemma cl_inv_time [simp]: "cl_inv (c\<lparr>cl_time := t\<rparr>) = cl_inv c"
  by (simp add: cl_inv_defs)

lemma can_receive_time [simp]:
  "can_receive (c\<lparr>cl_time := t\<rparr>) = can_receive c" "can_receive (c\<lparr>cl_replayProtection := r\<rparr>) = can_receive c"
  "can_receive (client_processPacketInternal from p q c) = can_receive c"
  by (simp_all add: can_receive_def)

lemma cl_inv_sent_packet: "cl_inv c \<Longrightarrow> 0 < cl_state c \<Longrightarrow> cl_inv (sent C p c)"
  unfolding sent_def by (rule cl_inv_sent)

lemma cl_inv_settled_input:
  "cl_inv c \<Longrightarrow> 0 < cl_state c \<Longrightarrow> cl_inv (case due_packet c of None \<Rightarrow> c | Some p \<Rightarrow> sent C p c)"
  by (auto simp: cl_inv_sent_packet split: option.splits)

text \<open>
  C29: a connected client that receives a disconnect packet from its server does not become
  disconnected while its connect token names another server: it starts to connect to that server. The
  callback that receives packets is set where it is used.
\<close>

theorem disconnect_tries_next_server:
  assumes "crypto_ok C" and "cl_reachable C c" and "\<not> cl_loopback c" and "cl_state c = ClientStateConnected"
    and "can_receive c" and "Equal from (serverAddress c)" and "\<not> alreadyReceived (cl_replayProtection c) q"
    and "serverAddressIndex c + 1 < ct_numServerAddresses (cl_connectToken c)" and "cl_receives (cl_config c)"
  shows "\<exists>c'. client_Update C t [(from, sealed_packet C ConnectionDisconnect q (readPacketKey c) (ct_protocolID (cl_connectToken c)), now)] c = Some c' \<and>
    cl_state c' = ClientStateSendingConnectionRequest \<and> serverAddressIndex c' = serverAddressIndex c + 1 \<and>
    cl_connectToken c' = cl_connectToken c"
proof -
  have good: "cl_inv c" by (rule client.reach_inv[OF assms(2)])
  have keys: "hasPacketKeys c" "length (readPacketKey c) = 32" using good assms(3,4) by (auto simp: cl_inv_defs)
  let ?c0 = "c\<lparr>cl_time := t\<rparr>"
  define c1 where "c1 = client_processPacketInternal from ConnectionDisconnect q (?c0\<lparr>cl_replayProtection := advanceSequence (cl_replayProtection c) q\<rparr>)"
  have c1: "cl_state c1 = 3" "shouldDisconnect c1" "\<not> cl_loopback c1" "cl_connectToken c1 = cl_connectToken c"
    "serverAddressIndex c1 = serverAddressIndex c"
    using assms(3,4,6) by (simp_all add: c1_def client_processPacketInternal_def)
  have "client_ProcessPacket C now from (sealed_packet C ConnectionDisconnect q (readPacketKey c) (ct_protocolID (cl_connectToken c))) ?c0 = Some c1"
    using keys assms(7) by (subst client_takes[OF assms(1)]) (simp_all add: replay_blocks_def c1_def)
  then have u: "client_Update C t [(from, sealed_packet C ConnectionDisconnect q (readPacketKey c) (ct_protocolID (cl_connectToken c)), now)] c =
      client_settle C (case due_packet c1 of None \<Rightarrow> c1 | Some p \<Rightarrow> sent C p c1)" (is "_ = client_settle C ?c2")
    using assms(3,5,9) good by (intro Update_exact[OF assms(1)]) simp_all
  have "cl_inv c1" unfolding c1_def by (rule cl_inv_processInternal) (simp_all add: good)
  then have "cl_inv ?c2" using c1(1) by (intro cl_inv_settled_input) simp_all
  moreover have c2: "cl_state ?c2 = 3" "shouldDisconnect ?c2" "\<not> cl_loopback ?c2" "cl_connectToken ?c2 = cl_connectToken c"
    "serverAddressIndex ?c2 = serverAddressIndex c"
    using c1 by (simp_all split: option.splits)
  ultimately have "client_settle C ?c2 = Some (setState ClientStateSendingConnectionRequest (resetBeforeNextConnect (?c2\<lparr>serverAddressIndex := serverAddressIndex ?c2 + 1,
      serverAddress := ct_serverAddresses (cl_connectToken ?c2) (nat (serverAddressIndex ?c2 + 1))\<rparr>)))"
    using settle_should_disconnect[OF assms(1), of ?c2] assms(8) by simp
  with u c2 show ?thesis by (simp add: resetBeforeNextConnect_def)
qed

theorem disconnect_tries_next_server_witness:
  "\<exists>c'. client_Update checksum_crypto 1 [(sample_address, sealed_packet checksum_crypto ConnectionDisconnect 7 (replicate 32 0) 9, 0)] sample_connected = Some c' \<and>
    cl_state c' = ClientStateSendingConnectionRequest"
proof -
  have rc: "cl_receives (cl_config sample_connected)" by (simp add: cl_receives_def sample_cl_config_def)
  have r: "can_receive sample_connected" "\<not> alreadyReceived (cl_replayProtection sample_connected) 7"
    using sample_window
    by (auto simp: can_receive_def sample_cl_config_def sample_connected_def alreadyReceived_def advanceSequence_def replay_reset_def)
  from disconnect_tries_next_server[OF checksum_crypto_ok sample_connected_reachable _ _ r(1) _ r(2) _ rc, of sample_address 1 0]
  show ?thesis by auto
qed

text \<open>
  C30: a denial outlives an acceptance. When a client that is sending responses gets a denied packet and
  then a keep-alive packet from its server in one update, it becomes connected and reports it, and
  at the end of the same update drops the connection for the next server or the denied state. The
  callback that receives packets is set where it is used.
\<close>

theorem denial_drops_connection:
  assumes "crypto_ok C" and "cl_reachable C c" and "cl_state c = ClientStateSendingConnectionResponse"
    and "can_receive c" and "Equal from (serverAddress c)" and "\<not> alreadyReceived (cl_replayProtection c) q"
    and "cc_StateChangeCallback (cl_config c)" and "cl_receives (cl_config c)"
  shows "\<exists>c' sent_events x. client_Update C t
      [(from, sealed_packet C ConnectionDenied q0 (readPacketKey c) (ct_protocolID (cl_connectToken c)), now0),
       (from, sealed_packet C (ConnectionKeepAlive i n) q (readPacketKey c) (ct_protocolID (cl_connectToken c)), now)] c = Some c' \<and>
    x = (if serverAddressIndex c + 1 < ct_numServerAddresses (cl_connectToken c) then ClientStateSendingConnectionRequest
         else ClientStateConnectionDenied) \<and>
    cl_state c' = x \<and> cl_events c' = cl_events c @ sent_events \<and>
    state_changes sent_events = [(ClientStateSendingConnectionResponse, ClientStateConnected), (ClientStateConnected, x)]"
proof -
  have good: "cl_inv c" by (rule client.reach_inv[OF assms(2)])
  have keys: "hasPacketKeys c" "length (readPacketKey c) = 32" "\<not> cl_loopback c" using good assms(3) by (auto simp: cl_inv_defs)
  let ?c0 = "c\<lparr>cl_time := t\<rparr>"
  define ca where "ca = client_processPacketInternal from ConnectionDenied q0 ?c0"
  define c1 where "c1 = client_processPacketInternal from (ConnectionKeepAlive i n) q (ca\<lparr>cl_replayProtection := advanceSequence (cl_replayProtection c) q\<rparr>)"
  have ca: "ca = ?c0\<lparr>shouldDisconnect := True, shouldDisconnectState := -1, lastPacketReceiveTime := t\<rparr>"
    using assms(3,5) by (simp add: ca_def client_processPacketInternal_def)
  have c1: "cl_state c1 = 3" "shouldDisconnect c1" "shouldDisconnectState c1 = -1" "\<not> cl_loopback c1" "cl_connectToken c1 = cl_connectToken c"
    "serverAddressIndex c1 = serverAddressIndex c" "cl_config c1 = cl_config c" "cl_events c1 = cl_events c @ [StateChangeEvent 2 3]"
    using assms(3,5,7) keys(3) by (simp_all add: c1_def ca client_processPacketInternal_def)
  have p0: "client_ProcessPacket C now0 from (sealed_packet C ConnectionDenied q0 (readPacketKey c) (ct_protocolID (cl_connectToken c))) ?c0 = Some ca"
    using keys clientAllowed(1) by (subst client_takes[OF assms(1)]) (simp_all add: replay_blocks_def ca_def word_le_nat_alt)
  have p1: "client_ProcessPacket C now from (sealed_packet C (ConnectionKeepAlive i n) q (readPacketKey c) (ct_protocolID (cl_connectToken c))) ca = Some c1"
    using keys assms(6) by (subst client_takes[OF assms(1)]) (simp_all add: replay_blocks_def c1_def ca)
  define c2 where "c2 = (case due_packet c1 of None \<Rightarrow> c1 | Some p \<Rightarrow> sent C p c1)"
  have "can_receive ca" using assms(4) by (simp add: ca_def)
  then have u: "client_Update C t
      [(from, sealed_packet C ConnectionDenied q0 (readPacketKey c) (ct_protocolID (cl_connectToken c)), now0),
       (from, sealed_packet C (ConnectionKeepAlive i n) q (readPacketKey c) (ct_protocolID (cl_connectToken c)), now)] c = client_settle C c2"
    unfolding c2_def using assms(4,8) good keys(3) p0 p1 by (intro Update_exact[OF assms(1)]) simp_all
  have "cl_inv ca" unfolding ca_def by (rule cl_inv_processInternal) (simp_all add: good)
  then have "cl_inv c1" unfolding c1_def by (intro cl_inv_processInternal) simp_all
  then have "cl_inv c2" unfolding c2_def using c1(1) by (intro cl_inv_settled_input) simp_all
  moreover obtain new where c2: "cl_state c2 = 3" "shouldDisconnect c2" "shouldDisconnectState c2 = -1" "\<not> cl_loopback c2"
    "cl_connectToken c2 = cl_connectToken c" "serverAddressIndex c2 = serverAddressIndex c" "cl_config c2 = cl_config c"
    "cl_events c2 = cl_events c @ [StateChangeEvent 2 3] @ new" "state_changes new = []"
    using c1 by (cases "due_packet c1") (simp_all add: c2_def)
  ultimately show ?thesis
    using u settle_should_disconnect[OF assms(1), of c2] assms(7) by (auto simp: resetBeforeNextConnect_def)
qed

theorem denial_drops_connection_witness:
  "\<exists>c'. client_Update checksum_crypto 1
      [(sample_address, sealed_packet checksum_crypto ConnectionDenied 9 (replicate 32 0) 9, 0),
       (sample_address, sealed_packet checksum_crypto (ConnectionKeepAlive 3 16) 0 (replicate 32 0) 9, 0)] sample_responding = Some c' \<and>
    cl_state c' = ClientStateSendingConnectionRequest"
proof -
  have rc: "cl_receives (cl_config sample_responding)" by (simp add: cl_receives_def sample_cl_config_def)
  have r: "can_receive sample_responding" "cc_StateChangeCallback (cl_config sample_responding)"
    by (simp_all add: can_receive_def sample_cl_config_def)
  from denial_drops_connection[OF checksum_crypto_ok sample_responding_reachable _ r(1) _ _ r(2) rc, of sample_address 0 1 9 0 3 16 0]
  show ?thesis by auto
qed

end
