(* ===== verification/Client_Sequence.thy ===== *)
theory Client_Sequence
  imports Client_States
begin

text \<open>
  Sequence numbers and the list of servers: between one connect and the next no sequence number is
  used twice under a key, and a client that hears nothing tries every server of its connect token
  in order and then gives up.
\<close>

subsection \<open>Sequence numbers\<close>

text \<open>The wire forms of packets that are numbered one after the other.\<close>

fun numbered :: "crypto \<Rightarrow> u64 \<Rightarrow> byte list \<Rightarrow> u64 \<Rightarrow> packet list \<Rightarrow> byte list list" where
  "numbered C q key pid [] = []"
| "numbered C q key pid (p # ps) = wire C p q key pid # numbered C (q + 1) key pid ps"

lemma numbered_append:
  "numbered C q key pid (ps @ ps') = numbered C q key pid ps @ numbered C (q + of_nat (length ps)) key pid ps'"
  by (induction ps arbitrary: q) (simp_all add: ac_simps)

text \<open>A client that sends at most \<open>n\<close> packets under the key it holds.\<close>

definition talks :: "crypto \<Rightarrow> nat \<Rightarrow> Client \<Rightarrow> Client \<Rightarrow> bool" where
  "talks C n c c' \<longleftrightarrow> \<not> cl_loopback c' \<and> (\<exists>new ps. cl_events c' = cl_events c @ new \<and> list_all sendable ps \<and> length ps \<le> n \<and>
     subseq (map snd (sent_packets new)) (numbered C (cl_sequence c) (writePacketKey c) (ct_protocolID (cl_connectToken c)) ps) \<and>
     (cl_state c \<le> 0 \<longrightarrow> ps = []) \<and>
     (0 < cl_state c' \<longrightarrow> 0 < cl_state c \<and> writePacketKey c' = writePacketKey c \<and>
        ct_protocolID (cl_connectToken c') = ct_protocolID (cl_connectToken c) \<and>
        cl_sequence c' = cl_sequence c + of_nat (length ps)))"

lemma talksI:
  assumes "\<not> cl_loopback c'" and "cl_events c' = cl_events c @ new" and "list_all sendable ps"
    and "subseq (map snd (sent_packets new)) (numbered C (cl_sequence c) (writePacketKey c) (ct_protocolID (cl_connectToken c)) ps)"
    and "cl_state c \<le> 0 \<Longrightarrow> ps = []" and "length ps \<le> n"
    and "0 < cl_state c' \<Longrightarrow> 0 < cl_state c \<and> writePacketKey c' = writePacketKey c \<and>
        ct_protocolID (cl_connectToken c') = ct_protocolID (cl_connectToken c) \<and> cl_sequence c' = cl_sequence c + of_nat (length ps)"
  shows "talks C n c c'"
  using assms unfolding talks_def by blast

lemma talks_le: "talks C n c c' \<Longrightarrow> n \<le> m \<Longrightarrow> talks C m c c'"
  unfolding talks_def by (elim conjE exE, intro conjI exI, assumption+) (auto dest: order_trans)

lemma talks_refl: "\<not> cl_loopback c \<Longrightarrow> talks C 0 c c"
  by (rule talksI[of _ _ "[]" "[]"]) simp_all

lemma talks_trans:
  assumes "talks C m c c1" and "talks C n c1 c2"
  shows "talks C (m + n) c c2"
proof -
  obtain n1 p1 where 1: "cl_events c1 = cl_events c @ n1" "list_all sendable p1" "length p1 \<le> m"
    "subseq (map snd (sent_packets n1)) (numbered C (cl_sequence c) (writePacketKey c) (ct_protocolID (cl_connectToken c)) p1)"
    "cl_state c \<le> 0 \<longrightarrow> p1 = []"
    "0 < cl_state c1 \<longrightarrow> 0 < cl_state c \<and> writePacketKey c1 = writePacketKey c \<and>
      ct_protocolID (cl_connectToken c1) = ct_protocolID (cl_connectToken c) \<and> cl_sequence c1 = cl_sequence c + of_nat (length p1)"
    using assms(1) unfolding talks_def by blast
  obtain n2 p2 where 2: "\<not> cl_loopback c2" "cl_events c2 = cl_events c1 @ n2" "list_all sendable p2" "length p2 \<le> n"
    "subseq (map snd (sent_packets n2)) (numbered C (cl_sequence c1) (writePacketKey c1) (ct_protocolID (cl_connectToken c1)) p2)"
    "cl_state c1 \<le> 0 \<longrightarrow> p2 = []"
    "0 < cl_state c2 \<longrightarrow> 0 < cl_state c1 \<and> writePacketKey c2 = writePacketKey c1 \<and>
      ct_protocolID (cl_connectToken c2) = ct_protocolID (cl_connectToken c1) \<and> cl_sequence c2 = cl_sequence c1 + of_nat (length p2)"
    using assms(2) unfolding talks_def by blast
  have "numbered C (cl_sequence c1) (writePacketKey c1) (ct_protocolID (cl_connectToken c1)) p2 =
      numbered C (cl_sequence c + of_nat (length p1)) (writePacketKey c) (ct_protocolID (cl_connectToken c)) p2"
    using 1(6) 2(6) by (cases "0 < cl_state c1") auto
  with 1(4) 2(5) have "subseq (map snd (sent_packets (n1 @ n2)))
      (numbered C (cl_sequence c) (writePacketKey c) (ct_protocolID (cl_connectToken c)) (p1 @ p2))"
    by (simp add: numbered_append list_emb_append_mono)
  with 1 2 show ?thesis
    by (intro talksI[of _ _ "n1 @ n2" "p1 @ p2"]) auto
qed

text \<open>Operations that send nothing and stay connected, and resets.\<close>

lemma talks_quiet:
  assumes "cl_events c' = cl_events c @ new" and "sent_packets new = []" and "\<not> cl_loopback c'"
    and "0 < cl_state c' \<longrightarrow> 0 < cl_state c" and "writePacketKey c' = writePacketKey c" and "cl_connectToken c' = cl_connectToken c"
    and "cl_sequence c' = cl_sequence c"
  shows "talks C 0 c c'"
  by (rule talksI[OF assms(3,1), of "[]"]) (use assms in simp_all)

lemma sent_packets_state [simp]: "sent_packets [StateChangeEvent a b] = []"
  by (simp add: sent_packets_def List.map_filter_def)

lemma cl_out_one: "subseq (map snd (sent_packets (cl_out c d))) [d]"
  by (simp add: cl_out_def sendPacketToAddress_def sent_packets_def List.map_filter_def)

lemma talks_sent:
  assumes "sendable p" and "0 < cl_state c" and "\<not> cl_loopback c"
  shows "talks C 1 c (sent C p c)"
  by (rule talksI[of _ _ "cl_out c (wire C p (cl_sequence c) (writePacketKey c) (ct_protocolID (cl_connectToken c)))" "[p]"])
    (use assms cl_out_one in \<open>simp_all add: sent_def\<close>)

lemma disconnect_packets_numbered:
  "subseq (map snd (sent_packets (disconnect_packets C n c)))
    (numbered C (cl_sequence c) (writePacketKey c) (ct_protocolID (cl_connectToken c)) (replicate n ConnectionDisconnect))"
proof (induction n)
  case (Suc n)
  have "disconnect_packets C (Suc n) c = disconnect_packets C n c @
      cl_out c (wire C ConnectionDisconnect (cl_sequence c + of_nat n) (writePacketKey c) (ct_protocolID (cl_connectToken c)))"
    by (simp add: disconnect_packets_def)
  with Suc cl_out_one show ?case
    by (simp add: replicate_append_same[symmetric] numbered_append list_emb_append_mono)
qed (simp add: disconnect_packets_def)

lemma talks_reset:
  assumes "0 < cl_state c" and "x \<le> 0"
  shows "talks C (if b then n else 0) c (resetConnectionData x (c\<lparr>cl_events := cl_events c @ (if b then disconnect_packets C n c else [])\<rparr>))"
  by (rule talksI[of _ _ "(if b then disconnect_packets C n c else []) @
        (if cc_StateChangeCallback (cl_config c) then [StateChangeEvent (cl_state c) x] else [])"
      "if b then replicate n ConnectionDisconnect else []"])
    (use assms disconnect_packets_numbered in \<open>auto simp: list_all_iff\<close>)

lemma talks_disconnect:
  assumes "crypto_ok C" and "cl_inv c" and "\<not> cl_loopback c" and "x \<le> 0" and "client_disconnectInternal C x b c = Some c'"
  shows "talks C (if b then numDisconnectPackets else 0) c c'"
proof (cases "0 < cl_state c")
  case True
  with disconnectInternal_eq[OF assms(1,2) True assms(4), of b] talks_reset[OF True assms(4), of C b numDisconnectPackets] assms(3,5)
  show ?thesis by (cases b) simp_all
next
  case False
  with assms(3,5) talks_le[OF talks_refl] show ?thesis by (simp add: client_disconnectInternal_def)
qed

lemma talks_ProcessPacket:
  assumes "crypto_ok C" and "\<not> cl_loopback c" and "client_ProcessPacket C ts from d c = Some c'"
  shows "talks C 0 c c'"
proof (rule client_ProcessPacket_cases[OF assms(1), of ts "from" d c])
  fix r assume "client_ProcessPacket C ts from d c = Some (c\<lparr>cl_replayProtection := r\<rparr>)"
  with assms(2,3) show ?thesis by (auto intro!: talks_quiet[where new = "[]"])
next
  fix p q
  let ?c = "c\<lparr>cl_replayProtection := the (replay_mark (Some (cl_replayProtection c)) (packetType p) q)\<rparr>"
  assume "client_ProcessPacket C ts from d c = Some (client_processPacketInternal from p q ?c)"
  with assms(3) have c': "c' = client_processPacketInternal from p q ?c" by simp
  obtain new where new: "cl_events c' = cl_events c @ new" "sent_packets new = []"
  proof -
    obtain new where new: "cl_events c' = cl_events c @ new"
      using moves_processInternal[of ?c "from" p q] by (auto simp: moves_def c')
    have "sent_packets (cl_events c') = sent_packets (cl_events c)" by (simp add: c')
    with new show thesis by (intro that[of new]) simp_all
  qed
  have "0 < cl_state c' \<longrightarrow> 0 < cl_state c"
    using processInternal_moves[of "from" p q ?c] by (cases "cl_state c' = cl_state c") (auto simp: c')
  with new assms(2) show ?thesis by (intro talks_quiet) (simp_all add: c')
qed

lemma talks_waiting:
  assumes "crypto_ok C" and "\<not> cl_loopback c" and "client_process_waiting C waiting c = Some c'"
  shows "talks C 0 c c'"
  using assms
proof (induction C waiting c rule: client_process_waiting.induct)
  case (2 C a d now waiting c)
  show ?case
  proof (cases "can_receive c")
    case True
    then obtain c1 where c1: "client_ProcessPacket C now a d c = Some c1" "client_process_waiting C waiting c1 = Some c'"
      using 2(4) by (auto split: bind_splits)
    have "talks C 0 c c1" by (rule talks_ProcessPacket[OF 2(2,3) c1(1)])
    moreover from this have "talks C 0 c1 c'" using 2(1)[OF _ c1(1) 2(2) _ c1(2)] True by (simp add: talks_def)
    ultimately show ?thesis using talks_trans by fastforce
  qed (use 2(3,4) talks_refl in simp)
qed (simp add: talks_refl)

lemma due_sendable:
  "cl_inv c \<Longrightarrow> \<not> cl_loopback c \<Longrightarrow> due_packet c = Some p \<Longrightarrow> sendable p \<and> 0 < cl_state c"
  by (auto simp: due_packet_def sendable_def cl_inv_defs split: if_splits)

lemma talks_settle:
  assumes "crypto_ok C" and "cl_inv c" and "\<not> cl_loopback c" and "client_settle C c = Some c'"
  shows "talks C 0 c c'"
proof (cases "verdict c")
  case None
  with assms(3,4) talks_refl show ?thesis by (simp add: settle_verdict)
next
  case (Some v)
  obtain x retry where v: "v = (x, retry)" by (cases v)
  note r = verdict_range[OF assms(2) Some[unfolded v]]
  show ?thesis
  proof (cases retry)
    case True
    then have "next_server_or C x c = Some c'" using assms(4) Some v by (simp add: settle_verdict)
    with next_server_cases[OF assms(1-3), of x] r talks_reset[of c x C False 0] assms(3) show ?thesis
      by (auto simp: resetBeforeNextConnect_def split: if_splits
          intro!: talks_quiet[where new = "if cc_StateChangeCallback (cl_config c) then [StateChangeEvent (cl_state c) 1] else []"])
  next
    case False
    with assms(4) Some v have "client_disconnectInternal C x False c = Some c'" by (simp add: settle_verdict)
    from talks_disconnect[OF assms(1-3) _ this] r show ?thesis by simp
  qed
qed

lemma talks_Update:
  assumes "crypto_ok C" and "cl_inv c" and "\<not> cl_loopback c" and "client_Update C t waiting c = Some c'"
  shows "talks C 1 c c'"
proof -
  let ?c0 = "c\<lparr>cl_time := t\<rparr>"
  obtain c1 c2 where c: "client_receivePackets C waiting ?c0 = Some c1" "client_sendPackets C c1 = Some c2" "client_settle C c2 = Some c'"
    using assms(3,4) by (auto simp: client_Update_def split: bind_splits)
  have inv1: "cl_inv c1" "\<not> cl_loopback c1"
    using client_receivePackets_ok[OF assms(1), of ?c0 waiting] client_Update_receives[OF assms(4)] assms(2,3) c(1) by auto
  have inv2: "cl_inv c2" "\<not> cl_loopback c2" using client_sendPackets_ok[OF assms(1) inv1] c(2) by auto
  have "talks C 0 c ?c0" using assms(3) by (intro talks_quiet[where new = "[]"]) simp_all
  moreover have "talks C 0 ?c0 c1"
    using c(1) talks_waiting[OF assms(1), of ?c0] assms(3) by (auto simp: client_receivePackets_def split: if_splits)
  moreover have "talks C 1 c1 c2"
    using client_sendPackets_eq[OF assms(1) inv1] c(2) talks_le[OF talks_refl[OF inv1(2)]] talks_sent[of _ c1 C] due_sendable[OF inv1] inv1(2)
    by (cases "due_packet c1") auto
  moreover have "talks C 0 c2 c'" by (rule talks_settle[OF assms(1) inv2 c(3)])
  ultimately have "talks C (0 + 0 + 1 + 0) c c'" by (intro talks_trans)
  then show ?thesis by simp
qed

lemma talks_SendPacket:
  assumes "crypto_ok C" and "cl_inv c" and "\<not> cl_loopback c" and "client_SendPacket C d c = Some c'"
  shows "talks C 1 c c'"
proof (cases "0 < length d \<and> length d \<le> 1200 \<and> cl_state c = 3")
  case True
  then have p: "sendable (ConnectionPayload d)" "length (writePacketKey c) = 32"
    using assms(2) by (cases d; simp add: sendable_def cl_inv_def)+
  from send_exact[OF assms(1) p] assms(3,4) True have "c' = sent C (ConnectionPayload d) c"
    by (simp add: client_SendPacket_def sent_def)
  with talks_sent[OF p(1) _ assms(3)] True show ?thesis by simp
next
  case False
  with assms(3,4) talks_le[OF talks_refl] show ?thesis by (auto simp: client_SendPacket_def split: if_splits)
qed

fun op_connects :: "cl_op \<Rightarrow> bool" where
  "op_connects (ClientConnect _) \<longleftrightarrow> True"
| "op_connects (ClientConnectLoopback _ _) \<longleftrightarrow> True"
| "op_connects _ \<longleftrightarrow> False"

lemma talks_exec:
  assumes "crypto_ok C" and "cl_inv c" and "\<not> cl_loopback c" and "\<not> op_connects op" and "cl_exec C op c = Some c'"
  shows "talks C 10 c c'"
proof -
  note inv = assms(2)
  show ?thesis
  proof (cases op)
    case (ClientUpdate t waiting)
    with assms(5) talks_le[OF talks_Update[OF assms(1) inv assms(3)]] show ?thesis by simp
  next
    case (ClientProcessPacket ts a d)
    with assms(5) talks_le[OF talks_ProcessPacket[OF assms(1,3)]] show ?thesis by simp
  next
    case (ClientSendPacket d)
    with assms(5) talks_le[OF talks_SendPacket[OF assms(1) inv assms(3)]] show ?thesis by simp
  next
    case ClientReceivePacket
    with assms(3,5) show ?thesis
      by (auto simp: client_ReceivePacket_def Let_def split: prod.splits if_splits intro!: talks_le[OF talks_quiet[where new = "[]"]])
  next
    case ClientDisconnect
    with assms(5) have "client_disconnectInternal C 0 True c = Some c'" by (simp add: client_Disconnect_def)
    with talks_disconnect[OF assms(1) inv assms(3), of 0 True c'] show ?thesis by simp
  next
    case ClientDisconnectLoopback
    with assms(5) have "c' = resetConnectionData 0 c" by (simp add: DisconnectLoopback_def)
    then show ?thesis
      by (intro talksI[of _ _ "if cc_StateChangeCallback (cl_config c) then [StateChangeEvent (cl_state c) 0] else []" "[]"]) simp_all
  next
    case (ClientProcessLoopbackPacket d q)
    with assms(3,5) talks_le[OF talks_refl] show ?thesis by (simp add: client_ProcessLoopbackPacket_def)
  next
    case ClientClose
    with assms(3,5) obtain c1 where c1: "client_disconnectInternal C 0 True c = Some c1"
      "c' = c1\<lparr>cl_socketIPv4 := socket_destroy (cl_socketIPv4 c1), cl_socketIPv6 := socket_destroy (cl_socketIPv6 c1),
        packetReceiveQueue := packetQueue_clear (packetReceiveQueue c1)\<rparr>"
      by (auto simp: client_Close_def client_Disconnect_def Let_def split: bind_splits)
    have "talks C 10 c c1" using talks_disconnect[OF assms(1) inv assms(3) _ c1(1)] by simp
    then show ?thesis by (simp add: c1(2) talks_def)
  qed (use assms(4) in simp_all)
qed

lemma talks_run:
  assumes "crypto_ok C" and "cl_inv c" and "\<not> cl_loopback c" and "list_all (\<lambda>op. \<not> op_connects op) ops"
    and "run (cl_exec C) ops c = Some c'"
  shows "talks C (10 * length ops) c c'"
  using assms(2-5)
proof (induction ops arbitrary: c)
  case Nil
  then show ?case using talks_refl by simp
next
  case (Cons op ops)
  then obtain c1 where c1: "cl_exec C op c = Some c1" "run (cl_exec C) ops c1 = Some c'" by (auto split: bind_splits)
  have "talks C 10 c c1" using talks_exec[OF assms(1) Cons.prems(1,2) _ c1(1)] Cons.prems(3) by simp
  moreover from this have "\<not> cl_loopback c1" by (simp add: talks_def)
  then have "talks C (10 * length ops) c1 c'"
    using Cons.IH[OF client.exec_keeps[OF Cons.prems(1) assms(1) c1(1)]] Cons.prems(3) c1(2) by simp
  ultimately have "talks C (10 + 10 * length ops) c c'" by (rule talks_trans)
  then show ?case by simp
qed

text \<open>Packets that are numbered one after the other without a wrap have increasing numbers.\<close>

lemma numbered_map:
  "numbered C q key pid ps = map (\<lambda>(p, n). wire C p n key pid) (zip ps (map (\<lambda>i. q + of_nat i) [0..<length ps]))"
proof (induction ps arbitrary: q)
  case (Cons p ps)
  have "map (\<lambda>i. q + of_nat i) [0..<length (p # ps)] = q # map (\<lambda>i. q + 1 + of_nat i) [0..<length ps]"
    by (simp add: upt_conv_Cons map_Suc_upt[symmetric] comp_def ac_simps del: upt_Suc)
  with Cons show ?case by (simp del: upt_Suc)
qed simp

lemma unat_plus_small: "unat q + n < 2 ^ 64 \<Longrightarrow> unat ((q :: u64) + of_nat n) = unat q + n"
  by (subst unat_add_lem[THEN iffD1]) (simp_all add: unat_of_nat)

lemma sorted_wrt_subseq: "subseq xs ys \<Longrightarrow> sorted_wrt P ys \<Longrightarrow> sorted_wrt P xs"
  by (induction rule: list_emb.induct) (auto dest: list_emb_set)

lemma numbered_pairs:
  assumes "subseq ds (numbered C q key pid ps)" and "list_all sendable ps" and "unat q + length ps < 2 ^ 64"
  shows "\<exists>pqs. ds = map (\<lambda>(p, n). wire C p n key pid) pqs \<and> sorted_wrt (<) (map (unat \<circ> snd) pqs) \<and>
    (\<forall>(p, n) \<in> set pqs. sendable p \<and> q \<le> n \<and> n < q + of_nat (length ps))"
proof -
  let ?z = "zip ps (map (\<lambda>i. q + of_nat i) [0..<length ps])"
  obtain N where N: "ds = map (\<lambda>(p, n). wire C p n key pid) (nths ?z N)"
    using assms(1) by (auto simp: numbered_map subseq_conv_nths nths_map)
  have num: "unat (q + of_nat i) = unat q + i" if "i \<le> length ps" for i
    using that assms(3) by (intro unat_plus_small) simp
  have "map (unat \<circ> snd) ?z = map (\<lambda>i. unat (q + of_nat i)) [0..<length ps]"
    by (rule nth_equalityI) simp_all
  also have "\<dots> = map (\<lambda>i. unat q + i) [0..<length ps]" using num by simp
  finally have z: "map (unat \<circ> snd) ?z = map (\<lambda>i. unat q + i) [0..<length ps]" .
  have "sorted_wrt (<) (map (unat \<circ> snd) (nths ?z N))"
  proof -
    have "sorted_wrt (<) (map (unat \<circ> snd) ?z)" unfolding z by (simp add: sorted_wrt_map sorted_wrt_upt)
    moreover have "subseq (map (unat \<circ> snd) (nths ?z N)) (map (unat \<circ> snd) ?z)"
      by (intro subseq_map) (auto simp: subseq_conv_nths)
    ultimately show ?thesis using sorted_wrt_subseq by blast
  qed
  moreover have "sendable p \<and> q \<le> n \<and> n < q + of_nat (length ps)" if pn: "(p, n) \<in> set (nths ?z N)" for p n
  proof -
    obtain i where i: "i < length ps" "p = ps ! i" "n = q + of_nat i"
      using in_set_nthsD[OF pn] by (auto simp: set_zip)
    then show ?thesis
      using assms(2) num[of i] num[of "length ps"] by (simp add: list_all_length word_le_nat_alt word_less_nat_alt)
  qed
  ultimately show ?thesis using N by blast
qed

text \<open>
  C17: no sequence number is used twice under a key. Take any run of calls on a client that does not
  start a new connection and is too short to exhaust the 64 bit counter, of which a call uses at most
  ten numbers. Each packet that goes out is written with a sequence number of its own: the numbers
  strictly increase, from the client's next sequence number on, and a client that is still connecting
  or connected continues above them. All packets are written under the one key the client holds,
  with the number as the nonce; connection requests are not encrypted under it, but use up a number
  like the others. Changing servers does not restart the numbering.
\<close>

theorem client_sequence_never_reused:
  assumes "crypto_ok C" and "cl_reachable C c" and "\<not> cl_loopback c" and "run (cl_exec C) ops c = Some c'"
    and "list_all (\<lambda>op. \<not> op_connects op) ops" and "unat (client_NextPacketSequence c) + 10 * length ops < 2 ^ 64"
  shows "\<exists>new pqs. cl_events c' = cl_events c @ new \<and>
    map snd (sent_packets new) = map (\<lambda>(p, q). wire C p q (writePacketKey c) (ct_protocolID (cl_connectToken c))) pqs \<and>
    sorted_wrt (<) (map (unat \<circ> snd) pqs) \<and>
    (\<forall>(p, q) \<in> set pqs. sendable p \<and> client_NextPacketSequence c \<le> q \<and>
       (cl_state c' > ClientStateDisconnected \<longrightarrow> q < client_NextPacketSequence c'))"
proof -
  have "talks C (10 * length ops) c c'"
    by (rule talks_run[OF assms(1) client.reach_inv[OF assms(2)] assms(3,5,4)])
  then obtain new ps where t: "cl_events c' = cl_events c @ new" "list_all sendable ps" "length ps \<le> 10 * length ops"
    "subseq (map snd (sent_packets new)) (numbered C (cl_sequence c) (writePacketKey c) (ct_protocolID (cl_connectToken c)) ps)"
    "0 < cl_state c' \<longrightarrow> cl_sequence c' = cl_sequence c + of_nat (length ps)"
    unfolding talks_def by blast
  have "unat (cl_sequence c) + length ps < 2 ^ 64" using t(3) assms(6) by (simp add: client_NextPacketSequence_def)
  from numbered_pairs[OF t(4,2) this] obtain pqs where
    "map snd (sent_packets new) = map (\<lambda>(p, q). wire C p q (writePacketKey c) (ct_protocolID (cl_connectToken c))) pqs"
    "sorted_wrt (<) (map (unat \<circ> snd) pqs)"
    "\<forall>(p, n) \<in> set pqs. sendable p \<and> cl_sequence c \<le> n \<and> n < cl_sequence c + of_nat (length ps)" by blast
  with t(1,5) show ?thesis by (intro exI[of _ new] exI[of _ pqs]) (auto simp: client_NextPacketSequence_def)
qed

theorem client_sequence_never_reused_witness:
  "\<exists>c' new pqs. run (cl_exec checksum_crypto) [ClientSendPacket [1, 2], ClientSendPacket [3]] sample_connected = Some c' \<and>
    cl_events c' = cl_events sample_connected @ new \<and> length (sent_packets new) = 2 \<and>
    map snd (sent_packets new) = map (\<lambda>(p, q). wire checksum_crypto p q (replicate 32 0) 9) pqs \<and>
    sorted_wrt (<) (map (unat \<circ> snd) pqs) \<and> (\<forall>(p, q) \<in> set pqs. q < 2)"
proof -
  let ?C = checksum_crypto and ?c1 = "sent checksum_crypto (ConnectionPayload [1, 2]) sample_connected"
  let ?c' = "sent checksum_crypto (ConnectionPayload [3]) ?c1"
  have ok: "sendable (ConnectionPayload [1, 2])" "sendable (ConnectionPayload [3])" by (simp_all add: sendable_def)
  have f: "cl_config ?c1 = sample_cl_config" "cl_sequence ?c1 = 1" "cl_sequence ?c' = 2" "cl_state ?c' = 3"
    by (simp_all add: sent_def)
  have "client_SendPacket ?C [1, 2] sample_connected = Some ?c1" "client_SendPacket ?C [3] ?c1 = Some ?c'"
    using send_exact[OF checksum_crypto_ok ok(1), of sample_connected] send_exact[OF checksum_crypto_ok ok(2), of ?c1]
    by (simp_all add: client_SendPacket_def sent_def)
  then have r: "run (cl_exec ?C) [ClientSendPacket [1, 2], ClientSendPacket [3]] sample_connected = Some ?c'" by simp
  have out: "length (sent_packets (cl_out c d)) = 1" if "cl_config c = sample_cl_config" for c d
    using that by (simp add: cl_out_def sendPacketToAddress_def sent_packets_def List.map_filter_def sample_cl_config_def)
  have two: "length (sent_packets new) = 2" if "cl_events ?c' = cl_events sample_connected @ new" for new
    using that out[of sample_connected] out[OF f(1)] by (auto simp: sent_def)
  from client_sequence_never_reused[OF checksum_crypto_ok sample_connected_reachable _ r] obtain new pqs where
    n: "cl_events ?c' = cl_events sample_connected @ new"
    "map snd (sent_packets new) = map (\<lambda>(p, q). wire ?C p q (replicate 32 0) 9) pqs" "sorted_wrt (<) (map (unat \<circ> snd) pqs)"
    "\<forall>(p, q) \<in> set pqs. sendable p \<and> q < cl_sequence ?c'"
    by (auto simp: client_NextPacketSequence_def f(4) simp del: sent_fields)
  have "\<forall>(p, q) \<in> set pqs. q < 2" using n(4) unfolding f(3) by auto
  with r two[OF n(1)] n(1-3) show ?thesis by blast
qed

section \<open>Trying the servers of a token in turn\<close>

text \<open>
  A client that hears nothing, as a search through the servers of its connect token: it is trying the
  server with an index since a time, or has given up because the token expired or the last request
  timed out.
\<close>

datatype search = Trying int float64 | Expired | TimedOut

abbreviation timeout_of :: "connectToken \<Rightarrow> float64" where
  "timeout_of token \<equiv> of_int (sint (ct_timeoutSeconds token))"

definition lifetime_of :: "connectToken \<Rightarrow> float64" where
  "lifetime_of token = of_nat (unat (ct_expireTimestamp token - ct_createTimestamp token))"

fun search_step :: "connectToken \<Rightarrow> search \<Rightarrow> float64 \<Rightarrow> search" where
  "search_step token (Trying i start) t =
     (if t - start \<ge> lifetime_of token then Expired
      else if 0 < timeout_of token \<and> start + timeout_of token < t
      then if i + 1 < ct_numServerAddresses token then Trying (i + 1) t else TimedOut
      else Trying i start)"
| "search_step token s t = s"

abbreviation search_run :: "connectToken \<Rightarrow> search \<Rightarrow> float64 list \<Rightarrow> search" where
  "search_run token \<equiv> foldl (search_step token)"

text \<open>What a state of the search says about the client.\<close>

fun tracks :: "connectToken \<Rightarrow> search \<Rightarrow> Client \<Rightarrow> bool" where
  "tracks token (Trying i start) c \<longleftrightarrow> cl_state c = ClientStateSendingConnectionRequest \<and> \<not> cl_loopback c \<and> \<not> shouldDisconnect c \<and>
     cl_connectToken c = token \<and> serverAddressIndex c = i \<and> serverAddress c = ct_serverAddresses token (nat i) \<and>
     connectStartTime c = start \<and> lastPacketReceiveTime c = start"
| "tracks token Expired c \<longleftrightarrow> cl_state c = ClientStateConnectTokenExpired \<and> \<not> cl_loopback c"
| "tracks token TimedOut c \<longleftrightarrow> cl_state c = ClientStateConnectionRequestTimedOut \<and> \<not> cl_loopback c"

lemma idle_update:
  assumes "crypto_ok C" and "cl_inv c" and "cl_receives (cl_config c)" and "\<not> cl_loopback c" and "cl_state c \<le> 0"
  shows "client_Update C t [] c = Some (c\<lparr>cl_time := t\<rparr>)"
proof -
  have "\<not> shouldDisconnect c" using assms(2,5) by (auto simp: cl_inv_def)
  then have "due_packet (c\<lparr>cl_time := t\<rparr>) = None" "verdict (c\<lparr>cl_time := t\<rparr>) = None"
    using assms(5) by (simp_all add: due_packet_def verdict_def)
  then show ?thesis
    using Update_exact[OF assms(1,4,3), of "[]" t "c\<lparr>cl_time := t\<rparr>"] assms(2) by (simp add: settle_verdict)
qed

lemma trying_update:
  assumes "crypto_ok C" and "cl_inv c" and "cl_receives (cl_config c)" and "tracks token (Trying i start) c"
  shows "\<exists>c'. client_Update C t [] c = Some c' \<and> tracks token (search_step token (Trying i start) t) c'"
proof -
  note a = assms(4)[unfolded tracks.simps]
  let ?c1 = "c\<lparr>cl_time := t\<rparr>"
  define c2 where "c2 = (case due_packet ?c1 of None \<Rightarrow> ?c1 | Some p \<Rightarrow> sent C p ?c1)"
  have u: "client_Update C t [] c = client_settle C c2"
    unfolding c2_def using a assms(2,3) by (intro Update_exact[OF assms(1)]) simp_all
  have inv2: "cl_inv c2" unfolding c2_def using a assms(2) by (intro cl_inv_settled_input) simp_all
  have f: "cl_state c2 = 1" "\<not> cl_loopback c2" "\<not> shouldDisconnect c2" "cl_time c2 = t" "cl_connectToken c2 = token"
    "connectStartTime c2 = start" "lastPacketReceiveTime c2 = start" "serverAddressIndex c2 = i"
    "serverAddress c2 = ct_serverAddresses token (nat i)"
    using a by (simp_all add: c2_def split: option.splits)
  have v: "verdict c2 = (if t - start \<ge> lifetime_of token then Some (ClientStateConnectTokenExpired, False)
      else if 0 < timeout_of token \<and> start + timeout_of token < t then Some (ClientStateConnectionRequestTimedOut, True) else None)"
    using f by (simp add: verdict_def client_timed_out_def token_lifetime_def lifetime_of_def del: of_int_sint)
  show ?thesis
    unfolding u settle_verdict v
    using next_server_cases[OF assms(1) inv2 f(2), of ClientStateConnectionRequestTimedOut]
      disconnectInternal_eq[OF assms(1) inv2, of ClientStateConnectTokenExpired False] f
    by (auto simp: resetBeforeNextConnect_def simp del: of_int_sint)
qed

lemma search_update:
  assumes "crypto_ok C" and "cl_inv c" and "cl_receives (cl_config c)" and "tracks token s c"
  shows "\<exists>c'. client_Update C t [] c = Some c' \<and> tracks token (search_step token s t) c'"
  using trying_update[OF assms(1-3), of token _ _ t] idle_update[OF assms(1-3), of t] assms(4) by (cases s) auto

lemma search_refined:
  assumes "crypto_ok C" and "cl_inv c" and "cl_receives (cl_config c)" and "tracks token s c"
  shows "\<exists>c'. run (cl_exec C) (map (\<lambda>t. ClientUpdate t []) readings) c = Some c' \<and> tracks token (search_run token s readings) c'"
  using assms(2-4)
proof (induction readings arbitrary: c s)
  case (Cons t ts)
  obtain c1 where c1: "client_Update C t [] c = Some c1" "tracks token (search_step token s t) c1"
    using search_update[OF assms(1) Cons.prems] by blast
  then have "cl_inv c1" "cl_receives (cl_config c1)"
    using client_Update_ok[OF assms(1) Cons.prems(1), of t "[]"] Cons.prems(2) by auto
  from Cons.IH[OF this c1(2)] c1(1) show ?case by simp
qed simp

text \<open>
  C31: what a client that hears nothing does is exactly a search through the servers of its token,
  for any readings of the clock at its updates. A server is left only at a reading more than the
  timeout after it was turned to, for the next server in the order of the token, and after the last
  one with the state for a timed out request; at a reading at least the lifetime of the token after
  the current server was turned to, the client gives up with the state for an expired token. A token
  without a positive timeout never times out.
\<close>

theorem unanswered_client_searches:
  assumes "crypto_ok C" and "cl_reachable C c" and "cl_receives (cl_config c)" and "tracks token s c"
  shows "\<exists>c'. run (cl_exec C) (map (\<lambda>t. ClientUpdate t []) readings) c = Some c' \<and> tracks token (search_run token s readings) c'"
  by (rule search_refined[OF assms(1) client.reach_inv[OF assms(2)] assms(3,4)])

theorem unanswered_client_searches_witness:
  "\<exists>c1 c2 c3. run (cl_exec checksum_crypto) [ClientUpdate 8 [], ClientUpdate 15 []] sample_connecting = Some c1 \<and>
    tracks sample_token2 (Trying 0 0) c1 \<and>
    run (cl_exec checksum_crypto) [ClientUpdate 8 [], ClientUpdate 16 []] sample_connecting = Some c2 \<and>
    tracks sample_token2 (Trying 1 16) c2 \<and>
    run (cl_exec checksum_crypto) [ClientUpdate 8 [], ClientUpdate 31 []] sample_connecting = Some c3 \<and> tracks sample_token2 Expired c3"
proof -
  have r: "cl_receives (cl_config sample_connecting)" by (simp add: cl_receives_def sample_cl_config_def)
  have t: "tracks sample_token2 (Trying 0 0) sample_connecting" by simp
  note w = unanswered_client_searches[OF checksum_crypto_ok sample_connecting_reachable r t]
  have "lifetime_of sample_token2 = 30" by (simp add: lifetime_of_def)
  then show ?thesis using w[of "[8, 15]"] w[of "[8, 16]"] w[of "[8, 31]"] by simp
qed

text \<open>Clock readings that do not go back and are at most \<open>gap\<close> apart, and the last of them.\<close>

fun regular :: "float64 \<Rightarrow> float64 \<Rightarrow> float64 list \<Rightarrow> bool" where
  "regular gap t [] \<longleftrightarrow> True"
| "regular gap t (u # us) \<longleftrightarrow> t \<le> u \<and> u - t \<le> gap \<and> regular gap u us"

lemma search_stays: "search_run token TimedOut us = TimedOut"
  by (induction us) simp_all

text \<open>A search at regular readings comes to its end, one server after the other.\<close>

lemma search_ends:
  assumes "0 < timeout_of token" and "0 \<le> gap" and "timeout_of token + gap < lifetime_of token"
    and "regular gap t us" and "start \<le> t" and "t \<le> start + timeout_of token" and "i < ct_numServerAddresses token"
    and "start + of_int (ct_numServerAddresses token - i) * (timeout_of token + gap) < last (t # us)"
  shows "search_run token (Trying i start) us = TimedOut \<and>
    (\<forall>j. i \<le> j \<and> j < ct_numServerAddresses token \<longrightarrow> (\<exists>k\<le>length us. \<exists>v. search_run token (Trying i start) (take k us) = Trying j v))"
  using assms(4-8)
proof (induction us arbitrary: t i start)
  case Nil
  have "1 * (timeout_of token + gap) \<le> of_int (ct_numServerAddresses token - i) * (timeout_of token + gap)"
    using Nil.prems(4) assms(1,2) by (intro mult_right_mono) (simp_all del: of_int_sint)
  with Nil.prems assms(2) have False by (simp del: of_int_sint of_int_diff)
  then show ?case ..
next
  case (Cons u us)
  let ?T = "timeout_of token" and ?n = "ct_numServerAddresses token"
  have u: "t \<le> u" "u - t \<le> gap" "regular gap u us" "last (u # us) = last (t # u # us)" using Cons.prems(1) by simp_all
  have alive: "\<not> u - start \<ge> lifetime_of token" using u Cons.prems(3) assms(3) by linarith
  have here: "\<exists>k\<le>length (u # us). \<exists>v. search_run token (Trying i start) (take k (u # us)) = Trying i v"
    by (intro exI[of _ 0]) simp
  show ?case
  proof (cases "start + ?T < u")
    case False
    then have st: "search_step token (Trying i start) u = Trying i start" using alive by (simp del: of_int_sint)
    have "start \<le> u" "u \<le> start + ?T" "start + of_int (?n - i) * (?T + gap) < last (u # us)"
      using False u Cons.prems(2,5) by (simp_all del: of_int_sint of_int_diff last.simps)
    from Cons.IH[OF u(3) this(1,2) Cons.prems(4) this(3)] st show ?thesis
      by (auto simp del: search_step.simps) (metis Suc_le_mono foldl_Cons take_Suc_Cons)
  next
    case late: True
    show ?thesis
    proof (cases "i + 1 < ?n")
      case False
      then have "search_step token (Trying i start) u = TimedOut" using alive late assms(1) by (simp del: of_int_sint)
      moreover have "j = i" if "i \<le> j" "j < ?n" for j using that False by linarith
      ultimately show ?thesis using here search_stays by (auto simp del: search_step.simps)
    next
      case True
      have st: "search_step token (Trying i start) u = Trying (i + 1) u" using alive late True assms(1) by (simp del: of_int_sint)
      have "of_int (?n - i) * (?T + gap) = of_int (?n - (i + 1)) * (?T + gap) + (?T + gap)"
        by (simp add: algebra_simps del: of_int_sint)
      moreover have "u \<le> start + (?T + gap)" using u Cons.prems(3) by linarith
      ultimately have b: "u + of_int (?n - (i + 1)) * (?T + gap) < last (u # us)"
        using Cons.prems(5) u(4) by linarith
      have "u \<le> u" "u \<le> u + ?T" using assms(1) by linarith+
      note ih = Cons.IH[OF u(3) this True b]
      have "\<exists>k\<le>length (u # us). \<exists>v. search_run token (Trying i start) (take k (u # us)) = Trying j v" if "i \<le> j" "j < ?n" for j
      proof (cases "j = i")
        case False
        then have "i + 1 \<le> j" using that by linarith
        with ih that obtain k v where "k \<le> length us" "search_run token (Trying (i + 1) u) (take k us) = Trying j v" by blast
        with st show ?thesis by (intro exI[of _ "Suc k"]) (simp del: search_step.simps)
      qed (use here in simp)
      with ih st show ?thesis by (simp del: search_step.simps)
    qed
  qed
qed

text \<open>
  C32: a client that hears nothing tries every server and then gives up. Let it be updated at clock
  readings at most some gap apart, such that the timeout of its token is positive and timeout and gap
  together stay below the lifetime of the token. Once the time since it turned to its current server
  exceeds timeout and gap for each of the servers left, it has been sending requests to every one of
  them and is in the state for a timed out request.
\<close>

theorem unanswered_client_tries_all:
  assumes "crypto_ok C" and "cl_reachable C c" and "cl_receives (cl_config c)" and "tracks token (Trying i (cl_time c)) c"
    and "0 < timeout_of token" and "0 \<le> gap" and "timeout_of token + gap < lifetime_of token" and "regular gap (cl_time c) readings"
    and "cl_time c + of_int (ct_numServerAddresses token - i) * (timeout_of token + gap) < last (cl_time c # readings)"
  shows "(\<forall>j. i \<le> j \<and> j < ct_numServerAddresses token \<longrightarrow>
      (\<exists>k\<le>length readings. \<exists>c'. run (cl_exec C) (map (\<lambda>t. ClientUpdate t []) (take k readings)) c = Some c' \<and>
        cl_state c' = ClientStateSendingConnectionRequest \<and> serverAddress c' = ct_serverAddresses token (nat j))) \<and>
    (\<exists>c'. run (cl_exec C) (map (\<lambda>t. ClientUpdate t []) readings) c = Some c' \<and>
      cl_state c' = ClientStateConnectionRequestTimedOut)"
proof -
  note inv = client.reach_inv[OF assms(2)]
  have i: "i < ct_numServerAddresses token" using inv assms(4) by (auto simp: cl_inv_defs)
  have "cl_time c \<le> cl_time c + timeout_of token" using assms(5) by linarith
  note e = search_ends[OF assms(5-8) order_refl this i assms(9)]
  note refined = search_refined[OF assms(1) inv assms(3,4)]
  have "\<exists>k\<le>length readings. \<exists>c'. run (cl_exec C) (map (\<lambda>t. ClientUpdate t []) (take k readings)) c = Some c' \<and>
      cl_state c' = ClientStateSendingConnectionRequest \<and> serverAddress c' = ct_serverAddresses token (nat j)"
    if "i \<le> j" "j < ct_numServerAddresses token" for j
  proof -
    obtain k v where k: "k \<le> length readings" "search_run token (Trying i (cl_time c)) (take k readings) = Trying j v"
      using e \<open>i \<le> j\<close> \<open>j < _\<close> by blast
    with refined[of "take k readings"] show ?thesis by (intro exI[of _ k]) auto
  qed
  moreover have "\<exists>c'. run (cl_exec C) (map (\<lambda>t. ClientUpdate t []) readings) c = Some c' \<and>
      cl_state c' = ClientStateConnectionRequestTimedOut"
    using refined[of readings] e by auto
  ultimately show ?thesis by blast
qed

text \<open>Two servers, a timeout of 15 seconds and an update every five seconds.\<close>

theorem unanswered_client_tries_all_witness:
  "\<exists>c1 c2. run (cl_exec checksum_crypto) (map (\<lambda>t. ClientUpdate t []) [5, 10, 15, 20, 25, 30, 35, 40, 45]) sample_connecting = Some c2 \<and>
    cl_state c2 = ClientStateConnectionRequestTimedOut \<and>
    (\<exists>k. run (cl_exec checksum_crypto) (map (\<lambda>t. ClientUpdate t []) (take k [5, 10, 15, 20, 25, 30, 35, 40, 45])) sample_connecting = Some c1) \<and>
    cl_state c1 = ClientStateSendingConnectionRequest \<and> serverAddress c1 = sample_server2"
proof -
  have r: "cl_receives (cl_config sample_connecting)" by (simp add: cl_receives_def sample_cl_config_def)
  have t: "tracks sample_token2 (Trying 0 (cl_time sample_connecting)) sample_connecting" by simp
  have l: "lifetime_of sample_token2 = 30" by (simp add: lifetime_of_def)
  note w = unanswered_client_tries_all[OF checksum_crypto_ok sample_connecting_reachable r t, where gap = 5 and readings = "[5, 10, 15, 20, 25, 30, 35, 40, 45]"]
  have "(\<forall>j. 0 \<le> j \<and> j < ct_numServerAddresses sample_token2 \<longrightarrow>
      (\<exists>k\<le>length [5::rat, 10, 15, 20, 25, 30, 35, 40, 45]. \<exists>c'. run (cl_exec checksum_crypto) (map (\<lambda>t. ClientUpdate t []) (take k [5, 10, 15, 20, 25, 30, 35, 40, 45])) sample_connecting = Some c' \<and>
        cl_state c' = ClientStateSendingConnectionRequest \<and> serverAddress c' = ct_serverAddresses sample_token2 (nat j))) \<and>
    (\<exists>c'. run (cl_exec checksum_crypto) (map (\<lambda>t. ClientUpdate t []) [5, 10, 15, 20, 25, 30, 35, 40, 45]) sample_connecting = Some c' \<and>
      cl_state c' = ClientStateConnectionRequestTimedOut)"
    by (rule w) (simp_all add: l)
  then show ?thesis by (elim conjE) (drule spec[of _ 1], auto)
qed

end
