(* ===== verification/Netip.thy ===== *)
theory Netip
  imports Address
begin

text \<open>
  The part of Go's \<^verbatim>\<open>net/netip\<close> and \<^verbatim>\<open>fmt\<close> that \<^verbatim>\<open>address.go\<close> uses: IP addresses, \<open>ParseAddr\<close>,
  \<open>Addr.String\<close>, \<open>As4\<close>, \<open>As16\<close>, \<open>Unmap\<close> and the \<^verbatim>\<open>%d\<close> verb. An IPv6 address is its eight groups and
  a zone. The main lemma is that an address is read back from the text it is printed as.
\<close>

datatype Addr = Addr4 "byte list" | Addr6 "u16 list" string

subsection \<open>Printing\<close>

definition digit_char :: "nat \<Rightarrow> char" where
  "digit_char d = ''0123456789abcdef'' ! d"

fun show_nat :: "nat \<Rightarrow> string" where
  "show_nat n = (if n < 10 then [digit_char n] else show_nat (n div 10) @ [digit_char (n mod 10)])"

declare show_nat.simps [simp del]

definition appendHex :: "u16 \<Rightarrow> string" where
  "appendHex x = (let n = unat x in
     (if n \<ge> 0x1000 then [digit_char (n div 0x1000)] else []) @
     (if n \<ge> 0x100 then [digit_char (n div 0x100 mod 16)] else []) @
     (if n \<ge> 0x10 then [digit_char (n div 0x10 mod 16)] else []) @
     [digit_char (n mod 16)])"

fun join :: "string \<Rightarrow> string list \<Rightarrow> string" where
  "join sep [] = []"
| "join sep [x] = x"
| "join sep (x # y # xs) = x @ sep @ join sep (y # xs)"

definition string4 :: "byte list \<Rightarrow> string" where
  "string4 b = join ''.'' (map (show_nat \<circ> unat) b)"

text \<open>The longest run of at least two zero groups, the first of the longest ones: its start and end.\<close>

definition zero_run :: "u16 list \<Rightarrow> (nat \<times> nat) option" where
  "zero_run g = fold (\<lambda>i best.
     let l = length (takeWhile (\<lambda>w. w = 0) (drop i g)) in
     if l \<ge> 2 \<and> (case best of None \<Rightarrow> True | Some (a, b) \<Rightarrow> l > b - a) then Some (i, i + l) else best) [0..<8] None"

definition string6 :: "u16 list \<Rightarrow> string" where
  "string6 g = (case zero_run g of
     None \<Rightarrow> join '':'' (map appendHex g)
   | Some (a, b) \<Rightarrow> join '':'' (map appendHex (take a g)) @ ''::'' @ join '':'' (map appendHex (drop b g)))"

definition group_bytes :: "u16 \<Rightarrow> byte list" where
  "group_bytes w = [ucast (drop_bit 8 w), ucast w]"

definition Is4In6 :: "u16 list \<Rightarrow> bool" where
  "Is4In6 g \<longleftrightarrow> take 6 g = [0, 0, 0, 0, 0, 0xffff]"

fun Addr_String :: "Addr \<Rightarrow> string" where
  "Addr_String (Addr4 b) = string4 b"
| "Addr_String (Addr6 g zone) =
     (if Is4In6 g then ''::ffff:'' @ string4 (concat (map group_bytes (drop 6 g))) else string6 g) @
     (if zone = [] then [] else ''%'' @ zone)"

subsection \<open>Parsing\<close>

text \<open>
  The four fields of an IPv4 address: the rest of the text, whether it starts a field, the value and
  the number of digits of the current field, the fields read so far.
\<close>

fun parse_fields :: "string \<Rightarrow> bool \<Rightarrow> nat \<Rightarrow> nat \<Rightarrow> byte list \<Rightarrow> byte list option" where
  "parse_fields [] start val digLen octets = (if length octets < 3 then None else Some (octets @ [of_nat val]))"
| "parse_fields (c # s) start val digLen octets =
     (if digit c then
        if digLen = 1 \<and> val = 0 then None
        else let val = val * 10 + (of_char c - 48) in
          if val > 255 then None else parse_fields s False val (digLen + 1) octets
      else if c = CHR ''.'' then
        if start \<or> s = [] then None
        else if length octets = 3 then None
        else parse_fields s True 0 0 (octets @ [of_nat val])
      else None)"

definition parseIPv4Fields :: "string \<Rightarrow> byte list option" where
  "parseIPv4Fields s = parse_fields s True 0 0 []"

definition hex_value :: "char \<Rightarrow> nat option" where
  "hex_value c = (let n = of_char c in
     if 48 \<le> n \<and> n \<le> 57 then Some (n - 48)
     else if 97 \<le> n \<and> n \<le> 102 then Some (n - 97 + 10)
     else if 65 \<le> n \<and> n \<le> 70 then Some (n - 65 + 10) else None)"

text \<open>A group of at most four hexadecimal digits: the number of digits, the value and what follows.\<close>

fun parse_hex :: "string \<Rightarrow> nat \<Rightarrow> nat \<Rightarrow> (nat \<times> nat \<times> string) option" where
  "parse_hex [] off acc = Some (off, acc, [])"
| "parse_hex (c # s) off acc =
     (case hex_value c of
        None \<Rightarrow> Some (off, acc, c # s)
      | Some v \<Rightarrow>
          if off > 3 then None
          else if acc * 16 + v > 0xFFFF then None
          else parse_hex s (off + 1) (acc * 16 + v))"

text \<open>
  The groups of an IPv6 address: how many more there is room for, the rest of the text, the groups
  read so far, the position of the ellipsis. The result is what was not used of the text as well.
\<close>

fun parse_groups :: "nat \<Rightarrow> string \<Rightarrow> u16 list \<Rightarrow> nat option \<Rightarrow> (u16 list \<times> nat option \<times> string) option" where
  "parse_groups 0 s groups ellipsis = Some (groups, ellipsis, s)"
| "parse_groups (Suc room) s groups ellipsis =
     (case parse_hex s 0 0 of
        None \<Rightarrow> None
      | Some (off, acc, rest) \<Rightarrow>
          if off = 0 then None
          else if rest \<noteq> [] \<and> hd rest = CHR ''.'' then
            if ellipsis = None \<and> length groups \<noteq> 6 then None
            else if room = 0 then None
            else (case parseIPv4Fields s of
                    Some [a, b, c, d] \<Rightarrow> Some (groups @ [word_cat a b, word_cat c d], ellipsis, [])
                  | _ \<Rightarrow> None)
          else
            let groups = groups @ [of_nat acc] in
            case rest of
              [] \<Rightarrow> Some (groups, ellipsis, [])
            | c # s \<Rightarrow>
                if c \<noteq> CHR '':'' \<or> s = [] then None
                else if hd s = CHR '':'' then
                  if ellipsis \<noteq> None then None
                  else if tl s = [] then Some (groups, Some (length groups), [])
                  else parse_groups room (tl s) groups (Some (length groups))
                else parse_groups room s groups ellipsis)"

definition expand :: "u16 list \<Rightarrow> nat option \<Rightarrow> u16 list option" where
  "expand groups ellipsis =
     (if length groups < 8
      then map_option (\<lambda>e. take e groups @ replicate (8 - length groups) 0 @ drop e groups) ellipsis
      else if ellipsis = None then Some groups else None)"

definition parseIPv6 :: "string \<Rightarrow> Addr option" where
  "parseIPv6 s = (let address = takeWhile (\<lambda>c. c \<noteq> CHR ''%'') s; rest = dropWhile (\<lambda>c. c \<noteq> CHR ''%'') s; zone = tl rest in
     if rest \<noteq> [] \<and> zone = [] then None
     else let leading = (take 2 address = ''::''); text = (if leading then drop 2 address else address) in
       if leading \<and> text = [] then Some (Addr6 (replicate 8 0) zone)
       else (case parse_groups 8 text [] (if leading then Some 0 else None) of
               Some (groups, ellipsis, []) \<Rightarrow> map_option (\<lambda>g. Addr6 g zone) (expand groups ellipsis)
             | _ \<Rightarrow> None))"

definition ParseAddr :: "string \<Rightarrow> Addr option" where
  "ParseAddr s = (case find (\<lambda>c. c = CHR ''.'' \<or> c = CHR '':'' \<or> c = CHR ''%'') s of
     Some c \<Rightarrow> if c = CHR ''.'' then map_option Addr4 (parseIPv4Fields s)
       else if c = CHR '':'' then parseIPv6 s else None
   | None \<Rightarrow> None)"

definition Is4 :: "Addr \<Rightarrow> bool" where "Is4 a \<longleftrightarrow> (case a of Addr4 _ \<Rightarrow> True | Addr6 _ _ \<Rightarrow> False)"

definition As4 :: "Addr \<Rightarrow> byte list" where
  "As4 a = (case a of Addr4 b \<Rightarrow> b | Addr6 g _ \<Rightarrow> concat (map group_bytes (drop 6 g)))"

definition As16 :: "Addr \<Rightarrow> byte list" where
  "As16 a = (case a of Addr4 b \<Rightarrow> replicate 10 0 @ [255, 255] @ b | Addr6 g _ \<Rightarrow> concat (map group_bytes g))"

definition Unmap :: "Addr \<Rightarrow> Addr" where
  "Unmap a = (case a of Addr4 _ \<Rightarrow> a | Addr6 g _ \<Rightarrow> if Is4In6 g then Addr4 (As4 a) else a)"


subsection \<open>Numbers are read back\<close>

lemma nat_lt_16: "d < (16 :: nat) \<Longrightarrow> d \<in> {0, 1, 2, 3, 4, 5, 6, 7, 8, 9, 10, 11, 12, 13, 14, 15}"
  by (simp add: numeral_eq_Suc less_Suc_eq)

lemma hex_value_digit [simp]: "d < 16 \<Longrightarrow> hex_value (digit_char d) = Some d"
  by (auto dest!: nat_lt_16 simp: hex_value_def digit_char_def)

lemma digit_digit_char [simp]: "d < 10 \<Longrightarrow> digit (digit_char d)"
  and of_char_digit_char [simp]: "d < 10 \<Longrightarrow> of_char (digit_char d) = 48 + d"
  using nat_lt_16[of d] by (auto simp: digit_def digit_char_def)

lemma hex_value_separators [simp]:
  "hex_value CHR '':'' = None" "hex_value CHR ''.'' = None" "hex_value CHR ''%'' = None" "hex_value CHR '']'' = None"
  "hex_value CHR ''['' = None"
  by (simp_all add: hex_value_def)

lemma digit_char_plain [simp]:
  "d < 16 \<Longrightarrow> digit_char d \<noteq> CHR '':''" "d < 16 \<Longrightarrow> digit_char d \<noteq> CHR ''.''" "d < 16 \<Longrightarrow> digit_char d \<noteq> CHR ''%''"
  "d < 16 \<Longrightarrow> digit_char d \<noteq> CHR '']''" "d < 16 \<Longrightarrow> digit_char d \<noteq> CHR ''[''"
  using hex_value_digit[of d] by (metis hex_value_separators option.distinct(1))+

lemma show_nat_nonempty [simp]: "show_nat n \<noteq> []"
  by (subst show_nat.simps) simp

lemma show_nat_digits: "list_all digit (show_nat n)"
  by (induction n rule: show_nat.induct) (subst show_nat.simps, simp)

lemma decimal_append [simp]: "decimal v (s @ t) = decimal (decimal v s) t"
  by (simp add: decimal_def)

lemma decimal_show_nat: "decimal 0 (show_nat n) = n"
  by (induction n rule: show_nat.induct) (subst show_nat.simps, simp)

lemma show_nat_small:
  "n < 10 \<Longrightarrow> show_nat n = [digit_char n]"
  "10 \<le> n \<Longrightarrow> n < 100 \<Longrightarrow> show_nat n = [digit_char (n div 10), digit_char (n mod 10)]"
  "100 \<le> n \<Longrightarrow> n < 1000 \<Longrightarrow> show_nat n = [digit_char (n div 100), digit_char (n div 10 mod 10), digit_char (n mod 10)]"
proof -
  assume n: "100 \<le> n" "n < 1000"
  have "\<not> n div 10 < 10" "n div 100 < 10" using n by (simp_all add: not_less less_eq_div_iff_mult_less_eq div_less_iff_less_mult)
  with n show "show_nat n = [digit_char (n div 100), digit_char (n div 10 mod 10), digit_char (n mod 10)]"
    by (simp add: show_nat.simps[of n] show_nat.simps[of "n div 10"] show_nat.simps[of "n div 100"] div_mult2_eq[symmetric])
qed (simp_all add: show_nat.simps[of n] show_nat.simps[of "n div 10"])

lemma length_show_nat:
  "n < 10 ^ k \<Longrightarrow> 0 < k \<Longrightarrow> length (show_nat n) \<le> k"
proof (induction k arbitrary: n)
  case (Suc k)
  show ?case
  proof (cases "n < 10")
    case False
    with Suc.prems have "0 < k" by (cases k) simp_all
    moreover have "n div 10 < 10 ^ k" using Suc.prems(1) by (simp add: div_less_iff_less_mult mult.commute)
    ultimately have "length (show_nat (n div 10)) \<le> k" using Suc.IH by simp
    with False show ?thesis by (simp add: show_nat.simps[of n])
  qed (simp add: show_nat.simps[of n])
qed simp

lemma parse_hex_append:
  assumes "rest = [] \<or> hex_value (hd rest) = None"
  shows "parse_hex (appendHex x @ rest) 0 0 = Some (length (appendHex x), unat x, rest)"
proof -
  have stop: "parse_hex rest off acc = Some (off, acc, rest)" for off acc
    using assms by (cases rest) simp_all
  define n where "n = unat x"
  have n: "n < 65536" using unsigned_less[of x] by (simp add: n_def)
  have d: "n div 4096 * 16 + n div 256 mod 16 = n div 256" "n div 256 * 16 + n div 16 mod 16 = n div 16" "n div 16 * 16 + n mod 16 = n"
    using div_mult_mod_eq[of "n div 256" 16] div_mult_mod_eq[of "n div 16" 16] by (simp_all flip: div_mult2_eq)
  have le: "n div 4096 < 16" "\<not> 65535 < n div 4096" "\<not> 65535 < n div 256" "\<not> 65535 < n div 16" "\<not> 65535 < n"
    using n by (simp_all add: div_less_iff_less_mult not_less)
  consider "4096 \<le> n" | "256 \<le> n" "n < 4096" | "16 \<le> n" "n < 256" | "n < 16" by linarith
  then show ?thesis
  proof cases
    case 1
    with d le show ?thesis by (simp add: appendHex_def Let_def stop flip: n_def)
  next
    case 2
    then have "n div 256 < 16" by (simp add: div_less_iff_less_mult)
    with 2 d le show ?thesis by (simp add: appendHex_def Let_def stop flip: n_def)
  next
    case 3
    then have "n div 16 < 16" by (simp add: div_less_iff_less_mult)
    with 3 d le show ?thesis by (simp add: appendHex_def Let_def stop flip: n_def)
  qed (use le in \<open>simp add: appendHex_def Let_def stop flip: n_def\<close>)
qed

lemma digit_charI: "d < 16 \<Longrightarrow> \<exists>d'<16. digit_char d = digit_char d'"
  by blast

lemma appendHex_digits: "\<forall>c \<in> set (appendHex x). \<exists>d<16. c = digit_char d"
proof -
  have "unat x < 65536" using unsigned_less[of x] by simp
  then have "unat x div 4096 < 16" by (simp add: div_less_iff_less_mult)
  then show ?thesis by (auto simp: appendHex_def Let_def div_less_iff_less_mult intro!: digit_charI)
qed

lemma length_appendHex: "length (appendHex x) \<le> 4" "0 < length (appendHex x)"
  by (simp_all add: appendHex_def Let_def)

lemma appendHex_first: "\<exists>d s. d < 16 \<and> appendHex x = digit_char d # s"
  using appendHex_digits[of x] length_appendHex(2)[of x] by (cases "appendHex x") auto


subsection \<open>Addresses are read back\<close>

lemma parse_fields_number:
  assumes "n < 256"
  shows "parse_fields (show_nat n @ rest) start 0 0 octets = parse_fields rest False n (length (show_nat n)) octets"
proof -
  consider "n < 10" | "10 \<le> n" "n < 100" | "100 \<le> n" by linarith
  then show ?thesis
  proof cases
    case 1
    then show ?thesis by (simp add: show_nat_small)
  next
    case 2
    then have "n div 10 \<noteq> 0" "n div 10 < 10" "n div 10 * 10 + n mod 10 = n" "\<not> 255 < n div 10" by (simp_all add: div_less_iff_less_mult div_greater_zero_iff)
    with 2 show ?thesis by (simp add: show_nat_small Let_def)
  next
    case 3
    with assms have "n div 100 \<noteq> 0" "n div 100 < 10" "n div 100 * 10 + n div 10 mod 10 = n div 10" "n div 10 * 10 + n mod 10 = n"
      "n div 10 \<le> 255" "n div 100 \<le> 255"
      using div_mult_mod_eq[of "n div 10" 10] by (simp_all add: div_less_iff_less_mult div_greater_zero_iff flip: div_mult2_eq)
    with 3 assms show ?thesis by (simp add: show_nat_small Let_def)
  qed
qed

lemma not_digit_dot [simp]:
  "\<not> digit CHR ''.''" "\<not> digit CHR '':''" "\<not> digit CHR ''%''" "\<not> digit CHR '']''" "\<not> digit CHR ''[''"
  by (simp_all add: digit_def)

lemma parse_fields_string4:
  assumes "length b = 4"
  shows "parseIPv4Fields (string4 b) = Some b"
proof -
  obtain w x y z where b: "b = [w, x, y, z]" using assms by (auto simp: numeral_eq_Suc length_Suc_conv)
  have lt: "unat v < 256" for v :: byte using unsigned_less[of v] by simp
  show ?thesis
    by (simp add: b string4_def parseIPv4Fields_def parse_fields_number[OF lt] parse_fields_number[OF lt, where rest = "[]", simplified])
qed

lemma join_Cons: "join sep (x # xs) = x @ (if xs = [] then [] else sep @ join sep xs)"
  by (cases xs) simp_all

definition hexes :: "u16 list \<Rightarrow> string" where "hexes g = join '':'' (map appendHex g)"

lemma hexes_Cons: "hexes (w # g) = appendHex w @ (if g = [] then [] else CHR '':'' # hexes g)"
  by (simp add: hexes_def join_Cons)

lemma hexes_Nil [simp]: "hexes [] = []"
  by (simp add: hexes_def)

lemma hexes_first: "g \<noteq> [] \<Longrightarrow> \<exists>d s. d < 16 \<and> hexes g = digit_char d # s"
  using appendHex_first[of "hd g"] by (cases g) (auto simp: hexes_Cons)

lemma hexes_nonempty [simp]: "hexes g = [] \<longleftrightarrow> g = []"
  using hexes_first by (cases "g = []") fastforce+

lemma hd_hexes: "g \<noteq> [] \<Longrightarrow> hd (hexes g @ s) \<noteq> CHR '':''"
  using hexes_first[of g] by auto

lemma of_nat_unat16: "(of_nat (unat (w :: u16)) :: u16) = w"
  by simp

text \<open>The three ways a row of groups ends: with the text, with an ellipsis, with an IPv4 address.\<close>

lemma parse_groups_step:
  assumes "rest = [] \<or> (\<exists>s. rest = CHR '':'' # s)"
  shows "parse_groups (Suc room) (appendHex w @ rest) groups e =
    (case rest of
       [] \<Rightarrow> Some (groups @ [w], e, [])
     | c # s \<Rightarrow>
         if s = [] then None
         else if hd s = CHR '':'' then
           if e \<noteq> None then None
           else if tl s = [] then Some (groups @ [w], Some (length groups + 1), [])
           else parse_groups room (tl s) (groups @ [w]) (Some (length groups + 1))
         else parse_groups room s (groups @ [w]) e)"
  using assms length_appendHex(2)[of w] parse_hex_append[of "[]" w] parse_hex_append[of rest w]
  by (cases rest) auto

lemma parse_groups_hexes:
  assumes "g \<noteq> []" and "length g \<le> room"
  shows "parse_groups room (hexes g) groups e = Some (groups @ g, e, [])"
  using assms
proof (induction g arbitrary: room groups)
  case (Cons w g)
  then obtain r where r: "room = Suc r" "length g \<le> r" by (cases room) auto
  show ?case
  proof (cases "g = []")
    case True
    then show ?thesis using parse_groups_step[of "[]" r w groups e] by (simp add: r(1) hexes_Cons)
  next
    case False
    with parse_groups_step[of "CHR '':'' # hexes g" r w groups e] Cons.IH[OF False r(2)] hd_hexes[OF False, of "[]"] show ?thesis
      by (simp add: r(1) hexes_Cons)
  qed
qed simp

lemma parse_groups_ellipsis:
  assumes "g \<noteq> []" and "length g + length h \<le> room"
  shows "parse_groups room (hexes g @ ''::'' @ hexes h) groups None = Some (groups @ g @ h, Some (length groups + length g), [])"
  using assms
proof (induction g arbitrary: room groups)
  case (Cons w g)
  then obtain r where r: "room = Suc r" "length g + length h \<le> r" by (cases room) auto
  show ?case
  proof (cases "g = []")
    case True
    with parse_groups_step[of "CHR '':'' # CHR '':'' # hexes h" r w groups None] parse_groups_hexes[of h r "groups @ [w]"] r show ?thesis
      by (cases "h = []") (simp_all add: hexes_Cons)
  next
    case False
    with parse_groups_step[of "CHR '':'' # hexes g @ CHR '':'' # CHR '':'' # hexes h" r w groups None] Cons.IH[OF False r(2)] hd_hexes[OF False] show ?thesis
      by (simp add: r(1) hexes_Cons)
  qed
qed simp


lemma zero_run_sound:
  assumes "zero_run g = Some (a, b)" and "length g = 8"
  shows "a + 2 \<le> b \<and> b \<le> 8 \<and> g = take a g @ replicate (b - a) 0 @ drop b g"
proof -
  define ok where "ok = (\<lambda>best :: (nat \<times> nat) option. case best of None \<Rightarrow> True
    | Some (a, b) \<Rightarrow> a + 2 \<le> b \<and> b \<le> 8 \<and> take (b - a) (drop a g) = replicate (b - a) 0)"
  define f where "f = (\<lambda>i best. let l = length (takeWhile (\<lambda>w. w = 0) (drop i g)) in
     if l \<ge> 2 \<and> (case best of None \<Rightarrow> True | Some (a, b) \<Rightarrow> l > b - a) then Some (i, i + l) else best)"
  have f: "ok (f i best)" if "ok best" "i < 8" for i best
  proof -
    let ?z = "takeWhile (\<lambda>w. w = 0) (drop i g)"
    have "take (length ?z) (drop i g) = ?z" by (rule takeWhile_eq_take[symmetric])
    moreover have "?z = replicate (length ?z) 0" by (rule replicate_length_same[symmetric]) (auto dest: set_takeWhileD)
    moreover have "i + length ?z \<le> 8" using length_takeWhile_le[of "\<lambda>w. w = 0" "drop i g"] that(2) assms(2) by simp
    ultimately show ?thesis using that(1) by (auto simp: f_def ok_def Let_def)
  qed
  have fold: "ok (fold f xs best)" if "ok best" "\<forall>i \<in> set xs. i < 8" for xs best
    using that by (induction xs arbitrary: best) (auto intro: f)
  have "ok (zero_run g)" unfolding zero_run_def f_def[symmetric] by (rule fold) (simp_all add: ok_def)
  with assms(1) have *: "a + 2 \<le> b" "b \<le> 8" "take (b - a) (drop a g) = replicate (b - a) 0" by (simp_all add: ok_def)
  have "g = take a g @ take (b - a) (drop a g) @ drop (b - a) (drop a g)" by (simp only: append_take_drop_id)
  with * show ?thesis by simp
qed

definition special :: "char \<Rightarrow> bool" where "special c \<longleftrightarrow> c = CHR ''.'' \<or> c = CHR '':'' \<or> c = CHR ''%''"

lemma find_special: "\<forall>c \<in> set s. \<not> special c \<Longrightarrow> special c \<Longrightarrow> find special (s @ c # t) = Some c"
  by (induction s) auto

lemma appendHex_plain: "\<forall>c \<in> set (appendHex w). \<not> special c \<and> c \<noteq> CHR '']''"
proof
  fix c assume "c \<in> set (appendHex w)"
  then obtain d where "d < 16" "c = digit_char d" using appendHex_digits[of w] by blast
  then show "\<not> special c \<and> c \<noteq> CHR '']''" by (simp add: special_def)
qed

lemma hexes_chars: "\<forall>c \<in> set (hexes g). c \<noteq> CHR ''%'' \<and> c \<noteq> CHR '']''"
  using appendHex_plain by (induction g) (auto simp: hexes_Cons special_def)

lemma zone_split:
  assumes "\<forall>c \<in> set s. c \<noteq> CHR ''%''"
  shows "takeWhile (\<lambda>c. c \<noteq> CHR ''%'') s = s" "dropWhile (\<lambda>c. c \<noteq> CHR ''%'') s = []"
  using assms by simp_all

lemma parse_plain:
  assumes "\<forall>c \<in> set s. c \<noteq> CHR ''%''" and "take 2 s \<noteq> ''::''" and "parse_groups 8 s [] None = Some (groups, e, [])"
  shows "parseIPv6 s = map_option (\<lambda>g. Addr6 g []) (expand groups e)"
  unfolding parseIPv6_def zone_split[OF assms(1)] using assms(2,3) by simp

lemma parse_leading:
  assumes "\<forall>c \<in> set s. c \<noteq> CHR ''%''" and "s \<noteq> []" and "parse_groups 8 s [] (Some 0) = Some (groups, e, [])"
  shows "parseIPv6 (''::'' @ s) = map_option (\<lambda>g. Addr6 g []) (expand groups e)"
proof -
  have c: "\<forall>c \<in> set (''::'' @ s). c \<noteq> CHR ''%''" using assms(1) by simp
  show ?thesis unfolding parseIPv6_def zone_split[OF c] using assms(2,3) by simp
qed

lemma parse_only_ellipsis: "parseIPv6 ''::'' = Some (Addr6 (replicate 8 0) [])"
  by (simp add: parseIPv6_def)

lemma hexes_no_ellipsis: "g \<noteq> [] \<Longrightarrow> take 2 (hexes g @ s) \<noteq> ''::''"
  using hexes_first[of g] by (auto simp: numeral_2_eq_2)

lemma parse_string6:
  assumes "length g = 8"
  shows "parseIPv6 (string6 g) = Some (Addr6 g [])"
proof (cases "zero_run g")
  case None
  then have "string6 g = hexes g" by (simp add: string6_def hexes_def)
  moreover have "g \<noteq> []" using assms by auto
  ultimately show ?thesis
    using parse_plain[of "hexes g" g None] hexes_chars[of g] hexes_no_ellipsis[of g "[]"] parse_groups_hexes[of g 8 "[]" None] assms
    by (simp add: expand_def)
next
  case (Some ab)
  then obtain a b where ab: "zero_run g = Some (a, b)" by (cases ab) auto
  note z = zero_run_sound[OF ab assms]
  define l r where "l = take a g" and "r = drop b g"
  have lr: "length l = a" "length r = 8 - b" "g = l @ replicate (b - a) 0 @ r"
    using z assms by (simp_all add: l_def r_def)
  have str: "string6 g = hexes l @ ''::'' @ hexes r" by (simp add: string6_def ab hexes_def l_def r_def)
  show ?thesis
  proof (cases "l = []")
    case True
    show ?thesis
    proof (cases "r = []")
      case True
      with \<open>l = []\<close> lr z parse_only_ellipsis str show ?thesis by simp
    next
      case False
      have "parse_groups 8 (hexes r) [] (Some 0) = Some (r, Some 0, [])" using parse_groups_hexes[OF False, of 8] lr(2) by simp
      from parse_leading[OF _ _ this] hexes_chars[of r] False have "parseIPv6 (string6 g) = map_option (\<lambda>g. Addr6 g []) (expand r (Some 0))"
        using str \<open>l = []\<close> by simp
      with lr z \<open>l = []\<close> show ?thesis by (simp add: expand_def)
    qed
  next
    case False
    have "parse_groups 8 (string6 g) [] None = Some (l @ r, Some (length l), [])"
      using parse_groups_ellipsis[OF False, of r 8 "[]"] str lr(1,2) z by auto
    moreover have "\<forall>c \<in> set (string6 g). c \<noteq> CHR ''%''" using hexes_chars[of l] hexes_chars[of r] by (auto simp: str)
    moreover have "take 2 (string6 g) \<noteq> ''::''" unfolding str by (rule hexes_no_ellipsis[OF False])
    ultimately have "parseIPv6 (string6 g) = map_option (\<lambda>g. Addr6 g []) (expand (l @ r) (Some (length l)))"
      by (intro parse_plain)
    moreover have "8 - (length l + length r) = b - a" "length (l @ r) < 8" using lr(1,2) z by auto
    ultimately show ?thesis using lr(3) by (simp add: expand_def)
  qed
qed

lemma group_bytes_cat [simp]: "word_cat (ucast (drop_bit 8 w) :: byte) (ucast w :: byte) = (w :: u16)"
  by (rule bit_word_eqI) (auto simp: bit_word_cat_iff bit_simps)

lemma string4_first: "\<exists>n s. n < 256 \<and> string4 (v # b) = show_nat n @ (if b = [] then [] else CHR ''.'' # string4 b)"
  using unsigned_less[of v] by (intro exI[of _ "unat v"]) (auto simp: string4_def join_Cons)

lemma string4_chars: "\<forall>c \<in> set (string4 b). digit c \<or> c = CHR ''.''"
proof (induction b)
  case (Cons v b)
  with string4_first[of v b] show_nat_digits show ?case by (auto simp: list_all_iff split: if_splits)
qed (simp add: string4_def)

lemma string4_plain: "\<forall>c \<in> set (string4 b). c \<noteq> CHR ''%'' \<and> c \<noteq> CHR '':'' \<and> c \<noteq> CHR '']'' \<and> c \<noteq> CHR ''[''"
proof
  fix c assume "c \<in> set (string4 b)"
  then have "digit c \<or> c = CHR ''.''" using string4_chars[of b] by blast
  then show "c \<noteq> CHR ''%'' \<and> c \<noteq> CHR '':'' \<and> c \<noteq> CHR '']'' \<and> c \<noteq> CHR ''[''" by auto
qed

lemma parse_hex_decimal:
  assumes "n < 256"
  shows "\<exists>off acc. 0 < off \<and> parse_hex (show_nat n @ CHR ''.'' # s) 0 0 = Some (off, acc, CHR ''.'' # s)"
proof -
  consider "n < 10" | "10 \<le> n" "n < 100" | "100 \<le> n" by linarith
  then show ?thesis
    using assms by cases (simp_all add: show_nat_small div_less_iff_less_mult)
qed

lemma parse_string4In6:
  assumes "length g = 8" and "Is4In6 g"
  shows "parseIPv6 (''::ffff:'' @ string4 (concat (map group_bytes (drop 6 g)))) = Some (Addr6 g [])"
proof -
  have "length (drop 6 g) = 2" using assms(1) by simp
  then obtain x y where "drop 6 g = [x, y]" by (auto simp only: numeral_2_eq_2 length_Suc_conv length_0_conv)
  with assms(2) have g: "g = [0, 0, 0, 0, 0, 0xffff] @ [x, y]" using append_take_drop_id[of 6 g] by (simp add: Is4In6_def)
  define b where "b = concat (map group_bytes (drop 6 g))"
  have b: "length b = 4" "b = [ucast (drop_bit 8 x), ucast x, ucast (drop_bit 8 y), ucast y]"
    by (simp_all add: b_def g group_bytes_def)
  obtain n s where n: "n < 256" "string4 b = show_nat n @ CHR ''.'' # s"
    using string4_first[of "hd b" "tl b"] b by auto
  obtain off acc where h: "0 < off" "parse_hex (string4 b) 0 0 = Some (off, acc, CHR ''.'' # s)"
    using parse_hex_decimal[OF n(1), of s] n(2) by auto
  have nonempty: "string4 b \<noteq> []" "hd (string4 b) \<noteq> CHR '':''"
    using n(2) show_nat_digits[of n] by (cases "show_nat n"; auto simp: digit_def)+
  have five: "replicate 5 (0 :: u16) = [0, 0, 0, 0, 0]" by (simp add: numeral_eq_Suc)
  have eight: "(8 :: nat) = Suc (Suc 6)" by simp
  have ff: "appendHex 0xffff = ''ffff''" by (simp add: appendHex_def digit_char_def)
  have "parse_groups (Suc (Suc 6)) (''ffff:'' @ string4 b) [] (Some 0) = parse_groups (Suc 6) (string4 b) [0xffff] (Some 0)"
    using parse_groups_step[of "CHR '':'' # string4 b" "Suc 6" "0xffff" "[]" "Some 0", unfolded ff] nonempty by simp
  also have "\<dots> = Some ([0xffff, x, y], Some 0, [])"
    unfolding parse_groups.simps(2) h(2) using h(1) parse_fields_string4[OF b(1)] by (simp add: b(2))
  finally have "parse_groups 8 (''ffff:'' @ string4 b) [] (Some 0) = Some ([0xffff, x, y], Some 0, [])"
    unfolding eight .
  from parse_leading[OF _ _ this] string4_plain[of b]
  have "parseIPv6 (''::'' @ ''ffff:'' @ string4 b) = map_option (\<lambda>g. Addr6 g []) (expand [0xffff, x, y] (Some 0))" by auto
  then show ?thesis by (simp add: expand_def g b_def five)
qed


text \<open>The addresses that have a text of their own: all but those with a zone.\<close>

definition Addr_ok :: "Addr \<Rightarrow> bool" where
  "Addr_ok a \<longleftrightarrow> (case a of Addr4 b \<Rightarrow> length b = 4 | Addr6 g zone \<Rightarrow> length g = 8 \<and> zone = [])"

lemma special_iff: "(\<lambda>c. c = CHR ''.'' \<or> c = CHR '':'' \<or> c = CHR ''%'') = special"
  by (simp add: special_def fun_eq_iff)

lemma digits_plain: "list_all digit s \<Longrightarrow> \<forall>c \<in> set s. \<not> special c"
  by (auto simp: list_all_iff special_def digit_def)

lemma find_string4: "length b = 4 \<Longrightarrow> find special (string4 b @ s) = Some CHR ''.''"
  using string4_first[of "hd b" "tl b"] find_special[OF digits_plain[OF show_nat_digits], of "CHR ''.''"]
  by (cases b) (auto simp: special_def)

lemma find_string6: "length g = 8 \<Longrightarrow> find special (string6 g) = Some CHR '':''"
proof -
  assume g: "length g = 8"
  have colon: "special CHR '':''" by (simp add: special_def)
  have f: "find special (hexes (w # h) @ s) = Some CHR '':''" if "h \<noteq> [] \<or> (\<exists>t. s = CHR '':'' # t)" for w h s
    using that find_special[of "appendHex w" "CHR '':''"] appendHex_plain[of w] colon by (auto simp: hexes_Cons)
  show ?thesis
  proof (cases "zero_run g")
    case None
    then have "string6 g = hexes g" by (simp add: string6_def hexes_def)
    moreover obtain w h where wh: "g = w # h" "length h = 7" using g by (cases g) simp_all
    moreover have "h \<noteq> []" using wh(2) by auto
    ultimately show ?thesis using f[of h "[]" w] by simp
  next
    case (Some ab)
    then obtain a b where ab: "zero_run g = Some (a, b)" by (cases ab) auto
    have "string6 g = hexes (take a g) @ ''::'' @ hexes (drop b g)" by (simp add: string6_def ab hexes_def)
    with f[of _ "''::'' @ hexes (drop b g)"] colon show ?thesis by (cases "take a g") simp_all
  qed
qed

lemma ParseAddr_String: "Addr_ok a \<Longrightarrow> ParseAddr (Addr_String a) = Some a"
proof (cases a)
  case (Addr4 b)
  assume "Addr_ok a"
  with Addr4 find_string4[of b "[]"] parse_fields_string4[of b] show ?thesis by (simp add: Addr_ok_def ParseAddr_def special_iff)
next
  case (Addr6 g zone)
  assume "Addr_ok a"
  with Addr6 have g: "length g = 8" "zone = []" by (simp_all add: Addr_ok_def)
  show ?thesis
  proof (cases "Is4In6 g")
    case True
    with Addr6 g parse_string4In6[OF g(1) True] show ?thesis by (simp add: ParseAddr_def special_iff special_def)
  next
    case False
    with Addr6 g parse_string6[OF g(1)] find_string6[OF g(1)] show ?thesis by (simp add: ParseAddr_def special_iff)
  qed
qed

end
