(* ===== verification/Address_Text.thy ===== *)
theory Address_Text
  imports Netip Netcode_Package
begin

text \<open>
  \<^verbatim>\<open>address.go\<close>: the text form of addresses and the conversions to and from \<^verbatim>\<open>net/netip\<close>. Every slice
  and index expression of the parser is a step that may panic; the parser is shown never to.
\<close>

text \<open>The Go expressions \<open>s[i:]\<close> and \<open>s[:i]\<close>, which panic out of range.\<close>

definition str_from :: "string \<Rightarrow> nat \<Rightarrow> string option" where
  "str_from s i = (if i \<le> length s then Some (drop i s) else None)"

definition str_to :: "string \<Rightarrow> nat \<Rightarrow> string option" where
  "str_to s i = (if i \<le> length s then Some (take i s) else None)"

definition TrimSuffix :: "string \<Rightarrow> char \<Rightarrow> string" where
  "TrimSuffix s c = (if s \<noteq> [] \<and> last s = c then butlast s else s)"

text \<open>Eight groups from the sixteen bytes of an IPv6 address, and back.\<close>

definition groups_of_raw :: "byte list \<Rightarrow> u16 list" where
  "groups_of_raw raw = map (\<lambda>i. push_bit 8 (ucast (raw ! (i * 2))) OR ucast (raw ! (i * 2 + 1))) [0..<8]"

definition raw_of_groups :: "u16 list \<Rightarrow> byte list" where
  "raw_of_groups groups = concat (map (\<lambda>w. [ucast (drop_bit 8 w), ucast w]) groups)"

definition AddrFrom16 :: "byte list \<Rightarrow> Addr" where
  "AddrFrom16 raw = Addr6 (map (\<lambda>i. word_cat (raw ! (i * 2)) (raw ! (i * 2 + 1))) [0..<8]) []"

definition addressFromNetip :: "Addr \<Rightarrow> u16 \<Rightarrow> Address" where
  "addressFromNetip addr port =
     (let addr = Unmap addr in
      if Is4 addr then zeroAddress\<lparr>Type := AddressIPv4, IPv4 := As4 addr, Port := port\<rparr>
      else zeroAddress\<lparr>Type := AddressIPv6, Port := port, IPv6 := groups_of_raw (As16 addr)\<rparr>)"

definition toNetip :: "Address \<Rightarrow> Addr \<times> u16" where
  "toNetip address =
     (if Type address = AddressIPv4 then (Addr4 (IPv4 address), Port address)
      else (AddrFrom16 (raw_of_groups (IPv6 address)), Port address))"

text \<open>
  The search for a port from the end of the text: at most the given number of positions, starting
  before position \<open>m\<close> and not going below \<open>low\<close>.
\<close>

fun port_index :: "(nat \<Rightarrow> bool) \<Rightarrow> nat \<Rightarrow> nat \<Rightarrow> nat \<Rightarrow> nat option" where
  "port_index hit low 0 m = None"
| "port_index hit low (Suc n) m =
     (if m \<le> low then None
      else if hit (m - 1) then Some (m - 1)
      else port_index hit low n (m - 1))"

definition strip_brackets :: "string \<Rightarrow> (error + u16 \<times> string) option" where
  "strip_brackets s = do {
     found \<leftarrow> (case port_index (\<lambda>index. s ! index = CHR '':'' \<and> s ! (index - 1) = CHR '']'') 3 6 (length s) of
         None \<Rightarrow> Some (Inr (0, s))
       | Some index \<Rightarrow> do {
           digits \<leftarrow> str_from s (index + 1);
           case parsePort digits of
             None \<Rightarrow> Some (Inl InvalidPort)
           | Some port \<Rightarrow> do { s \<leftarrow> str_to s (index - 1); Some (Inr (port, s)) } });
     case found of
       Inl e \<Rightarrow> Some (Inl e)
     | Inr (port, s) \<Rightarrow> do { s \<leftarrow> str_from (TrimSuffix s CHR '']'') 1; Some (Inr (port, s)) } }"

definition parse_as_IPv4 :: "u16 \<Rightarrow> string \<Rightarrow> (error + Address) option" where
  "parse_as_IPv4 port s = do {
     found \<leftarrow> (case port_index (\<lambda>index. s ! index = CHR '':'') 0 6 (length s) of
         None \<Rightarrow> Some (Inr (port, s))
       | Some index \<Rightarrow> do {
           digits \<leftarrow> str_from s (index + 1);
           case parsePort digits of
             None \<Rightarrow> Some (Inl InvalidPort)
           | Some port \<Rightarrow> do { s \<leftarrow> str_to s index; Some (Inr (port, s)) } });
     case found of
       Inl e \<Rightarrow> Some (Inl e)
     | Inr (port, s) \<Rightarrow>
         (case ParseAddr s of
            Some addr \<Rightarrow>
              if Is4 addr then Some (Inr (zeroAddress\<lparr>Type := AddressIPv4, IPv4 := As4 addr, Port := port\<rparr>))
              else Some (Inl ParseAddressFailed)
          | None \<Rightarrow> Some (Inl ParseAddressFailed)) }"

definition ParseAddress :: "string \<Rightarrow> (error + Address) option" where
  "ParseAddress addressString = do {
     s \<leftarrow> (if length addressString > maxAddressStringLength - 1
       then str_to addressString (maxAddressStringLength - 1) else Some addressString);
     stripped \<leftarrow> (if s \<noteq> [] \<and> hd s = CHR ''['' then strip_brackets s else Some (Inr (0, s)));
     case stripped of
       Inl e \<Rightarrow> Some (Inl e)
     | Inr (port, s) \<Rightarrow>
         (case ParseAddr s of
            Some addr \<Rightarrow>
              if \<not> Is4 addr
              then Some (Inr (zeroAddress\<lparr>Type := AddressIPv6, IPv6 := groups_of_raw (As16 addr), Port := port\<rparr>))
              else parse_as_IPv4 port s
          | None \<Rightarrow> parse_as_IPv4 port s) }"

definition Address_String :: "Address \<Rightarrow> string" where
  "Address_String address =
     (if Type address = AddressIPv6 then
        let addrPort = toNetip address in
        if Port address = 0 then Addr_String (fst addrPort)
        else ''['' @ Addr_String (fst addrPort) @ '']:'' @ show_nat (unat (Port address))
      else if Type address = AddressIPv4 then
        let text = show_nat (unat (IPv4 address ! 0)) @ ''.'' @ show_nat (unat (IPv4 address ! 1)) @ ''.'' @
          show_nat (unat (IPv4 address ! 2)) @ ''.'' @ show_nat (unat (IPv4 address ! 3)) in
        if Port address \<noteq> 0 then text @ '':'' @ show_nat (unat (Port address)) else text
      else ''NONE'')"

subsection \<open>Bytes and groups\<close>

lemma upt_8: "[0..<8] = [0, 1, 2, 3, 4, 5, 6, 7 :: nat]"
  by (simp add: upt_rec)

lemma list_8: "length g = 8 \<Longrightarrow> \<exists>a b c d e f x y. g = [a, b, c, d, e, f, x, y]"
  by (auto simp: numeral_eq_Suc length_Suc_conv)

lemma raw_group [simp]: "push_bit 8 (ucast (ucast (drop_bit 8 w) :: byte)) OR ucast (ucast w :: byte) = (w :: u16)"
  by (rule bit_word_eqI) (auto simp: bit_simps)

lemma groups_of_raw_of_groups: "length g = 8 \<Longrightarrow> groups_of_raw (raw_of_groups g) = g"
  by (drule list_8) (auto simp: groups_of_raw_def raw_of_groups_def upt_8)

lemma AddrFrom16_raw: "length g = 8 \<Longrightarrow> AddrFrom16 (raw_of_groups g) = Addr6 g []"
  by (drule list_8) (auto simp: AddrFrom16_def raw_of_groups_def upt_8)

lemma As16_raw: "As16 (Addr6 g zone) = raw_of_groups g"
  by (simp add: As16_def raw_of_groups_def group_bytes_def[abs_def])

lemma toNetip_canonical:
  assumes "address_canonical a"
  shows "Type a = AddressIPv4 \<Longrightarrow> toNetip a = (Addr4 (IPv4 a), Port a)"
    and "Type a = AddressIPv6 \<Longrightarrow> toNetip a = (Addr6 (IPv6 a) [], Port a)"
  using assms by (simp_all add: toNetip_def AddrFrom16_raw address_canonical_def address_wf_def)


subsection \<open>What the parser returns\<close>

lemma parse_fields_length: "parse_fields s start val n octets = Some b \<Longrightarrow> length octets \<le> 3 \<Longrightarrow> length b = 4"
proof (induction s arbitrary: start val n octets)
  case (Cons c s)
  from Cons.prems show ?case by (auto simp: Let_def split: if_splits dest: Cons.IH)
qed (auto split: if_splits)

lemma parse_groups_length:
  "parse_groups room s groups e = Some (g, e', rest) \<Longrightarrow> length groups + room = 8 \<Longrightarrow> length g \<le> 8"
proof (induction room arbitrary: s groups e)
  case (Suc room)
  from Suc.prems show ?case by (auto simp: Let_def split: option.splits if_splits list.splits prod.splits dest: Suc.IH)
qed simp

lemma expand_length:
  "parse_groups 8 s [] e0 = Some (groups, e, rest) \<Longrightarrow> expand groups e = Some g \<Longrightarrow> length g = 8"
  using parse_groups_length[of 8 s "[]" e0 groups e rest] by (auto simp: expand_def split: if_splits)

lemma parseIPv6_wf: "parseIPv6 s = Some a \<Longrightarrow> \<exists>g zone. a = Addr6 g zone \<and> length g = 8"
  by (auto simp: parseIPv6_def Let_def split: option.splits if_splits list.splits prod.splits dest: expand_length)

lemma ParseAddr_wf:
  assumes "ParseAddr s = Some a"
  shows "case a of Addr4 b \<Rightarrow> length b = 4 | Addr6 g _ \<Rightarrow> length g = 8"
proof -
  consider b where "a = Addr4 b" "parseIPv4Fields s = Some b" | "parseIPv6 s = Some a"
    using assms by (auto simp: ParseAddr_def split: option.splits if_splits)
  then show ?thesis
    by cases (use parse_fields_length[of s] parseIPv6_wf[of s] in \<open>auto simp: parseIPv4Fields_def\<close>)
qed

lemma port_index_range: "port_index hit low n m = Some k \<Longrightarrow> low \<le> k \<and> k < m \<and> hit k"
  by (induction n arbitrary: m) (fastforce split: if_splits)+

lemma parse_as_IPv4_total: "\<exists>r. parse_as_IPv4 port s = Some r \<and> (case r of Inl _ \<Rightarrow> True | Inr a \<Rightarrow> address_canonical a)"
proof -
  have v4: "\<exists>r. (case ParseAddr t of Some addr \<Rightarrow>
        if Is4 addr then Some (Inr (zeroAddress\<lparr>Type := AddressIPv4, IPv4 := As4 addr, Port := p\<rparr>)) else Some (Inl ParseAddressFailed)
      | None \<Rightarrow> Some (Inl ParseAddressFailed)) = Some r \<and> (case r of Inl _ \<Rightarrow> True | Inr a \<Rightarrow> address_canonical a)" for t p
    using ParseAddr_wf[of t]
    by (auto simp: Is4_def As4_def address_canonical_def address_wf_def zeroAddress_def split: option.splits Addr.splits)
  show ?thesis
  proof (cases "port_index (\<lambda>index. s ! index = CHR '':'') 0 6 (length s)")
    case None
    with v4 show ?thesis by (simp add: parse_as_IPv4_def)
  next
    case (Some k)
    with port_index_range[OF Some] v4 show ?thesis
      by (cases "parsePort (drop (Suc k) s)") (simp_all add: parse_as_IPv4_def str_from_def str_to_def)
  qed
qed

lemma TrimSuffix_bracket: "s \<noteq> [] \<Longrightarrow> hd s \<noteq> c \<Longrightarrow> TrimSuffix s c \<noteq> []"
  by (cases s) (auto simp: TrimSuffix_def)

lemma strip_brackets_total: "s \<noteq> [] \<Longrightarrow> hd s = CHR ''['' \<Longrightarrow> \<exists>r. strip_brackets s = Some r"
proof (cases "port_index (\<lambda>index. s ! index = CHR '':'' \<and> s ! (index - 1) = CHR '']'') 3 6 (length s)")
  case None
  moreover assume "s \<noteq> []" "hd s = CHR ''[''"
  ultimately show ?thesis
    using TrimSuffix_bracket[of s "CHR '']''"] by (simp add: strip_brackets_def str_from_def Suc_le_eq)
next
  case (Some k)
  assume s: "s \<noteq> []" "hd s = CHR ''[''"
  have k: "3 \<le> k" "k < length s" using port_index_range[OF Some] by simp_all
  with s TrimSuffix_bracket[of "take (k - 1) s" "CHR '']''"] have "TrimSuffix (take (k - 1) s) CHR '']'' \<noteq> []" by simp
  with Some k show ?thesis
    by (cases "parsePort (drop (Suc k) s)") (simp_all add: strip_brackets_def str_from_def str_to_def Suc_le_eq)
qed

lemma length_groups_of_raw [simp]: "length (groups_of_raw raw) = 8"
  by (simp add: groups_of_raw_def)

lemma ParseAddress_total:
  "\<exists>r. ParseAddress str = Some r \<and> (case r of Inl e \<Rightarrow> True | Inr address \<Rightarrow> address_canonical address)"
proof -
  have v6: "\<exists>r. (case ParseAddr t of Some addr \<Rightarrow>
        if \<not> Is4 addr then Some (Inr (zeroAddress\<lparr>Type := AddressIPv6, IPv6 := groups_of_raw (As16 addr), Port := p\<rparr>))
        else parse_as_IPv4 p t
      | None \<Rightarrow> parse_as_IPv4 p t) = Some r \<and> (case r of Inl _ \<Rightarrow> True | Inr a \<Rightarrow> address_canonical a)" for t p
    using parse_as_IPv4_total[of p t] by (auto simp: address_canonical_def address_wf_def zeroAddress_def split: option.splits)
  define s where "s = take 255 str"
  have s: "(if length str > maxAddressStringLength - 1 then str_to str (maxAddressStringLength - 1) else Some str) = Some s"
    by (simp add: s_def str_to_def)
  obtain r where "(if s \<noteq> [] \<and> hd s = CHR ''['' then strip_brackets s else Some (Inr (0, s))) = Some r"
    using strip_brackets_total[of s] by (cases "s \<noteq> [] \<and> hd s = CHR ''[''") auto
  with v6 show ?thesis unfolding ParseAddress_def s by (cases r) (auto split: prod.splits)
qed


subsection \<open>Printing and parsing\<close>

lemma port_index_hit:
  "hit j \<Longrightarrow> low \<le> j \<Longrightarrow> j < m \<Longrightarrow> m \<le> j + n \<Longrightarrow> (\<And>k. j < k \<Longrightarrow> k < m \<Longrightarrow> \<not> hit k) \<Longrightarrow> port_index hit low n m = Some j"
proof (induction n arbitrary: m)
  case (Suc n)
  show ?case
  proof (cases "m = Suc j")
    case False
    then have "\<not> hit (m - 1)" "port_index hit low n (m - 1) = Some j"
      using Suc.prems by (auto intro!: Suc.IH)
    with Suc.prems show ?thesis by simp
  qed (use Suc.prems in simp)
qed simp

lemma port_index_none: "(\<And>k. k < m \<Longrightarrow> \<not> hit k) \<Longrightarrow> port_index hit low n m = None"
  by (induction n arbitrary: m) auto

lemma unat_u16: "unat (p :: u16) < 65536" and unat_byte: "unat (v :: byte) < 256"
  using unsigned_less[of p] unsigned_less[of v] by simp_all

lemma parsePort_show: "parsePort (show_nat (unat p)) = Some p"
  using unat_u16[of p] show_nat_digits[of "unat p"]
  by (simp add: parsePort_def parsePort_loop_eq decimal_show_nat)

lemma length_port: "length (show_nat (unat (p :: u16))) \<le> 5"
  by (rule length_show_nat) (use unat_u16[of p] in simp_all)

lemma port_digits: "k < length (show_nat n) \<Longrightarrow> show_nat n ! k \<noteq> CHR '':''"
  using show_nat_digits[of n] not_digit_dot(2) by (metis list_all_length)

lemma ParseAddr_string4: "length b = 4 \<Longrightarrow> ParseAddr (string4 b @ s) = map_option Addr4 (parseIPv4Fields (string4 b @ s))"
  by (simp add: ParseAddr_def special_iff find_string4)

lemma parse_as_IPv4_string4:
  assumes "length b = 4"
  shows "parse_as_IPv4 0 (string4 b @ (if port \<noteq> 0 then '':'' @ show_nat (unat port) else [])) =
    Some (Inr (zeroAddress\<lparr>Type := AddressIPv4, IPv4 := b, Port := port\<rparr>))"
proof -
  have p: "ParseAddr (string4 b) = Some (Addr4 b)" using ParseAddr_string4[OF assms, of "[]"] parse_fields_string4[OF assms] by simp
  show ?thesis
  proof (cases "port = 0")
    case True
    have "port_index (\<lambda>index. string4 b ! index = CHR '':'') 0 6 (length (string4 b)) = None"
      by (rule port_index_none) (use string4_plain[of b] in \<open>auto simp: all_set_conv_all_nth\<close>)
    with True p show ?thesis by (simp add: parse_as_IPv4_def Is4_def As4_def)
  next
    case False
    let ?s = "string4 b @ '':'' @ show_nat (unat port)"
    have "port_index (\<lambda>index. ?s ! index = CHR '':'') 0 6 (length ?s) = Some (length (string4 b))"
      by (rule port_index_hit) (use length_port[of port] port_digits in \<open>auto simp: nth_append nth_Cons'\<close>)
    with False p show ?thesis
      by (simp add: parse_as_IPv4_def Is4_def As4_def str_from_def str_to_def parsePort_show)
  qed
qed

lemma length_hexes: "length (hexes g) \<le> 5 * length g"
proof (induction g)
  case (Cons w g)
  with length_appendHex(1)[of w] show ?case by (simp add: hexes_Cons)
qed simp

lemma length_string4: "length (string4 b) \<le> 4 * length b"
proof (induction b)
  case (Cons v b)
  have "length (show_nat (unat v)) \<le> 3" by (rule length_show_nat) (use unat_byte[of v] in simp_all)
  with Cons show ?case by (simp add: string4_def join_Cons)
qed (simp add: string4_def)

lemma string6_form:
  assumes "length g = 8"
  shows "length (string6 g) \<le> 50 \<and> 2 \<le> length (string6 g) \<and> (\<forall>c \<in> set (string6 g). c \<noteq> CHR '']'') \<and> hd (string6 g) \<noteq> CHR ''[''"
proof (cases "zero_run g")
  case None
  then have "string6 g = hexes g" by (simp add: string6_def hexes_def)
  moreover obtain w h where wh: "g = w # h" "h \<noteq> []" using assms by (cases g; cases "tl g") auto
  moreover have "2 \<le> length (hexes g)"
    using wh length_appendHex(2)[of w] by (cases "appendHex w") (simp_all add: hexes_Cons)
  moreover have "hd (hexes g) \<noteq> CHR ''[''" using hexes_first[of g] wh by auto
  ultimately show ?thesis using length_hexes[of g] hexes_chars[of g] assms by auto
next
  case (Some ab)
  then obtain a b where ab: "zero_run g = Some (a, b)" by (cases ab) auto
  have str: "string6 g = hexes (take a g) @ ''::'' @ hexes (drop b g)" by (simp add: string6_def ab hexes_def)
  have "hd (string6 g) \<noteq> CHR ''[''"
    using hexes_first[of "take a g"] by (cases "take a g = []") (auto simp: str)
  moreover have "length (string6 g) \<le> 50"
    using length_hexes[of "take a g"] length_hexes[of "drop b g"] zero_run_sound[OF ab assms] assms by (auto simp: str)
  ultimately show ?thesis using hexes_chars[of "take a g"] hexes_chars[of "drop b g"] by (auto simp: str)
qed

lemma Addr_String6_form:
  assumes "length g = 8"
  shows "length (Addr_String (Addr6 g [])) \<le> 50 \<and> 2 \<le> length (Addr_String (Addr6 g [])) \<and>
    (\<forall>c \<in> set (Addr_String (Addr6 g [])). c \<noteq> CHR '']'') \<and> hd (Addr_String (Addr6 g [])) \<noteq> CHR ''[''"
proof (cases "Is4In6 g")
  case True
  let ?b = "concat (map group_bytes (drop 6 g))"
  have "length ?b = 4" using list_8[OF assms] by (auto simp: group_bytes_def)
  with length_string4[of ?b] string4_plain[of ?b] True show ?thesis by auto
qed (use string6_form[OF assms] in simp)

lemma ParseAddr_toNetip:
  "length g = 8 \<Longrightarrow> ParseAddr (Addr_String (Addr6 g [])) = Some (Addr6 g [])"
  using ParseAddr_String[of "Addr6 g []"] by (simp add: Addr_ok_def)

lemma strip_printed:
  assumes "length t \<le> 50" "2 \<le> length t" "\<forall>c \<in> set t. c \<noteq> CHR '']''"
  shows "strip_brackets (''['' @ t @ '']:'' @ show_nat (unat port)) = Some (Inr (port, t))"
proof -
  let ?s = "''['' @ t @ '']:'' @ show_nat (unat port)"
  have "port_index (\<lambda>index. ?s ! index = CHR '':'' \<and> ?s ! (index - 1) = CHR '']'') 3 6 (length ?s) = Some (length t + 2)"
    by (rule port_index_hit) (use assms(2) length_port[of port] port_digits in \<open>auto simp: nth_append nth_Cons'\<close>)
  moreover have "last (CHR ''['' # t) \<noteq> CHR '']''" using assms(3) by auto
  ultimately show ?thesis by (simp add: strip_brackets_def str_from_def str_to_def parsePort_show TrimSuffix_def)
qed

lemma IPv4_roundtrip:
  assumes "Type a = AddressIPv4" and "IPv6 a = replicate 8 0" and "length (IPv4 a) = 4"
  shows "ParseAddress (Address_String a) = Some (Inr a)"
proof -
  define port where "port = (if Port a \<noteq> 0 then '':'' @ show_nat (unat (Port a)) else [])"
  let ?s = "string4 (IPv4 a) @ port"
  obtain w x y z where b: "IPv4 a = [w, x, y, z]" using assms(3) by (auto simp: numeral_eq_Suc length_Suc_conv)
  have str: "Address_String a = ?s" using assms(1) by (simp add: Address_String_def b string4_def port_def)
  have len: "\<not> 255 < length ?s" using length_string4[of "IPv4 a"] assms(3) length_port[of "Port a"] by (simp add: port_def)
  have "string4 (IPv4 a) \<noteq> []" using string4_first[of w "[x, y, z]"] by (auto simp: b)
  then have first: "hd ?s \<noteq> CHR ''[''" using string4_plain[of "IPv4 a"] by simp
  have "ParseAddress ?s = parse_as_IPv4 0 ?s"
    using len first ParseAddr_string4[OF assms(3), of port]
    by (cases "parseIPv4Fields ?s") (simp_all add: ParseAddress_def Is4_def)
  also have "\<dots> = Some (Inr (zeroAddress\<lparr>Type := AddressIPv4, IPv4 := IPv4 a, Port := Port a\<rparr>))"
    unfolding port_def by (rule parse_as_IPv4_string4[OF assms(3)])
  also have "zeroAddress\<lparr>Type := AddressIPv4, IPv4 := IPv4 a, Port := Port a\<rparr> = a"
    using assms(1,2) by (cases a) (simp add: zeroAddress_def)
  finally show ?thesis by (simp add: str)
qed

lemma IPv6_roundtrip:
  assumes "Type a = AddressIPv6" and "IPv4 a = replicate 4 0" and "length (IPv6 a) = 8"
  shows "ParseAddress (Address_String a) = Some (Inr a)"
proof -
  define t where "t = Addr_String (Addr6 (IPv6 a) [])"
  have f: "length t \<le> 50" "2 \<le> length t" "\<forall>c \<in> set t. c \<noteq> CHR '']''" "hd t \<noteq> CHR ''[''"
    using Addr_String6_form[OF assms(3)] unfolding t_def by blast+
  have p: "ParseAddr t = Some (Addr6 (IPv6 a) [])" unfolding t_def by (rule ParseAddr_toNetip[OF assms(3)])
  have n: "toNetip a = (Addr6 (IPv6 a) [], Port a)" using assms(1,3) by (simp add: toNetip_def AddrFrom16_raw)
  have "zeroAddress\<lparr>Type := AddressIPv6, IPv6 := groups_of_raw (As16 (Addr6 (IPv6 a) [])), Port := Port a\<rparr> = a"
    unfolding As16_raw groups_of_raw_of_groups[OF assms(3)] using assms(1,2) by (cases a) (simp add: zeroAddress_def)
  then have parsed: "(case ParseAddr t of Some addr \<Rightarrow>
        if \<not> Is4 addr then Some (Inr (zeroAddress\<lparr>Type := AddressIPv6, IPv6 := groups_of_raw (As16 addr), Port := Port a\<rparr>))
        else parse_as_IPv4 (Port a) t
      | None \<Rightarrow> parse_as_IPv4 (Port a) t) = Some (Inr a)"
    unfolding p by (simp add: Is4_def)
  show ?thesis
  proof (cases "Port a = 0")
    case True
    then have str: "Address_String a = t" using assms(1) by (simp add: Address_String_def n t_def del: Addr_String.simps)
    show ?thesis unfolding str using f parsed[unfolded True] by (simp add: ParseAddress_def)
  next
    case False
    then have str: "Address_String a = ''['' @ t @ '']:'' @ show_nat (unat (Port a))"
      using assms(1) by (simp add: Address_String_def n t_def del: Addr_String.simps)
    show ?thesis
      unfolding str using f parsed strip_printed[OF f(1-3), of "Port a"] length_port[of "Port a"]
      by (simp add: ParseAddress_def)
  qed
qed

lemma canonical_roundtrip: "address_canonical a \<Longrightarrow> ParseAddress (Address_String a) = Some (Inr a)"
  using IPv4_roundtrip[of a] IPv6_roundtrip[of a] by (auto simp: address_canonical_def address_wf_def)

text \<open>
  C33: the address parser is total and typed. On any text it returns, without running past the end of
  the text, and what it accepts is an address of one family with the bytes of the other family zero,
  which it accepts again in its printed form.
\<close>

theorem ParseAddress_typed:
  "\<exists>r. ParseAddress s = Some r \<and>
    (case r of Inl e \<Rightarrow> True
     | Inr address \<Rightarrow> address_canonical address \<and> ParseAddress (Address_String address) = Some (Inr address))"
  using ParseAddress_total[of s] canonical_roundtrip by (auto split: sum.splits)

text \<open>
  C34: addresses survive printing. Every IPv4 or IPv6 address, with or without a port, is printed as
  a text that the parser reads back as the same address: IPv6 addresses with their longest run of
  zero groups shortened, and IPv4-mapped ones in dotted form, included.
\<close>

theorem address_text_roundtrip:
  assumes "address_canonical a"
  shows "ParseAddress (Address_String a) = Some (Inr a)"
  using assms by (rule canonical_roundtrip)

theorem address_text_roundtrip_witness:
  "ParseAddress (Address_String \<lparr>Type = AddressIPv6, IPv4 = replicate 4 0, IPv6 = [0xfe80, 0, 0, 0, 0x202, 0, 0, 1], Port = 40000\<rparr>) =
    Some (Inr \<lparr>Type = AddressIPv6, IPv4 = replicate 4 0, IPv6 = [0xfe80, 0, 0, 0, 0x202, 0, 0, 1], Port = 40000\<rparr>)"
  by (rule address_text_roundtrip) (simp add: address_canonical_def address_wf_def)


text \<open>
  An address survives the way through the socket interface unless it is an IPv6 address that maps
  an IPv4 address: sending to it and receiving from it, the library sees the IPv4 address instead.
  For every other address the two conversions cancel.
\<close>

theorem netip_roundtrip:
  assumes "address_canonical a"
  shows "(case toNetip a of (addr, port) \<Rightarrow> addressFromNetip addr port) =
    (if Type a = AddressIPv6 \<and> Is4In6 (IPv6 a)
     then zeroAddress\<lparr>Type := AddressIPv4, IPv4 := raw_of_groups (drop 6 (IPv6 a)), Port := Port a\<rparr> else a)"
proof -
  consider "Type a = 1" "IPv6 a = replicate 8 0" | "Type a = 2" "IPv4 a = replicate 4 0" "length (IPv6 a) = 8"
    using assms by (auto simp: address_canonical_def address_wf_def)
  then show ?thesis
  proof cases
    case 1
    then show ?thesis
      using toNetip_canonical(1)[OF assms] by (cases a) (simp add: addressFromNetip_def Unmap_def Is4_def As4_def zeroAddress_def)
  next
    case 2
    have "groups_of_raw (As16 (Addr6 (IPv6 a) [])) = IPv6 a" unfolding As16_raw by (rule groups_of_raw_of_groups[OF 2(3)])
    with 2 toNetip_canonical(2)[OF assms] show ?thesis
      by (cases a) (simp add: addressFromNetip_def Unmap_def Is4_def As4_def zeroAddress_def raw_of_groups_def group_bytes_def[abs_def])
  qed
qed

theorem netip_roundtrip_witness:
  "(case toNetip \<lparr>Type = AddressIPv6, IPv4 = replicate 4 0, IPv6 = [0, 0, 0, 0, 0, 0xffff, 0x0102, 0x0304], Port = 7\<rparr> of
     (addr, port) \<Rightarrow> addressFromNetip addr port) = \<lparr>Type = AddressIPv4, IPv4 = [1, 2, 3, 4], IPv6 = replicate 8 0, Port = 7\<rparr>"
  using netip_roundtrip[of "\<lparr>Type = AddressIPv6, IPv4 = replicate 4 0, IPv6 = [0, 0, 0, 0, 0, 0xffff, 0x0102, 0x0304], Port = 7\<rparr>"]
  by (simp add: address_canonical_def address_wf_def Is4In6_def raw_of_groups_def zeroAddress_def)

end
