(* ===== verification/Token_Generation.thy ===== *)
theory Token_Generation
  imports Token Address_Text
begin

text \<open>
  \<^verbatim>\<open>GenerateConnectToken\<close> of \<^verbatim>\<open>token.go\<close>: what the web backend does. The clock reading, the nonce and the two
  keys the library draws are arguments. A generated token is read by the client as written, and its
  private part is opened by a server that has the private key.
\<close>

fun parse_addresses :: "string list \<Rightarrow> (error + Address list) option" where
  "parse_addresses [] = Some (Inr [])"
| "parse_addresses (s # ss) = do {
     result \<leftarrow> ParseAddress s;
     case result of
       Inl err \<Rightarrow> Some (Inl err)
     | Inr address \<Rightarrow> do {
         rest \<leftarrow> parse_addresses ss;
         case rest of Inl err \<Rightarrow> Some (Inl err) | Inr addresses \<Rightarrow> Some (Inr (address # addresses)) } }"

definition expire_timestamp :: "u64 \<Rightarrow> int \<Rightarrow> u64" where
  "expire_timestamp createTimestamp expireSeconds =
     (if expireSeconds \<ge> 0 then createTimestamp + of_int expireSeconds else 0xFFFFFFFFFFFFFFFF)"

definition GenerateConnectToken ::
  "crypto \<Rightarrow> u64 \<Rightarrow> byte list \<Rightarrow> byte list \<Rightarrow> byte list \<Rightarrow> string list \<Rightarrow> string list \<Rightarrow> int \<Rightarrow> int \<Rightarrow> u64 \<Rightarrow> u64 \<Rightarrow>
   byte list \<Rightarrow> byte list \<Rightarrow> (error + byte list) option" where
  "GenerateConnectToken C now nonce randomKey1 randomKey2 publicServerAddresses internalServerAddresses expireSeconds
     timeoutSeconds clientID protocolID privateKey userData =
     (let numServerAddresses = length publicServerAddresses in
      if numServerAddresses \<le> 0 \<or> numServerAddresses > MaxServersPerConnect then Some (Inl NumAddressesRange)
      else if length internalServerAddresses \<noteq> numServerAddresses then Some (Inl AddressCountMismatch)
      else if length privateKey \<noteq> KeyBytes then Some (Inl PrivateKeyLength)
      else if length userData > UserDataBytes then Some (Inl UserDataLength)
      else do {
        parsedPublic \<leftarrow> parse_addresses publicServerAddresses;
        case parsedPublic of Inl err \<Rightarrow> Some (Inl err) | Inr parsedPublicServerAddresses \<Rightarrow> do {
        parsedInternal \<leftarrow> parse_addresses internalServerAddresses;
        case parsedInternal of Inl err \<Rightarrow> Some (Inl err) | Inr parsedInternalServerAddresses \<Rightarrow> do {
        let tokenPrivate = generateConnectTokenPrivate clientID (of_int timeoutSeconds) parsedInternalServerAddresses
          userData randomKey1 randomKey2;
        privateData \<leftarrow> connectTokenPrivate_write tokenPrivate (replicate connectTokenPrivateBytes 0);
        let createTimestamp = now;
        let expireTimestamp = expire_timestamp createTimestamp expireSeconds;
        encrypted \<leftarrow> encryptConnectTokenPrivate C privateData protocolID expireTimestamp nonce privateKey;
        case encrypted of Inl err \<Rightarrow> Some (Inl err) | Inr privateData \<Rightarrow> do {
        let token = \<lparr>ct_protocolID = protocolID, ct_createTimestamp = createTimestamp, ct_expireTimestamp = expireTimestamp,
          ct_nonce = nonce, ct_privateData = privateData, ct_timeoutSeconds = of_int timeoutSeconds,
          ct_numServerAddresses = int numServerAddresses,
          ct_serverAddresses = (\<lambda>i. if i < length parsedPublicServerAddresses \<and> i < MaxServersPerConnect
            then parsedPublicServerAddresses ! i else zeroAddress),
          ct_clientToServerKey = ctp_clientToServerKey tokenPrivate, ct_serverToClientKey = ctp_serverToClientKey tokenPrivate\<rparr>;
        outputBuffer \<leftarrow> connectToken_write token (replicate ConnectTokenBytes 0);
        Some (Inr outputBuffer) } } } })"

subsection \<open>Reading the addresses\<close>

definition parses :: "string \<Rightarrow> bool" where
  "parses s \<longleftrightarrow> (case ParseAddress s of Some (Inr _) \<Rightarrow> True | _ \<Rightarrow> False)"

definition parsed :: "string \<Rightarrow> Address" where
  "parsed s = (case ParseAddress s of Some (Inr address) \<Rightarrow> address | _ \<Rightarrow> zeroAddress)"

lemma parse_addresses_cases:
  "if list_all parses ss then parse_addresses ss = Some (Inr (map parsed ss)) \<and> list_all address_canonical (map parsed ss)
   else \<exists>e. parse_addresses ss = Some (Inl e)"
proof (induction ss)
  case (Cons s ss)
  obtain r where r: "ParseAddress s = Some r" "case r of Inl _ \<Rightarrow> True | Inr a \<Rightarrow> address_canonical a"
    using ParseAddress_total by blast
  with Cons show ?case
    by (cases r) (auto simp: parses_def parsed_def split: if_splits)
qed simp

text \<open>What a caller has to pass for a token to be generated.\<close>

definition token_request_ok :: "string list \<Rightarrow> string list \<Rightarrow> byte list \<Rightarrow> byte list \<Rightarrow> bool" where
  "token_request_ok public internal privateKey userData \<longleftrightarrow>
     public \<noteq> [] \<and> length public \<le> MaxServersPerConnect \<and> length internal = length public \<and>
     length privateKey = KeyBytes \<and> length userData \<le> UserDataBytes \<and> list_all parses public \<and> list_all parses internal"

text \<open>The token the client reads, and the private token the server reads.\<close>

definition public_token ::
  "u64 \<Rightarrow> byte list \<Rightarrow> byte list \<Rightarrow> byte list \<Rightarrow> byte list \<Rightarrow> string list \<Rightarrow> int \<Rightarrow> int \<Rightarrow> u64 \<Rightarrow> connectToken" where
  "public_token now nonce k1 k2 sealed public expireSeconds timeoutSeconds protocolID =
     \<lparr>ct_protocolID = protocolID, ct_createTimestamp = now, ct_expireTimestamp = expire_timestamp now expireSeconds,
      ct_nonce = nonce, ct_privateData = sealed, ct_timeoutSeconds = of_int timeoutSeconds,
      ct_numServerAddresses = int (length public),
      ct_serverAddresses = (\<lambda>i. if i < length public then parsed (public ! i) else zeroAddress),
      ct_clientToServerKey = k1, ct_serverToClientKey = k2\<rparr>"

definition private_token :: "byte list \<Rightarrow> byte list \<Rightarrow> string list \<Rightarrow> int \<Rightarrow> u64 \<Rightarrow> byte list \<Rightarrow> connectTokenPrivate" where
  "private_token k1 k2 internal timeoutSeconds clientID userData =
     generateConnectTokenPrivate clientID (of_int timeoutSeconds) (map parsed internal) userData k1 k2"

lemma expire_after_create:
  assumes "unat now < 2 ^ 63" and "expireSeconds < 2 ^ 63"
  shows "now \<le> expire_timestamp now expireSeconds"
proof (cases "0 \<le> expireSeconds")
  case True
  have "uint now < 2 ^ 63" using assms(1) unfolding unat_eq_nat_uint by (simp only: nat_less_numeral_power_cancel_iff)
  then have range: "0 \<le> uint now + expireSeconds" "uint now + expireSeconds < 18446744073709551616" using assms(2) True by simp_all
  have "now + of_int expireSeconds = word_of_int (uint now + expireSeconds)" by simp
  moreover have "uint (word_of_int (uint now + expireSeconds) :: u64) = (uint now + expireSeconds) mod 18446744073709551616"
    unfolding uint_word_of_int by simp
  ultimately have "uint (now + of_int expireSeconds) = uint now + expireSeconds"
    using mod_pos_pos_trivial[OF range] by simp
  with True show ?thesis by (simp add: expire_timestamp_def word_le_def)
next
  case False
  have "(0xFFFFFFFFFFFFFFFF :: u64) = -1" by simp
  then have "now \<le> 0xFFFFFFFFFFFFFFFF" using word_n1_ge[of now] by (simp only:)
  with False show ?thesis by (simp add: expire_timestamp_def)
qed


lemma public_token_ok:
  assumes "public \<noteq> []" and "length public \<le> 32" and "list_all address_canonical (map parsed public)"
    and "now \<le> expire_timestamp now ex" and "length nonce = 24" and "length sealed = 1024" and "length k1 = 32" and "length k2 = 32"
  shows "ct_ok (public_token now nonce k1 k2 sealed public ex tm pid)"
proof -
  have "0 < length public" using assms(1) by simp
  then show ?thesis using assms(2-) by (auto simp: ct_ok_def public_token_def addresses_ok_def list_all_length)
qed

lemma private_token_ok:
  assumes "internal \<noteq> []" and "length internal \<le> 32" and "list_all address_canonical (map parsed internal)"
    and "length k1 = 32" and "length k2 = 32" and "length ud \<le> 256"
  shows "ctp_ok (private_token k1 k2 internal tm x ud)"
  unfolding private_token_def by (rule generateConnectTokenPrivate_ok) (use assms in auto)

text \<open>What the token of a valid request holds, for the client and for the server.\<close>

lemma token_generated:
  assumes "crypto_ok C" and "length nonce = 24" and "length k1 = 32" and "length k2 = 32"
    and "unat now < 2 ^ 63" and "ex < 2 ^ 63" and "token_request_ok public internal privateKey userData"
  shows "\<exists>bytes sealed opened. GenerateConnectToken C now nonce k1 k2 public internal ex tm clientID pid privateKey userData = Some (Inr bytes) \<and>
    length bytes = 2048 \<and> connectToken_read zeroConnectToken bytes = Some (None, public_token now nonce k1 k2 sealed public ex tm pid) \<and>
    ct_ok (public_token now nonce k1 k2 sealed public ex tm pid) \<and>
    length sealed = 1024 \<and> length opened = 1024 \<and> drop 1008 opened = drop 1008 sealed \<and>
    decryptConnectTokenPrivate C sealed pid (expire_timestamp now ex) nonce privateKey = Some (Inr opened) \<and>
    connectTokenPrivate_read zeroConnectTokenPrivate opened = Some (None, private_token k1 k2 internal tm clientID userData)"
proof -
  note ok = assms(7)[unfolded token_request_ok_def]
  have parsed: "parse_addresses public = Some (Inr (map parsed public))" "list_all address_canonical (map parsed public)"
    "parse_addresses internal = Some (Inr (map parsed internal))" "list_all address_canonical (map parsed internal)"
    using parse_addresses_cases[of public] parse_addresses_cases[of internal] ok by auto
  let ?e = "expire_timestamp now ex" and ?t = "private_token k1 k2 internal tm clientID userData"
  have t: "ctp_ok ?t" by (rule private_token_ok) (use ok assms(3,4) parsed(4) in auto)
  obtain plain sealed opened where s: "connectTokenPrivate_write ?t (replicate 1024 0) = Some plain"
    "encryptConnectTokenPrivate C plain pid ?e nonce privateKey = Some (Inr sealed)" "length sealed = 1024"
    "decryptConnectTokenPrivate C sealed pid ?e nonce privateKey = Some (Inr opened)"
    "connectTokenPrivate_read zeroConnectTokenPrivate opened = Some (None, ?t)" "length opened = 1024" "drop 1008 opened = drop 1008 sealed"
    using private_token_transfer[OF assms(1) t, of "replicate 1024 0" privateKey nonce pid ?e] ok assms(2) by auto
  let ?p = "public_token now nonce k1 k2 sealed public ex tm pid"
  have p: "ct_ok ?p" by (rule public_token_ok) (use ok assms parsed(2) s(3) expire_after_create in auto)
  from connect_token_transfer[OF this, of "replicate 2048 0"] obtain bytes where
    b: "connectToken_write ?p (replicate 2048 0) = Some bytes" "length bytes = 2048"
      "connectToken_read zeroConnectToken bytes = Some (None, ?p)" by auto
  have tok: "\<lparr>ct_protocolID = pid, ct_createTimestamp = now, ct_expireTimestamp = ?e, ct_nonce = nonce,
     ct_privateData = sealed, ct_timeoutSeconds = of_int tm, ct_numServerAddresses = int (length public),
     ct_serverAddresses = (\<lambda>i. if i < length (map parsed public) \<and> i < 32 then map parsed public ! i else zeroAddress),
     ct_clientToServerKey = ctp_clientToServerKey ?t, ct_serverToClientKey = ctp_serverToClientKey ?t\<rparr> = ?p"
    using ok by (auto simp: public_token_def private_token_def generateConnectTokenPrivate_def)
  have "GenerateConnectToken C now nonce k1 k2 public internal ex tm clientID pid privateKey userData = Some (Inr bytes)"
    using ok s(1,2) b(1) by (simp add: GenerateConnectToken_def parsed(1,3) Let_def tok[simplified] flip: private_token_def)
  with s(3-7) b(2,3) p show ?thesis by blast
qed

lemma token_refused:
  "\<not> token_request_ok public internal privateKey userData \<Longrightarrow>
    \<exists>e. GenerateConnectToken C now nonce k1 k2 public internal ex tm clientID pid privateKey userData = Some (Inl e)"
  using parse_addresses_cases[of public] parse_addresses_cases[of internal]
  by (auto simp: token_request_ok_def GenerateConnectToken_def Let_def split: if_splits)

text \<open>
  C15: a connect token is generated exactly for valid arguments, and everyone who reads it sees what was
  asked for. The result is an error if and only if the number of servers is not between 1 and 32, the
  two lists differ in length, the private key is not 32 bytes, the user data is longer than 256 bytes
  or some address does not parse. Otherwise it is 2048 bytes that a client reads as the public token
  with the parsed public addresses, and whose private part a server with the private key opens and
  reads as the token with the client ID, the internal addresses, the user data and the same keys.
\<close>

theorem GenerateConnectToken_spec:
  assumes "crypto_ok C" and "length nonce = connectTokenNonceBytes" and "length k1 = KeyBytes" and "length k2 = KeyBytes"
    and "unat now < 2 ^ 63" and "expireSeconds < 2 ^ 63"
  shows "if token_request_ok public internal privateKey userData
    then \<exists>bytes sealed opened.
      GenerateConnectToken C now nonce k1 k2 public internal expireSeconds timeoutSeconds clientID protocolID privateKey userData =
        Some (Inr bytes) \<and> length bytes = ConnectTokenBytes \<and>
      connectToken_read zeroConnectToken bytes =
        Some (None, public_token now nonce k1 k2 sealed public expireSeconds timeoutSeconds protocolID) \<and>
      decryptConnectTokenPrivate C sealed protocolID (expire_timestamp now expireSeconds) nonce privateKey = Some (Inr opened) \<and>
      connectTokenPrivate_read zeroConnectTokenPrivate opened =
        Some (None, private_token k1 k2 internal timeoutSeconds clientID userData)
    else \<exists>e. GenerateConnectToken C now nonce k1 k2 public internal expireSeconds timeoutSeconds clientID protocolID privateKey userData =
        Some (Inl e)"
  using token_generated[OF assms(1), of nonce k1 k2 now expireSeconds public internal privateKey userData timeoutSeconds clientID protocolID]
    token_refused[of public internal privateKey userData] assms(2-)
  by (cases "token_request_ok public internal privateKey userData") auto

theorem GenerateConnectToken_spec_witness:
  "(\<exists>bytes. GenerateConnectToken checksum_crypto 1000 (replicate 24 3) (replicate 32 1) (replicate 32 2) [''10.0.0.1:40000''] [''10.0.0.1:40000'']
      45 15 7 9 (replicate 32 4) [] = Some (Inr bytes) \<and> length bytes = 2048) \<and>
   (\<exists>e. GenerateConnectToken checksum_crypto 1000 (replicate 24 3) (replicate 32 1) (replicate 32 2) [''10.0.0.1:40000''] []
      45 15 7 9 (replicate 32 4) [] = Some (Inl e))"
proof -
  let ?a = "\<lparr>Type = AddressIPv4, IPv4 = [10, 0, 0, 1], IPv6 = replicate 8 0, Port = 40000\<rparr>"
  have "Address_String ?a = ''10.0.0.1:40000''"
    by (simp add: Address_String_def show_nat.simps digit_char_def)
  moreover have "ParseAddress (Address_String ?a) = Some (Inr ?a)"
    by (rule canonical_roundtrip) (simp add: address_canonical_def address_wf_def)
  ultimately have ok: "token_request_ok [''10.0.0.1:40000''] [''10.0.0.1:40000''] (replicate 32 4) []"
    by (simp add: token_request_ok_def parses_def)
  have no: "\<not> token_request_ok [''10.0.0.1:40000''] [] (replicate 32 4) []" by (simp add: token_request_ok_def)
  note spec = GenerateConnectToken_spec[OF checksum_crypto_ok, of "replicate 24 3" "replicate 32 1" "replicate 32 2" 1000 45
    "[''10.0.0.1:40000'']" _ "replicate 32 4" "[]" 15 7 9]
  from spec[of "[''10.0.0.1:40000'']"] ok spec[of "[]"] no show ?thesis by auto
qed

end
