(* ===== verification/Connection.thy ===== *)
theory Connection
  imports Server_Properties Client_Sequence Token_Generation
begin

text \<open>
  Client and server together. A lossless network carries what one side logs as sent to the other, and
  an exchange is one \<open>Update\<close> of the client, the server's handling of what the client sent, and the
  packets the server sent back. The theorems say that a generated connect token leads to a
  connection, and that a connection carries payloads in both directions.
\<close>

subsection \<open>A lossless network\<close>

text \<open>The packets to an address that were added to a log.\<close>

definition mail :: "Address \<Rightarrow> event list \<Rightarrow> event list \<Rightarrow> byte list list" where
  "mail to old new = map snd (filter (\<lambda>(a, _). a = to) (sent_packets (drop (length old) new)))"

definition exchange ::
  "crypto \<Rightarrow> u64 \<Rightarrow> Address \<Rightarrow> float64 \<Rightarrow> byte list list \<times> Client \<times> Server \<Rightarrow> (byte list list \<times> Client \<times> Server) option" where
  "exchange C now ca t = (\<lambda>(inbox, c, s). do {
     c' \<leftarrow> client_Update C t (map (\<lambda>d. (serverAddress c, d, now)) inbox) c;
     s' \<leftarrow> process_waiting C now (map (\<lambda>d. (ca, d, now)) (mail (serverAddress c) (cl_events c) (cl_events c'))) s;
     Some (mail ca (srv_events s) (srv_events s'), c', s') })"

text \<open>A packet to the address leaves: through the simulator, the override or an open socket.\<close>

definition client_routed :: "Client \<Rightarrow> Address \<Rightarrow> bool" where
  "client_routed c to \<longleftrightarrow> cc_NetworkSimulator (cl_config c) \<or> cc_OverrideSendAndReceive (cl_config c) \<and> cc_SendPacketOverride (cl_config c) \<or>
     Type to = AddressIPv4 \<and> socket_sends (cl_socketIPv4 c) \<or> Type to = AddressIPv6 \<and> socket_sends (cl_socketIPv6 c)"

definition server_routed :: "Server \<Rightarrow> Address \<Rightarrow> bool" where
  "server_routed s to \<longleftrightarrow> NetworkSimulator (srv_config s) \<or> OverrideSendAndReceive (srv_config s) \<and> SendPacketOverride (srv_config s) \<or>
     Type to = AddressIPv4 \<and> socket_sends (socketIPv4 s) \<or> Type to = AddressIPv6 \<and> socket_sends (socketIPv6 s)"

lemma cl_out_routed: "client_routed c (serverAddress c) \<Longrightarrow> sent_packets (cl_out c d) = [(serverAddress c, d)]"
  by (auto simp: client_routed_def cl_out_def sendPacketToAddress_def sent_packets_def List.map_filter_def)

lemma delivered_routed: "server_routed s to \<Longrightarrow> delivered s to d = [(to, d)]"
  by (auto simp: server_routed_def delivered_def sendPacketToAddress_def sent_packets_def List.map_filter_def)

lemma routed_receives: "client_routed c (serverAddress c) \<Longrightarrow> can_receive c"
  by (auto simp: client_routed_def can_receive_def socket_sends_def split: option.splits)

subsection \<open>One exchange\<close>

text \<open>A client that is on its way: nothing makes it give up.\<close>

definition settled :: "Client \<Rightarrow> bool" where
  "settled c \<longleftrightarrow> \<not> shouldDisconnect c \<and> \<not> client_timed_out c \<and>
     (cl_state c < ClientStateConnected \<longrightarrow> cl_time c - connectStartTime c < token_lifetime c)"

lemma settled_stays: "settled c \<Longrightarrow> client_settle C c = Some c"
  by (auto simp: settled_def client_settle_def)

lemma settled_sent [simp]: "settled (sent C p c) = settled c"
  by (simp add: settled_def client_timed_out_def token_lifetime_def)

lemma exchange_step:
  assumes "crypto_ok C" and "cl_inv c" and "cl_receives (cl_config c)" and "\<not> cl_loopback c" and "length inbox \<le> 64"
    and "client_process_waiting C (map (\<lambda>d. (serverAddress c, d, now)) inbox) (c\<lparr>cl_time := t\<rparr>) = Some c1"
    and "due_packet c1 = Some p" and "settled c1" and "client_routed c1 (serverAddress c1)" and "serverAddress c1 = serverAddress c"
    and "cl_events c1 = cl_events c @ quiet" and "sent_packets quiet = []"
    and "server_ProcessPacket C now now ca (wire C p (cl_sequence c1) (writePacketKey c1) (ct_protocolID (cl_connectToken c1))) s = Some s'"
    and "srv_events s' = srv_events s @ new" and "sent_packets new = map (Pair ca) out"
  shows "exchange C now ca t (inbox, c, s) = Some (out, sent C p c1, s')"
proof -
  have "cl_inv (c\<lparr>cl_time := t\<rparr>)" using assms(2) by simp
  from Update_exact[OF assms(1,4,3,6) this] have update:
    "client_Update C t (map (\<lambda>d. (serverAddress c, d, now)) inbox) c = Some (sent C p c1)"
    using assms(5,7,8) by (simp add: settled_stays)
  have "mail (serverAddress c) (cl_events c) (cl_events (sent C p c1)) =
      [wire C p (cl_sequence c1) (writePacketKey c1) (ct_protocolID (cl_connectToken c1))]"
    using cl_out_routed[OF assms(9)] assms(10-12) by (simp add: mail_def)
  moreover have "mail ca (srv_events s) (srv_events s') = out"
    using assms(14,15) by (simp add: mail_def filter_map comp_def)
  ultimately show ?thesis
    using update assms(13) by (simp add: exchange_def flip: server_ProcessPacket_def)
qed

subsection \<open>The client's side\<close>

text \<open>What stays the same from one exchange to the next, and what a client needs to go on.\<close>

definition link where
  "link c = (cl_config c, cl_socketIPv4 c, cl_socketIPv6 c, cl_connectToken c, serverAddress c, readPacketKey c, writePacketKey c,
     hasPacketKeys c, cl_loopback c, connectStartTime c, shouldDisconnect c, packetReceiveQueue c)"

definition client_up :: "Client \<Rightarrow> bool" where
  "client_up c \<longleftrightarrow> cl_inv c \<and> cl_receives (cl_config c) \<and> \<not> cl_loopback c \<and> \<not> shouldDisconnect c \<and> hasPacketKeys c \<and>
     client_routed c (serverAddress c) \<and> Equal (serverAddress c) (serverAddress c)"

lemma client_up_link: "client_up c \<Longrightarrow> link c' = link c \<Longrightarrow> cl_inv c' \<Longrightarrow> client_up c'"
  by (simp add: client_up_def link_def client_routed_def)

text \<open>The client has taken at most one packet and has sent the next one of the handshake.\<close>

definition advanced :: "float64 \<Rightarrow> Client \<Rightarrow> Client \<Rightarrow> bool" where
  "advanced t c c' \<longleftrightarrow> cl_inv c' \<and> link c' = link c \<and> cl_time c' = t \<and> lastPacketSendTime c' = t \<and>
     cl_sequence c' = cl_sequence c + 1"

abbreviation connection_request :: "connectToken \<Rightarrow> packet" where
  "connection_request T \<equiv> ConnectionRequest \<lparr>req_versionInfo = versionInfo, req_protocolID = ct_protocolID T,
     req_connectTokenExpireTimestamp = ct_expireTimestamp T, req_connectTokenNonce = ct_nonce T,
     req_connectTokenData = ct_privateData T\<rparr>"

lemma client_upD:
  assumes "client_up c"
  shows "cl_inv c" "cl_receives (cl_config c)" "\<not> cl_loopback c" "\<not> shouldDisconnect c" "hasPacketKeys c"
    "client_routed c (serverAddress c)" "Equal (serverAddress c) (serverAddress c)" "length (readPacketKey c) = 32" "can_receive c"
  using assms routed_receives by (auto simp: client_up_def cl_inv_def)

lemma request_exchange:
  assumes "crypto_ok C" and "client_up c" and "cl_state c = 1" and "lastPacketSendTime c + 1 / 10 < t" and "settled (c\<lparr>cl_time := t\<rparr>)"
    and "T = cl_connectToken c"
    and "server_ProcessPacket C now now ca (request_bytes (ct_protocolID T) (ct_expireTimestamp T) (ct_nonce T) (ct_privateData T)) s = Some s'"
    and "srv_events s' = srv_events s @ new" and "sent_packets new = map (Pair ca) out"
  shows "\<exists>c'. exchange C now ca t ([], c, s) = Some (out, c', s') \<and> advanced t c c' \<and>
    cl_state c' = 1 \<and> cl_replayProtection c' = cl_replayProtection c"
proof -
  let ?c = "c\<lparr>cl_time := t\<rparr>"
  note up = client_upD[OF assms(2)]
  have due: "due_packet ?c = Some (connection_request T)" using assms(3,4,6) by (simp add: due_packet_def)
  have "exchange C now ca t ([], c, s) = Some (out, sent C (connection_request T) ?c, s')"
    by (rule exchange_step[where quiet = "[]", OF assms(1) up(1-3) _ _ due assms(5)])
      (use up(6) assms(6-9) in \<open>simp_all add: client_routed_def wire_def\<close>)
  moreover have "cl_inv (sent C (connection_request T) ?c)" by (rule cl_inv_sent_packet) (use up(1) assms(3) in simp_all)
  ultimately show ?thesis using assms(3) by (auto simp: advanced_def link_def sent_def)
qed

lemma processInternal_quiet:
  "\<exists>quiet. cl_events (client_processPacketInternal from p q c) = cl_events c @ quiet \<and> sent_packets quiet = []"
proof -
  have "\<exists>quiet. cl_events (setState x c') = cl_events c' @ quiet \<and> sent_packets quiet = []" for x c'
    by (cases "cc_StateChangeCallback (cl_config c')") (simp_all add: setState_def sent_packets_def List.map_filter_def)
  from this[of _ "c\<lparr>challengeTokenSequence := _, challengeTokenData := _, lastPacketReceiveTime := _\<rparr>"]
    this[of _ "c\<lparr>lastPacketReceiveTime := _, cl_clientIndex := _, cl_maxClients := _\<rparr>"]
  show ?thesis by (simp add: client_processPacketInternal_def split: packet.splits)
qed

text \<open>The client takes a packet of the server and sends what is then due.\<close>

lemma inbox_exchange:
  assumes "crypto_ok C" and "client_up c" and "packet_ok p" and "\<not> is_request p" and "clientAllowedPackets (unat (packetType p))"
    and "\<not> replay_blocks (Some (cl_replayProtection c)) (packetType p) g" and "pid = ct_protocolID (cl_connectToken c)"
    and "c1 = client_processPacketInternal (serverAddress c) p g (c\<lparr>cl_time := t, cl_replayProtection :=
      (if packetType p \<ge> connectionKeepAlivePacket then advanceSequence (cl_replayProtection c) g else cl_replayProtection c)\<rparr>)"
    and "due_packet c1 = Some r" and "settled c1" and "0 < cl_state c1"
    and "server_ProcessPacket C now now ca (wire C r (cl_sequence c) (writePacketKey c) pid) s = Some s'"
    and "srv_events s' = srv_events s @ new" and "sent_packets new = map (Pair ca) out"
  shows "exchange C now ca t ([sealed_packet C p g (readPacketKey c) pid], c, s) = Some (out, sent C r c1, s') \<and>
    cl_inv (sent C r c1)"
proof -
  note up = client_upD[OF assms(2)]
  let ?d = "sealed_packet C p g (readPacketKey c) pid" and ?c = "c\<lparr>cl_time := t\<rparr>"
  have take: "client_ProcessPacket C now (serverAddress c) ?d ?c = Some c1"
    unfolding assms(8) by (subst client_takes[OF assms(1,3,4)]) (use up(5,8) assms(5-7) in simp_all)
  have wait: "client_process_waiting C (map (\<lambda>d. (serverAddress c, d, now)) [?d]) ?c = Some c1"
    using up(9) take by simp
  have inv: "cl_inv c1" unfolding assms(8) by (rule cl_inv_processInternal) (use up(1) assms(3) in \<open>simp_all add: cl_inv_defs\<close>)
  obtain quiet where quiet: "cl_events c1 = cl_events c @ quiet" "sent_packets quiet = []"
    using processInternal_quiet[of "serverAddress c" p g "c\<lparr>cl_time := t, cl_replayProtection := _\<rparr>"] unfolding assms(8) by auto
  have same: "serverAddress c1 = serverAddress c" "client_routed c1 a = client_routed c a" "cl_sequence c1 = cl_sequence c"
    "writePacketKey c1 = writePacketKey c" "cl_connectToken c1 = cl_connectToken c" for a
    by (simp_all add: assms(8) client_routed_def)
  have "exchange C now ca t ([?d], c, s) = Some (out, sent C r c1, s')"
    by (rule exchange_step[OF assms(1) up(1-3) _ wait assms(9,10) _ _ quiet _ assms(13,14)])
      (use up(6) assms(7,12) same in simp_all)
  moreover have "cl_inv (sent C r c1)" by (rule cl_inv_sent_packet[OF inv assms(11)])
  ultimately show ?thesis by blast
qed

lemma response_exchange:
  assumes "crypto_ok C" and "client_up c" and "cl_state c = 1" and "lastPacketSendTime c + 1 / 10 < t"
    and "t - connectStartTime c < token_lifetime c" and "packet_ok (ConnectionChallenge cq d)" and "pid = ct_protocolID (cl_connectToken c)"
    and "server_ProcessPacket C now now ca (sealed_packet C (ConnectionResponse cq d) (cl_sequence c) (writePacketKey c) pid) s = Some s'"
    and "srv_events s' = srv_events s @ new" and "sent_packets new = map (Pair ca) out"
  shows "\<exists>c'. exchange C now ca t ([sealed_packet C (ConnectionChallenge cq d) g (readPacketKey c) pid], c, s) = Some (out, c', s') \<and>
    advanced t c c' \<and> cl_state c' = 2 \<and> cl_replayProtection c' = cl_replayProtection c"
proof -
  note up = client_upD[OF assms(2)]
  let ?c1 = "setState 2 (c\<lparr>cl_time := t, challengeTokenSequence := cq, challengeTokenData := d, lastPacketReceiveTime := t\<rparr>)"
  have one: "?c1 = client_processPacketInternal (serverAddress c) (ConnectionChallenge cq d) g (c\<lparr>cl_time := t, cl_replayProtection :=
      (if packetType (ConnectionChallenge cq d) \<ge> connectionKeepAlivePacket then advanceSequence (cl_replayProtection c) g else cl_replayProtection c)\<rparr>)"
    using assms(3) up(7) by (simp add: client_processPacketInternal_def)
  have due: "due_packet ?c1 = Some (ConnectionResponse cq d)" using assms(4) by (simp add: due_packet_def)
  have settled: "settled ?c1"
    using up(4) assms(5) by (simp add: settled_def client_timed_out_def token_lifetime_def del: of_int_sint)
  have "exchange C now ca t ([sealed_packet C (ConnectionChallenge cq d) g (readPacketKey c) pid], c, s) =
      Some (out, sent C (ConnectionResponse cq d) ?c1, s') \<and> cl_inv (sent C (ConnectionResponse cq d) ?c1)"
    by (rule inbox_exchange[OF assms(1,2,6) _ _ _ assms(7) one due settled _ _ assms(9,10)])
      (use assms(8) in \<open>simp_all add: wire_def replay_blocks_def\<close>)
  then show ?thesis by (auto simp: advanced_def link_def sent_def)
qed

lemma accept_exchange:
  assumes "crypto_ok C" and "client_up c" and "cl_state c = 2" and "lastPacketSendTime c + 1 / 10 < t"
    and "\<not> alreadyReceived (cl_replayProtection c) g" and "pid = ct_protocolID (cl_connectToken c)"
    and "server_ProcessPacket C now now ca (sealed_packet C (ConnectionKeepAlive 0 0) (cl_sequence c) (writePacketKey c) pid) s = Some s'"
    and "srv_events s' = srv_events s @ new" and "sent_packets new = map (Pair ca) out"
  shows "\<exists>c'. exchange C now ca t ([sealed_packet C (ConnectionKeepAlive i n) g (readPacketKey c) pid], c, s) = Some (out, c', s') \<and>
    advanced t c c' \<and> cl_state c' = 3 \<and> cl_replayProtection c' = advanceSequence (cl_replayProtection c) g \<and>
    cl_clientIndex c' = sint i \<and> cl_maxClients c' = sint n"
proof -
  note up = client_upD[OF assms(2)]
  let ?p = "ConnectionKeepAlive i n" and ?r = "ConnectionKeepAlive 0 0"
  let ?c1 = "setState 3 (c\<lparr>cl_time := t, cl_replayProtection := advanceSequence (cl_replayProtection c) g, lastPacketReceiveTime := t,
    cl_clientIndex := sint i, cl_maxClients := sint n\<rparr>)"
  have one: "?c1 = client_processPacketInternal (serverAddress c) ?p g (c\<lparr>cl_time := t, cl_replayProtection :=
      (if packetType ?p \<ge> connectionKeepAlivePacket then advanceSequence (cl_replayProtection c) g else cl_replayProtection c)\<rparr>)"
    using assms(3) up(7) by (simp add: client_processPacketInternal_def)
  have due: "due_packet ?c1 = Some ?r" using assms(4) by (simp add: due_packet_def)
  have settled: "settled ?c1"
    using up(4) by (simp add: settled_def client_timed_out_def del: of_int_sint)
  have "exchange C now ca t ([sealed_packet C ?p g (readPacketKey c) pid], c, s) = Some (out, sent C ?r ?c1, s') \<and>
      cl_inv (sent C ?r ?c1)"
    by (rule inbox_exchange[OF assms(1,2) _ _ _ _ assms(6) one due settled _ _ assms(8,9)])
      (use assms(5,7) in \<open>simp_all add: wire_def replay_blocks_def\<close>)
  then show ?thesis by (auto simp: advanced_def link_def sent_def)
qed

subsection \<open>The server's side\<close>

lemma known_index:
  assumes "srv_inv s" and "network_client s i" and "Equal (clientAddress s i) from"
  shows "findClientIndexByAddress from s = int i"
proof -
  obtain j where j: "findClientIndexByAddress from s = int j" "network_client s j" "Equal (clientAddress s j) from"
    using findByAddress_cases[OF assms(1), of "from"] assms(2,3) by blast
  have "Equal (clientAddress s i) (clientAddress s j)" using assms(3) Equal_sym[OF j(3)] by (rule Equal_trans)
  then have "i = j" using srv_invD(5)[OF assms(1)] assms(2) j(2) unfolding apart_inv_def by blast
  with j(1) show ?thesis by simp
qed

text \<open>A packet sealed under the keys of a connected client is read with the window of its slot.\<close>

lemma process_known_sender:
  assumes "crypto_ok C" and "srv_inv s" and "network_client s i" and "Equal (clientAddress s i) from"
    and "packet_ok p" and "\<not> is_request p" and "serverAllowedPackets (unat (packetType p))"
    and "\<not> replay_blocks (Some (clientReplayProtection s i)) (packetType p) q"
    and "key = snd (client_keys i s)" and "pid = ProtocolID (srv_config s)"
  shows "server_ProcessPacket C ts now from (sealed_packet C p q key pid) s =
    server_processPacketInternal C now from p q (clientEncryptionIndex s i) (int i)
      (s\<lparr>clientReplayProtection := (clientReplayProtection s)(i := the (replay_mark (Some (clientReplayProtection s i)) (packetType p) q))\<rparr>)"
proof -
  obtain e where e: "e < 1024" "clientEncryptionIndex s i = int e" using network_clientD[OF srv_invD(2)[OF assms(2)] assms(3)] by metis
  have i: "i < 256" "running s" using connected_range(1,3)[OF srv_invD(1)[OF assms(2)]] assms(3) by blast+
  note index = known_index[OF assms(2-4)]
  have key: "key = em_receiveKey (srv_encryption s) e" "length key = 32"
    using assms(9) e(2) srv_invD(2)[OF assms(2)] by (simp_all add: client_keys_def keys_inv_def em_inv_def)
  have l: "lookup_origin from s = Some (int e, s)" using i(1) e by (simp add: lookup_origin_def index)
  have get: "getReceiveKey (srv_encryption s) (int e) = Some (Some key)" using e(1) key(1) by (simp add: getReceiveKey_def)
  have g: "(\<not> running s \<or> length (sealed_packet C p q key pid) \<le> 1) = False"
    using i(2) length_sealed_packet[OF assms(1), of p] by simp
  note read = readPacket_sealed[where allowed = serverAllowedPackets, OF assms(1,5,6) key(2) assms(7,8), of pid]
  obtain rp where rp: "replay_mark (Some (clientReplayProtection s i)) (packetType p) q = Some rp"
    by (simp add: replay_mark_def)
  show ?thesis
    unfolding server_ProcessPacket_def readAndProcessPacket_eq g
    using i(1) by (simp add: l get index read e(2) rp flip: assms(10))
qed

text \<open>A keep-alive confirms the client, a payload is also queued.\<close>

lemma keep_alive_confirms:
  assumes "crypto_ok C" and "srv_inv s" and "network_client s i" and "Equal (clientAddress s i) from"
    and "\<not> alreadyReceived (clientReplayProtection s i) q" and "key = snd (client_keys i s)" and "pid = ProtocolID (srv_config s)"
  shows "server_ProcessPacket C ts now from (sealed_packet C (ConnectionKeepAlive a b) q key pid) s = Some (note_received i
    (s\<lparr>clientReplayProtection := (clientReplayProtection s)(i := advanceSequence (clientReplayProtection s i) q)\<rparr>))"
proof -
  have "i < 256" using connected_range(1)[OF srv_invD(1)[OF assms(2)]] assms(3) by blast
  with process_known_sender[OF assms(1-4), of "ConnectionKeepAlive a b" q key pid ts now] assms(5-7)
  show ?thesis by (simp add: replay_blocks_def replay_mark_def server_processPacketInternal_def)
qed

lemma payload_queued:
  assumes "crypto_ok C" and "srv_inv s" and "network_client s i" and "Equal (clientAddress s i) from"
    and "\<not> alreadyReceived (clientReplayProtection s i) q" and "key = snd (client_keys i s)" and "pid = ProtocolID (srv_config s)"
    and "packet_ok (ConnectionPayload d)"
  shows "server_ProcessPacket C ts now from (sealed_packet C (ConnectionPayload d) q key pid) s = Some ((note_received i
    (s\<lparr>clientReplayProtection := (clientReplayProtection s)(i := advanceSequence (clientReplayProtection s i) q)\<rparr>))
    \<lparr>clientPacketQueue := (clientPacketQueue s)(i := snd (packetQueue_push (clientPacketQueue s i) d q))\<rparr>)"
proof -
  have "i < 256" using connected_range(1)[OF srv_invD(1)[OF assms(2)]] assms(3) by blast
  with process_known_sender[OF assms(1-4,8), of q key pid ts now] assms(5-7)
  show ?thesis by (simp add: replay_blocks_def replay_mark_def server_processPacketInternal_def note_received_def)
qed

subsection \<open>From a connect token to a connection\<close>

text \<open>A window that has seen only sequence numbers below the next one of the sender.\<close>

definition ahead :: "replayProtection \<Rightarrow> u64 \<Rightarrow> bool" where
  "ahead r q \<longleftrightarrow> mostRecentSequence r \<le> q \<and> (\<forall>j<replayProtectionBufferSize. receivedPacket r j = max_sequence \<or> receivedPacket r j < q)"

lemma ahead_new:
  assumes "ahead r q" shows "\<not> alreadyReceived r q"
proof -
  have "receivedPacket r (unat q mod 256) = max_sequence \<or> receivedPacket r (unat q mod 256) < q"
    using assms by (simp add: ahead_def)
  moreover have "\<not> q \<le> mostRecentSequence r - 256" if "256 \<le> mostRecentSequence r"
  proof -
    have "unat (mostRecentSequence r - 256) = unat (mostRecentSequence r) - 256" using unat_sub[OF that] by simp
    moreover have "256 \<le> unat (mostRecentSequence r)" using that by (simp add: word_le_nat_alt)
    moreover have "unat (mostRecentSequence r) \<le> unat q" using assms by (simp add: ahead_def word_le_nat_alt)
    ultimately show ?thesis by (simp add: word_le_nat_alt)
  qed
  ultimately show ?thesis by (auto simp: alreadyReceived_def Let_def)
qed

lemma ahead_reset [simp]: "ahead (replay_reset r) q"
  by (simp add: ahead_def replay_reset_def)

lemma ahead_advance:
  assumes "ahead r q" and "q < max_sequence"
  shows "ahead (advanceSequence r q) (q + 1)"
proof -
  have "Suc (unat q) < 2 ^ 64" using assms(2) by (simp add: word_less_nat_alt)
  then have "unat (q + 1) = unat q + 1" by (simp add: unat_word_ariths)
  then have step: "x \<le> q \<Longrightarrow> x < q + 1" for x by (simp add: word_le_nat_alt word_less_nat_alt)
  with assms(1) show ?thesis
    by (auto simp: ahead_def advanceSequence_def Let_def intro: less_imp_le)
qed

text \<open>Both ends of a connection agree on slot and keys, and the next packet of each is new to the other.\<close>

definition paired :: "Address \<Rightarrow> nat \<Rightarrow> Client \<Rightarrow> Server \<Rightarrow> bool" where
  "paired ca i c s \<longleftrightarrow> cl_state c = ClientStateConnected \<and> \<not> cl_loopback c \<and> network_client s i \<and> clientAddress s i = ca \<and>
     cl_clientIndex c = int i \<and> cl_maxClients c = maxClients s \<and> client_keys i s = (readPacketKey c, writePacketKey c) \<and>
     ct_protocolID (cl_connectToken c) = ProtocolID (srv_config s) \<and>
     ahead (clientReplayProtection s i) (cl_sequence c) \<and> ahead (cl_replayProtection c) (clientSequence s i)"

lemma connecting_fields [simp]:
  "cl_config (connecting T c) = cl_config c" "cl_state (connecting T c) = 1" "cl_time (connecting T c) = cl_time c"
  "connectStartTime (connecting T c) = cl_time c" "lastPacketSendTime (connecting T c) = cl_time c - 1"
  "lastPacketReceiveTime (connecting T c) = cl_time c" "\<not> shouldDisconnect (connecting T c)" "cl_sequence (connecting T c) = cl_sequence c"
  "cl_connectToken (connecting T c) = T" "serverAddress (connecting T c) = ct_serverAddresses T 0"
  "readPacketKey (connecting T c) = ct_serverToClientKey T" "writePacketKey (connecting T c) = ct_clientToServerKey T"
  "hasPacketKeys (connecting T c)" "cl_loopback (connecting T c) = cl_loopback c"
  "cl_replayProtection (connecting T c) = replay_reset (cl_replayProtection c)"
  "cl_socketIPv4 (connecting T c) = cl_socketIPv4 c" "cl_socketIPv6 (connecting T c) = cl_socketIPv6 c"
  by (simp_all add: connecting_def resetBeforeNextConnect_def)

lemma connecting_up:
  assumes "crypto_ok C" and "cl_reachable C c" and "cl_state c \<le> 0" and "connectToken_read (cl_connectToken c) bytes = Some (None, T)"
    and "ct_ok T" and "client_routed c (ct_serverAddresses T 0)" and "cl_receives (cl_config c)"
  shows "Connect C bytes c = Some (connecting T c)" "client_up (connecting T c)" "cl_sequence c = 0"
    "queue_list (packetReceiveQueue (connecting T c)) = []"
proof -
  have good: "cl_inv c" by (rule client.reach_inv[OF assms(2)])
  show connect: "Connect C bytes c = Some (connecting T c)" by (rule Connect_exact[OF assms(3,4)])
  have "cl_inv (connecting T c)" using client_Connect_ok[OF assms(1) good, of bytes] connect by auto
  moreover have "Equal (ct_serverAddresses T 0) (ct_serverAddresses T 0)"
    using assms(5) by (auto simp: ct_ok_def addresses_ok_def Equal_canonical)
  moreover have idle: "idle c" using good assms(3) by (simp add: cl_inv_def)
  ultimately show "client_up (connecting T c)"
    using assms(6,7) by (simp add: client_up_def idle_def client_routed_def)
  show "cl_sequence c = 0" "queue_list (packetReceiveQueue (connecting T c)) = []"
    using idle by (simp_all add: idle_def connecting_def resetBeforeNextConnect_def)
qed

lemma small_sint: "0 \<le> x \<Longrightarrow> x \<le> 256 \<Longrightarrow> sint (of_int x :: i32) = x"
  by (simp add: signed_of_int signed_take_bit_int_eq_self)

text \<open>The first two exchanges seat the client.\<close>

lemma handshake_exchanges:
  assumes "crypto_ok C" and "client_up c" and "cl_state c = 1" and "cl_sequence c = 0" and "T = cl_connectToken c"
    and "srv_inv s" and "running s" and "srv_flags s = 0" and "server_routed s ca"
    and "ct_protocolID T = ProtocolID (srv_config s)" and "length (ct_nonce T) = 24" and "length (ct_privateData T) = 1024"
    and "length opened = 1024" and "drop 1008 opened = drop 1008 (ct_privateData T)"
    and "decryptConnectTokenPrivate C (ct_privateData T) (ProtocolID (srv_config s)) (ct_expireTimestamp T) (ct_nonce T)
      (PrivateKey (srv_config s)) = Some (Inr opened)"
    and "connectTokenPrivate_read zeroConnectTokenPrivate opened = Some (None, u)"
    and "welcome_token now ca u (ct_expireTimestamp T) (drop 1008 (ct_privateData T)) s"
    and "ctp_serverToClientKey u = readPacketKey c" and "ctp_clientToServerKey u = writePacketKey c"
    and "lastPacketSendTime c + 1 / 10 < t1" and "settled (c\<lparr>cl_time := t1\<rparr>)" and "t1 + 1 / 10 < t2"
    and "t2 - connectStartTime c < token_lifetime c"
  shows "\<exists>r c' s1 s' i. exchange C now ca t1 ([], c, s) = Some r \<and>
    exchange C now ca t2 r = Some ([sealed_packet C (ConnectionKeepAlive (of_nat i) (of_int (maxClients s))) 0 (readPacketKey c) (ct_protocolID T)], c', s') \<and>
    client_up c' \<and> cl_state c' = 2 \<and> link c' = link c \<and> cl_sequence c' = 2 \<and> lastPacketSendTime c' = t2 \<and>
    cl_replayProtection c' = cl_replayProtection c \<and> srv_inv s1 \<and> srv_inv s' \<and> setup_kept s s' \<and> numConnectedClients s1 = numConnectedClients s \<and>
    seated C ca u (ct_expireTimestamp T) (drop 1008 (ct_privateData T)) i s1 s'"
proof -
  have ts: "now < ct_expireTimestamp T" using assms(17) by (simp add: welcome_token_def)
  obtain s1 d where s1: "server_ProcessPacket C now now ca (request_bytes (ProtocolID (srv_config s)) (ct_expireTimestamp T)
      (ct_nonce T) (ct_privateData T)) s = Some s1"
    "challenged C ca u (ct_expireTimestamp T) (drop 1008 (ct_privateData T)) d s s1"
    using request_step[OF assms(1,6-8,11-17) ts] by blast
  note kept = challengedD[OF s1(2)]
  obtain new where new: "srv_events s1 = srv_events s @ new" "sent_packets new = map (Pair ca)
      [sealed_packet C (ConnectionChallenge (challengeSequence s) d) (globalSequence s) (readPacketKey c) (ct_protocolID T)]"
    using s1(2) assms(9,10,18) by (auto simp: challenged_def delivered_routed)
  obtain c1 where c1: "exchange C now ca t1 ([], c, s) = Some ([sealed_packet C (ConnectionChallenge (challengeSequence s) d)
      (globalSequence s) (readPacketKey c) (ct_protocolID T)], c1, s1)" "advanced t1 c c1" "cl_state c1 = 1"
    "cl_replayProtection c1 = cl_replayProtection c"
    using request_exchange[OF assms(1-3,20,21,5) s1(1)[folded assms(10)] new] by blast
  have inv: "cl_inv c1" "link c1 = link c" using c1(2) by (simp_all add: advanced_def)
  note up1 = client_up_link[OF assms(2) inv(2,1)]
  have c1': "lastPacketSendTime c1 = t1" "cl_sequence c1 = 1" "cl_connectToken c1 = T" "connectStartTime c1 = connectStartTime c"
    "readPacketKey c1 = readPacketKey c" "writePacketKey c1 = writePacketKey c" "token_lifetime c1 = token_lifetime c"
    using c1(2) assms(4,5) by (simp_all add: advanced_def link_def token_lifetime_def)
  obtain s2 i where s2: "server_ProcessPacket C now now ca (sealed_packet C (ConnectionResponse (challengeSequence s) d) 1
      (ctp_clientToServerKey u) (ProtocolID (srv_config s))) s1 = Some s2" "srv_inv s2"
    "seated C ca u (ct_expireTimestamp T) (drop 1008 (ct_privateData T)) i s1 s2"
    using response_step[OF assms(1,7,8) s1(2) assms(17)] by blast
  obtain new2 where new2: "srv_events s2 = srv_events s1 @ new2" "sent_packets new2 = map (Pair ca)
      [sealed_packet C (ConnectionKeepAlive (of_nat i) (of_int (maxClients s))) 0 (readPacketKey c) (ct_protocolID T)]"
    using s2(3) assms(9,10,18) kept(3,4,9) by (auto simp: seated_def delivered_routed)
  have ok: "packet_ok (ConnectionChallenge (challengeSequence s) d)"
    using s1(2) by (simp add: challenged_def issued_def)
  obtain c2 where c2: "exchange C now ca t2 ([sealed_packet C (ConnectionChallenge (challengeSequence s) d) (globalSequence s)
      (readPacketKey c) (ct_protocolID T)], c1, s1) =
      Some ([sealed_packet C (ConnectionKeepAlive (of_nat i) (of_int (maxClients s))) 0 (readPacketKey c) (ct_protocolID T)], c2, s2)"
    "advanced t2 c1 c2" "cl_state c2 = 2" "cl_replayProtection c2 = cl_replayProtection c1"
    using response_exchange[OF assms(1) up1 c1(3) _ _ ok _ _ new2, of t2 "ct_protocolID T" now "globalSequence s"] s2(1) assms(10,19,22,23) c1'
    by auto
  have c2': "cl_inv c2" "link c2 = link c" "cl_sequence c2 = 2" "lastPacketSendTime c2 = t2"
    "cl_replayProtection c2 = cl_replayProtection c"
    using c2(2,4) c1(4) inv(2) c1'(2) by (simp_all add: advanced_def)
  have "srv_inv s1" using s1(2) by (simp add: challenged_def)
  moreover have "setup_kept s s2"
    using setup_kept_trans ProcessPacket_ok[OF assms(1,6), of now now ca] ProcessPacket_ok[OF assms(1) \<open>srv_inv s1\<close>, of now now ca] s1(1) s2(1)
    by (metis option.inject)
  ultimately show ?thesis
    using c1(1) c2(1,3) c2' client_up_link[OF assms(2) c2'(2,1)] s2(2,3) kept(5) by blast
qed

text \<open>The payloads that wait for the application, at the server and at the client.\<close>

definition server_queue :: "nat \<Rightarrow> Client \<times> Server \<Rightarrow> (byte list \<times> u64) list" where
  "server_queue i = (\<lambda>(c, s). queue_list (clientPacketQueue s i))"

definition client_queue :: "Client \<times> Server \<Rightarrow> (byte list \<times> u64) list" where
  "client_queue = (\<lambda>(c, s). queue_list (packetReceiveQueue c))"

text \<open>The times of the three updates: often enough, not too often, and before the token expires.\<close>

definition in_time :: "connectToken \<Rightarrow> float64 \<Rightarrow> float64 \<Rightarrow> float64 \<Rightarrow> float64 \<Rightarrow> bool" where
  "in_time T t0 t1 t2 t3 \<longleftrightarrow> t0 \<le> t1 \<and> t1 + 1 / packetSendRate < t2 \<and> t2 + 1 / packetSendRate < t3 \<and>
     t2 - t0 < of_nat (unat (ct_expireTimestamp T - ct_createTimestamp T)) \<and>
     (0 < sint (ct_timeoutSeconds T) \<longrightarrow> t1 \<le> t0 + of_int (sint (ct_timeoutSeconds T)))"

lemma in_time_settled:
  assumes "in_time T (cl_time c) t1 t2 t3"
  shows "settled ((connecting T c)\<lparr>cl_time := t1\<rparr>)" "t2 - connectStartTime (connecting T c) < token_lifetime (connecting T c)"
  using assms by (auto simp: in_time_def settled_def client_timed_out_def token_lifetime_def simp del: of_int_sint)

lemma last_exchange:
  assumes "crypto_ok C" and "client_up c" and "cl_state c = 2" and "cl_sequence c = 2" and "lastPacketSendTime c + 1 / 10 < t"
    and "cl_replayProtection c = replay_reset r" and "srv_inv s1" and "srv_inv s" and "seated C ca u expire mac i s1 s"
    and "Equal ca ca" and "ctp_serverToClientKey u = readPacketKey c" and "ctp_clientToServerKey u = writePacketKey c"
    and "ct_protocolID (cl_connectToken c) = ProtocolID (srv_config s)"
  shows "\<exists>c' s'. exchange C now ca t ([sealed_packet C (ConnectionKeepAlive (of_nat i) (of_int (maxClients s))) 0 (readPacketKey c)
      (ct_protocolID (cl_connectToken c))], c, s) = Some ([], c', s') \<and> paired ca i c' s' \<and> client_up c' \<and> link c' = link c \<and> cl_sequence c' = 3 \<and>
    s' = note_received i (s\<lparr>clientReplayProtection := (clientReplayProtection s)(i := advanceSequence (clientReplayProtection s i) 2)\<rparr>)"
proof -
  note seat = assms(9)[unfolded seated_def]
  have range: "int i < maxClients s" "maxClients s \<le> 256" "i < 256"
    using connected_range(1,2)[OF srv_invD(1)[OF assms(8)], of i] srv_invD(1)[OF assms(8)] seat by (auto simp: slots_inv_def split: if_splits)
  have small: "sint (of_nat i :: i32) = int i" "sint (of_int (maxClients s) :: i32) = maxClients s"
    using small_sint[of "int i"] small_sint[of "maxClients s"] range by simp_all
  have "clientReplayProtection s i = replay_reset (clientReplayProtection s1 i)"
    using seat srv_invD(4)[OF assms(7)] by (auto simp: fresh_inv_def fresh_replay_def)
  then obtain r' where fresh: "clientReplayProtection s i = replay_reset r'" by blast
  have seat: "network_client s i" "clientAddress s i = ca" "clientSequence s i = 1" "client_keys i s = (readPacketKey c, writePacketKey c)"
    using seat assms(11,12) by simp_all
  let ?s' = "note_received i (s\<lparr>clientReplayProtection := (clientReplayProtection s)(i := advanceSequence (clientReplayProtection s i) 2)\<rparr>)"
  have "server_ProcessPacket C now now ca (sealed_packet C (ConnectionKeepAlive 0 0) (cl_sequence c) (writePacketKey c)
      (ct_protocolID (cl_connectToken c))) s = Some ?s'"
    using keep_alive_confirms[OF assms(1,8), of i ca 2 "writePacketKey c" "ProtocolID (srv_config s)" now now 0 0] seat assms(4,10,13)
    by (simp add: fresh ahead_new)
  moreover have "srv_events ?s' = srv_events s @ []" "sent_packets [] = map (Pair ca) []" by (simp_all add: note_received_def)
  ultimately obtain c' where c': "exchange C now ca t ([sealed_packet C (ConnectionKeepAlive (of_nat i) (of_int (maxClients s))) 0 (readPacketKey c)
      (ct_protocolID (cl_connectToken c))], c, s) = Some ([], c', ?s')" "advanced t c c'" "cl_state c' = 3"
    "cl_replayProtection c' = advanceSequence (cl_replayProtection c) 0" "cl_clientIndex c' = int i" "cl_maxClients c' = maxClients s"
    using accept_exchange[OF assms(1-3,5), of 0 "ct_protocolID (cl_connectToken c)" now ca s ?s' "[]" "[]" "of_nat i" "of_int (maxClients s)"] assms(6) small by (auto simp: ahead_new)
  have "paired ca i c' ?s'"
    using c'(2-6) seat client_upD(3)[OF assms(2)] assms(4,6,13)
    ahead_advance[OF ahead_reset, of 0 r] ahead_advance[OF ahead_reset, of 2 r']
    by (auto simp: paired_def advanced_def link_def note_received_def fresh client_keys_def)
  moreover have "client_up c'" using client_up_link[OF assms(2)] c'(2) by (simp add: advanced_def)
  ultimately show ?thesis using c'(1,2) assms(4) by (auto simp: advanced_def)
qed

lemma connects:
  assumes "crypto_ok C" and "cl_reachable C c" and "cl_state c \<le> ClientStateDisconnected" and "cl_connectToken c = zeroConnectToken"
    and "srv_reachable C s" and "running s" and "srv_flags s = 0"
    and "GenerateConnectToken C created nonce k1 k2 public internal expireSeconds timeoutSeconds cid
      (ProtocolID (srv_config s)) (PrivateKey (srv_config s)) userData = Some (Inr bytes)"
    and "length nonce = connectTokenNonceBytes" and "length k1 = KeyBytes" and "length k2 = KeyBytes"
    and "unat created < 2 ^ 63" and "expireSeconds < 2 ^ 63"
    and "connectToken_read zeroConnectToken bytes = Some (None, T)"
    and "welcome_token now ca (private_token k1 k2 internal timeoutSeconds cid userData) (ct_expireTimestamp T)
      (drop (connectTokenPrivateBytes - MacBytes) (ct_privateData T)) s"
    and "client_routed c (parsed (hd public))" and "server_routed s ca" and "in_time T (cl_time c) t1 t2 t3"
    and "cl_receives (cl_config c)"
  shows "\<exists>c1 r1 r2 c' s' i. Connect C bytes c = Some c1 \<and> exchange C now ca t1 ([], c1, s) = Some r1 \<and>
    exchange C now ca t2 r1 = Some r2 \<and> exchange C now ca t3 r2 = Some ([], c', s') \<and>
    paired ca i c' s' \<and> clientConfirmed s' i \<and> clientID s' i = cid \<and>
    clientUserData s' i = copy_at (replicate UserDataBytes 0) 0 userData \<and>
    numConnectedClients s' = numConnectedClients s + 1 \<and>
    token_spent (connectTokenEntries s') (drop (connectTokenPrivateBytes - MacBytes) (ct_privateData T)) (ct_expireTimestamp T) \<and>
    server_queue i (c', s') = [] \<and> client_queue (c', s') = [] \<and> cl_sequence c' = 3 \<and> clientSequence s' i = 1 \<and>
    client_up c' \<and> srv_config s' = srv_config s"
proof -
  let ?u = "private_token k1 k2 internal timeoutSeconds cid userData" and ?c = "connecting T c" and ?pid = "ProtocolID (srv_config s)"
  let ?mac = "drop 1008 (ct_privateData T)"
  note inv = reachable_inv[OF assms(1,5)]
  have req: "token_request_ok public internal (PrivateKey (srv_config s)) userData"
    using token_refused[of public internal "PrivateKey (srv_config s)" userData C created nonce k1 k2 expireSeconds timeoutSeconds cid ?pid] assms(8) by auto
  obtain sealed opened where tok: "T = public_token created nonce k1 k2 sealed public expireSeconds timeoutSeconds ?pid"
    "ct_ok T" "length sealed = 1024" "length opened = 1024" "drop 1008 opened = drop 1008 sealed"
    "decryptConnectTokenPrivate C sealed ?pid (expire_timestamp created expireSeconds) nonce (PrivateKey (srv_config s)) = Some (Inr opened)"
    "connectTokenPrivate_read zeroConnectTokenPrivate opened = Some (None, ?u)"
    using token_generated[OF assms(1) _ _ _ assms(12,13) req, of nonce k1 k2 timeoutSeconds cid ?pid] assms(8-11,14) by auto
  have fields: "ct_protocolID T = ?pid" "ct_nonce T = nonce" "ct_privateData T = sealed"
    "ct_expireTimestamp T = expire_timestamp created expireSeconds" "ct_serverToClientKey T = k2" "ct_clientToServerKey T = k1"
    "ct_serverAddresses T 0 = parsed (hd public)"
    using req by (auto simp: tok(1) public_token_def token_request_ok_def hd_conv_nth)
  have u: "ctp_serverToClientKey ?u = k2" "ctp_clientToServerKey ?u = k1" "ctp_clientID ?u = cid"
    "ctp_userData ?u = copy_at (replicate 256 0) 0 userData"
    by (simp_all add: private_token_def generateConnectTokenPrivate_def)
  note start = connecting_up[OF assms(1,2) assms(3)[simplified], of bytes T]
  have start: "Connect C bytes c = Some ?c" "client_up ?c" "cl_sequence c = 0" "queue_list (packetReceiveQueue ?c) = []"
    using start assms(4,14,16,19) tok(2) fields(7) by simp_all
  have w: "welcome_token now ca ?u (ct_expireTimestamp T) ?mac s" using assms(15) by simp
  have times: "lastPacketSendTime ?c + 1 / 10 < t1" "t1 + 1 / 10 < t2" "t2 + 1 / 10 < t3" using assms(18) by (simp_all add: in_time_def)
  obtain r c2 s1 s2 i where r: "exchange C now ca t1 ([], ?c, s) = Some r"
    "exchange C now ca t2 r = Some ([sealed_packet C (ConnectionKeepAlive (of_nat i) (of_int (maxClients s))) 0 k2 ?pid], c2, s2)"
    "client_up c2" "cl_state c2 = 2" "link c2 = link ?c" "cl_sequence c2 = 2" "lastPacketSendTime c2 = t2"
    "cl_replayProtection c2 = cl_replayProtection ?c" "srv_inv s1" "srv_inv s2" "setup_kept s s2" "numConnectedClients s1 = numConnectedClients s"
    "seated C ca ?u (ct_expireTimestamp T) ?mac i s1 s2"
    using handshake_exchanges[OF assms(1) start(2) _ _ _ inv assms(6,7,17) _ _ _ tok(4), of T ?u now t1 t2]
      start(3) assms(9) tok(3,5-7) fields w u times in_time_settled[OF assms(18)] by auto
  have link: "readPacketKey c2 = k2" "writePacketKey c2 = k1" "cl_connectToken c2 = T" using r(5) fields by (simp_all add: link_def)
  have kept: "maxClients s2 = maxClients s" "srv_config s2 = srv_config s" using r(11) by (simp_all add: setup_kept_def)
  have "Equal ca ca" using w by (simp add: welcome_token_def)
  from last_exchange[OF assms(1) r(3,4,6) _ _ r(9,10,13) this, of t3 "cl_replayProtection c" now]
  obtain c3 s3 where "exchange C now ca t3 ([sealed_packet C (ConnectionKeepAlive (of_nat i) (of_int (maxClients s))) 0 k2 ?pid], c2, s2) = Some ([], c3, s3)"
    "paired ca i c3 s3" "client_up c3" "link c3 = link c2" "cl_sequence c3 = 3"
    "s3 = note_received i (s2\<lparr>clientReplayProtection := (clientReplayProtection s2)(i := advanceSequence (clientReplayProtection s2 i) 2)\<rparr>)"
    using r(7,8) times(3) link u(1,2) fields(1) kept by auto
  moreover have "numPackets (clientPacketQueue s2 i) = 0"
    using r(13) srv_invD(4)[OF r(9)] by (auto simp: seated_def fresh_inv_def)
  ultimately show ?thesis
    using start(1,4) r(1,2,5,12,13) u(3,4) kept(2)
    unfolding seated_def by (intro exI[of _ ?c] exI[of _ r] exI[of _ "(_, c2, s2)"] exI[of _ c3] exI[of _ s3] exI[of _ i])
      (simp add: note_received_def server_queue_def client_queue_def link_def queue_list_def)
qed

text \<open>
  C1: a connect token leads to a connection. Take any token that \<open>GenerateConnectToken\<close> made for a
  running server, a client that is not connected, and a server that has room and has not seen the
  token, the client ID or the address. The client connects with the token, and three exchanges over a
  lossless network later both sides are connected: client and server agree on the slot, the number
  of slots and the keys, the server holds the client ID and user data of the token, has confirmed
  the client, counts one client more and has recorded the token as used. The client has the callback
  that receives packets where it uses it.
\<close>

theorem connection_established:
  assumes "crypto_ok C" and "cl_reachable C c" and "cl_state c \<le> ClientStateDisconnected" and "cl_connectToken c = zeroConnectToken"
    and "srv_reachable C s" and "running s" and "srv_flags s = 0"
    and "GenerateConnectToken C created nonce k1 k2 public internal expireSeconds timeoutSeconds cid
      (ProtocolID (srv_config s)) (PrivateKey (srv_config s)) userData = Some (Inr bytes)"
    and "length nonce = connectTokenNonceBytes" and "length k1 = KeyBytes" and "length k2 = KeyBytes"
    and "unat created < 2 ^ 63" and "expireSeconds < 2 ^ 63"
    and "connectToken_read zeroConnectToken bytes = Some (None, T)"
    and "welcome_token now ca (private_token k1 k2 internal timeoutSeconds cid userData) (ct_expireTimestamp T)
      (drop (connectTokenPrivateBytes - MacBytes) (ct_privateData T)) s"
    and "client_routed c (parsed (hd public))" and "server_routed s ca" and "in_time T (cl_time c) t1 t2 t3"
    and "cl_receives (cl_config c)"
  shows "\<exists>c1 r1 r2 c' s' i. Connect C bytes c = Some c1 \<and> exchange C now ca t1 ([], c1, s) = Some r1 \<and>
    exchange C now ca t2 r1 = Some r2 \<and> exchange C now ca t3 r2 = Some ([], c', s') \<and>
    paired ca i c' s' \<and> clientConfirmed s' i \<and> clientID s' i = cid \<and>
    clientUserData s' i = copy_at (replicate UserDataBytes 0) 0 userData \<and>
    numConnectedClients s' = numConnectedClients s + 1 \<and>
    token_spent (connectTokenEntries s') (drop (connectTokenPrivateBytes - MacBytes) (ct_privateData T)) (ct_expireTimestamp T)"
  using connects[OF assms] by blast

subsection \<open>Payloads\<close>

text \<open>
  Payloads in both directions over the lossless network, in any order. A payload for the server is
  sent by the client and its packets are processed by the server, and the other way round.
\<close>

datatype traffic = ToServer "byte list" | ToClient "byte list"

fun carry :: "crypto \<Rightarrow> u64 \<Rightarrow> Address \<Rightarrow> nat \<Rightarrow> traffic \<Rightarrow> Client \<times> Server \<Rightarrow> (Client \<times> Server) option" where
  "carry C now ca i (ToServer d) (c, s) = do {
     c' \<leftarrow> client_SendPacket C d c;
     s' \<leftarrow> process_waiting C now (map (\<lambda>x. (ca, x, now)) (mail (serverAddress c) (cl_events c) (cl_events c'))) s;
     Some (c', s') }"
| "carry C now ca i (ToClient d) (c, s) = do {
     s' \<leftarrow> server_SendPacket C (int i) d s;
     c' \<leftarrow> client_process_waiting C (map (\<lambda>x. (serverAddress c, x, now)) (mail ca (srv_events s) (srv_events s'))) c;
     Some (c', s') }"

definition up :: "Address \<Rightarrow> nat \<Rightarrow> Client \<times> Server \<Rightarrow> bool" where
  "up ca i = (\<lambda>(c, s). cl_inv c \<and> srv_inv s \<and> paired ca i c s \<and> clientConfirmed s i \<and> client_routed c (serverAddress c) \<and>
     server_routed s ca \<and> Equal ca ca \<and> Equal (serverAddress c) (serverAddress c))"

lemma carry_to_server:
  assumes "crypto_ok C" and "up ca i (c, s)" and "0 < length d" and "length d \<le> 1200" and "cl_sequence c < max_sequence"
    and "length (server_queue i (c, s)) < 256"
  shows "\<exists>c' s'. carry C now ca i (ToServer d) (c, s) = Some (c', s') \<and> up ca i (c', s') \<and>
    server_queue i (c', s') = server_queue i (c, s) @ [(d, cl_sequence c)] \<and> client_queue (c', s') = client_queue (c, s) \<and>
    cl_sequence c' = cl_sequence c + 1 \<and> clientSequence s' i = clientSequence s i"
proof -
  have U: "cl_inv c" "srv_inv s" "paired ca i c s" "client_routed c (serverAddress c)" "Equal ca ca"
    using assms(2) by (simp_all add: up_def)
  note pr = U(3)[unfolded paired_def]
  let ?p = "ConnectionPayload d" and ?c = "sent C (ConnectionPayload d) c"
  have p: "packet_ok ?p" "sendable ?p" using assms(3,4) by (simp_all add: sendable_def Suc_le_eq)
  have send: "client_SendPacket C d c = Some ?c"
    using send_exact[OF assms(1) p(2), of c] U(1) pr assms(3,4) by (auto simp: client_SendPacket_def sent_def cl_inv_def)
  have key: "client_keys i s = (readPacketKey c, writePacketKey c)" using pr by simp
  have mail: "mail (serverAddress c) (cl_events c) (cl_events ?c) =
      [sealed_packet C ?p (cl_sequence c) (writePacketKey c) (ProtocolID (srv_config s))]"
    using cl_out_routed[OF U(4)] pr by (simp add: mail_def wire_def)
  let ?s1 = "s\<lparr>clientReplayProtection := (clientReplayProtection s)(i := advanceSequence (clientReplayProtection s i) (cl_sequence c))\<rparr>"
  let ?s = "(note_received i ?s1)\<lparr>clientPacketQueue := (clientPacketQueue s)(i := snd (packetQueue_push (clientPacketQueue s i) d (cl_sequence c)))\<rparr>"
  have process: "server_ProcessPacket C now now ca (sealed_packet C ?p (cl_sequence c) (writePacketKey c) (ProtocolID (srv_config s))) s = Some ?s"
    by (rule payload_queued[OF assms(1) U(2) _ _ _ _ refl p(1)]) (use pr U(5) key in \<open>auto simp: ahead_new\<close>)
  have q: "queue_inv (clientPacketQueue s i)" using srv_invD(4)[OF U(2)] by (simp add: fresh_inv_def)
  obtain q' where q': "packetQueue_push (clientPacketQueue s i) d (cl_sequence c) = (True, q')"
    "queue_list q' = queue_list (clientPacketQueue s i) @ [(d, cl_sequence c)]"
    using queue_push[OF q, of d "cl_sequence c"] assms(6) by (auto simp: server_queue_def)
  have "srv_inv ?s" using ProcessPacket_ok[OF assms(1) U(2), of now now ca] process by (metis option.inject)
  moreover have "cl_inv ?c" by (rule cl_inv_sent_packet[OF U(1)]) (use pr in simp)
  moreover have "paired ca i ?c ?s"
    using pr ahead_advance[of "clientReplayProtection s i" "cl_sequence c"] assms(5)
    by (simp add: paired_def note_received_def client_keys_def sent_def)
  ultimately have "up ca i (?c, ?s)"
    using assms(2) by (simp add: up_def note_received_def client_routed_def server_routed_def sent_def)
  moreover have "server_queue i (?c, ?s) = server_queue i (c, s) @ [(d, cl_sequence c)]"
    "client_queue (?c, ?s) = client_queue (c, s)" "clientSequence ?s i = clientSequence s i"
    using q' by (simp_all add: server_queue_def client_queue_def sent_def note_received_def)
  moreover have "carry C now ca i (ToServer d) (c, s) = Some (?c, ?s)"
    using send mail process by (simp flip: server_ProcessPacket_def)
  ultimately show ?thesis by (intro exI[of _ ?c] exI[of _ ?s]) simp
qed

lemma carry_to_client:
  assumes "crypto_ok C" and "up ca i (c, s)" and "0 < length d" and "length d \<le> 1200" and "clientSequence s i < max_sequence"
    and "length (client_queue (c, s)) < 256"
  shows "\<exists>c' s'. carry C now ca i (ToClient d) (c, s) = Some (c', s') \<and> up ca i (c', s') \<and>
    client_queue (c', s') = client_queue (c, s) @ [(d, clientSequence s i)] \<and> server_queue i (c', s') = server_queue i (c, s) \<and>
    cl_sequence c' = cl_sequence c \<and> clientSequence s' i = clientSequence s i + 1"
proof -
  have U: "cl_inv c" "srv_inv s" "paired ca i c s" "clientConfirmed s i" "client_routed c (serverAddress c)" "server_routed s ca"
    "Equal (serverAddress c) (serverAddress c)"
    using assms(2) by (simp_all add: up_def)
  note pr = U(3)[unfolded paired_def]
  let ?p = "ConnectionPayload d" and ?q = "clientSequence s i"
  have p: "packet_ok ?p" "\<not> is_request ?p" using assms(3,4) by (simp_all add: Suc_le_eq)
  have net: "network_client s i" using pr by blast
  have i: "i < 256" "int i < maxClients s" "running s" using connected_range[OF srv_invD(1)[OF U(2)]] net by blast+
  let ?x = "sealed_packet C ?p ?q (readPacketKey c) (ProtocolID (srv_config s))"
  obtain s' where s': "sendClientPacket C ?p (int i) s = Some s'" "srv_inv s'" "sends_only s [(ca, ?x)] s'"
    "clientSequence s' = (clientSequence s)(i := ?q + 1)"
    using sendClientPacket_exact[OF assms(1) p U(2) net] pr delivered_routed[OF U(6)] by auto
  obtain L new Q T where eq: "s' = s\<lparr>srv_encryption := (srv_encryption s)\<lparr>em_lastAccessTime := L\<rparr>, srv_events := srv_events s @ new,
       clientSequence := Q, clientLastPacketSendTime := T\<rparr>" "sent_packets new = [(ca, ?x)]"
    using s'(3) unfolding sends_only_def by blast
  have "slot_in_range (int i) s" using i by (simp add: slot_in_range_def)
  then have send: "server_SendPacket C (int i) d s = Some s'"
    using s'(1) assms(3,4) i net U(4) by (auto simp: server_SendPacket_def)
  have mail: "mail ca (srv_events s) (srv_events s') = [?x]" using eq by (simp add: mail_def)
  let ?q' = "snd (packetQueue_push (packetReceiveQueue c) d ?q)"
  let ?c = "c\<lparr>cl_replayProtection := advanceSequence (cl_replayProtection c) ?q, packetReceiveQueue := ?q', lastPacketReceiveTime := cl_time c\<rparr>"
  have linked: "hasPacketKeys c" "length (readPacketKey c) = 32" using U(1) pr by (auto simp: cl_inv_defs)
  have "client_ProcessPacket C now (serverAddress c) ?x c = Some ?c"
    by (subst client_takes[OF assms(1) p])
      (use linked pr U(7) in \<open>auto simp: replay_blocks_def ahead_new client_processPacketInternal_def\<close>)
  then have wait: "client_process_waiting C [(serverAddress c, ?x, now)] c = Some ?c" using routed_receives[OF U(5)] by simp
  have "cl_inv ?c" using client_process_waiting_ok[OF assms(1) U(1)] wait by (metis option.inject)
  moreover have "paired ca i ?c s'"
    using pr ahead_advance[of "cl_replayProtection c" ?q] assms(5) s'(4)
    by (simp add: paired_def client_keys_def eq(1))
  ultimately have "up ca i (?c, s')"
    using assms(2) s'(2) by (simp add: up_def client_routed_def server_routed_def eq(1))
  moreover have "client_queue (?c, s') = client_queue (c, s) @ [(d, ?q)]"
    using queue_push[of "packetReceiveQueue c" d ?q] U(1) assms(6) by (auto simp: client_queue_def cl_inv_def)
  moreover have "server_queue i (?c, s') = server_queue i (c, s)" by (simp add: server_queue_def eq(1))
  moreover have "carry C now ca i (ToClient d) (c, s) = Some (?c, s')" using send mail wait by simp
  ultimately show ?thesis using s'(4) by (intro exI[of _ ?c] exI[of _ s']) simp
qed

fun to_server :: "traffic list \<Rightarrow> byte list list" where
  "to_server [] = []"
| "to_server (ToServer d # ts) = d # to_server ts"
| "to_server (ToClient d # ts) = to_server ts"

fun to_client :: "traffic list \<Rightarrow> byte list list" where
  "to_client [] = []"
| "to_client (ToServer d # ts) = to_client ts"
| "to_client (ToClient d # ts) = d # to_client ts"

fun traffic_ok :: "traffic \<Rightarrow> bool" where
  "traffic_ok (ToServer d) \<longleftrightarrow> 0 < length d \<and> length d \<le> MaxPacketSize"
| "traffic_ok (ToClient d) \<longleftrightarrow> 0 < length d \<and> length d \<le> MaxPacketSize"

lemma unat_Suc_room: "unat (q :: u64) + Suc n < 2 ^ 64 \<Longrightarrow> q < max_sequence \<and> unat (q + 1) = Suc (unat q)"
  by (simp add: word_less_nat_alt unat_word_ariths)

lemma run_carry:
  assumes "crypto_ok C" and "up ca i (c, s)" and "list_all traffic_ok ts"
    and "length (server_queue i (c, s)) + length (to_server ts) \<le> 256" and "length (client_queue (c, s)) + length (to_client ts) \<le> 256"
    and "unat (cl_sequence c) + length ts < 2 ^ 64" and "unat (clientSequence s i) + length ts < 2 ^ 64"
  shows "\<exists>c' s'. run (carry C now ca i) ts (c, s) = Some (c', s') \<and> up ca i (c', s') \<and>
    map fst (server_queue i (c', s')) = map fst (server_queue i (c, s)) @ to_server ts \<and>
    map fst (client_queue (c', s')) = map fst (client_queue (c, s)) @ to_client ts"
  using assms(2-)
proof (induction ts arbitrary: c s)
  case (Cons t ts)
  show ?case
  proof (cases t)
    case (ToServer d)
    obtain c1 s1 where "carry C now ca i t (c, s) = Some (c1, s1)" "up ca i (c1, s1)"
      "server_queue i (c1, s1) = server_queue i (c, s) @ [(d, cl_sequence c)]" "client_queue (c1, s1) = client_queue (c, s)"
      "cl_sequence c1 = cl_sequence c + 1" "clientSequence s1 i = clientSequence s i"
      using carry_to_server[OF assms(1) Cons.prems(1), of d now] Cons.prems ToServer unat_Suc_room[of "cl_sequence c"] by auto
    with Cons.IH[of c1 s1] Cons.prems ToServer unat_Suc_room[of "cl_sequence c" "length ts"] show ?thesis by auto
  next
    case (ToClient d)
    obtain c1 s1 where "carry C now ca i t (c, s) = Some (c1, s1)" "up ca i (c1, s1)"
      "client_queue (c1, s1) = client_queue (c, s) @ [(d, clientSequence s i)]" "server_queue i (c1, s1) = server_queue i (c, s)"
      "cl_sequence c1 = cl_sequence c" "clientSequence s1 i = clientSequence s i + 1"
      using carry_to_client[OF assms(1) Cons.prems(1), of d now] Cons.prems ToClient unat_Suc_room[of "clientSequence s i"] by auto
    with Cons.IH[of c1 s1] Cons.prems ToClient unat_Suc_room[of "clientSequence s i" "length ts"] show ?thesis by auto
  qed
qed simp

text \<open>
  C12: a connection carries payloads in both directions. Client and server of a confirmed connection
  send any payloads of 1 to 1200 bytes to each other, in any order, over a lossless network. Every
  payload is queued for the application of the other side, in the order in which they were sent, as
  long as the queues of 256 have room; and the two sides stay connected.
\<close>

theorem payloads_arrive:
  assumes "crypto_ok C" and "cl_reachable C c" and "srv_reachable C s" and "paired ca i c s" and "clientConfirmed s i"
    and "client_routed c (serverAddress c)" and "server_routed s ca" and "Equal (serverAddress c) (serverAddress c)"
    and "list_all traffic_ok ts"
    and "numPackets (clientPacketQueue s i) + length (to_server ts) \<le> packetQueueSize"
    and "numPackets (packetReceiveQueue c) + length (to_client ts) \<le> packetQueueSize"
    and "unat (cl_sequence c) + length ts < 2 ^ 64" and "unat (clientSequence s i) + length ts < 2 ^ 64"
  shows "\<exists>c' s'. run (carry C now ca i) ts (c, s) = Some (c', s') \<and> paired ca i c' s' \<and>
    map fst (queue_list (clientPacketQueue s' i)) = map fst (queue_list (clientPacketQueue s i)) @ to_server ts \<and>
    map fst (queue_list (packetReceiveQueue c')) = map fst (queue_list (packetReceiveQueue c)) @ to_client ts"
proof -
  have inv: "cl_inv c" "srv_inv s"
    by (rule client.reach_inv[OF assms(2)]) (rule reachable_inv[OF assms(1,3)])
  have net: "network_client s i" "clientAddress s i = ca" using assms(4) by (auto simp: paired_def)
  have "Equal ca ca" using network_clientD[OF srv_invD(2)[OF inv(2)] net(1)] net(2) by (metis Equal_sym Equal_trans)
  then have "up ca i (c, s)" using inv assms(4-8) by (simp add: up_def)
  from run_carry[OF assms(1) this assms(9)] assms(10-13) show ?thesis
    by (fastforce simp: up_def server_queue_def client_queue_def)
qed

subsection \<open>Witnesses\<close>

lemma exchange_reachable:
  assumes "crypto_ok C" and "cl_reachable C c" and "srv_reachable C s" and "exchange C now ca t (inbox, c, s) = Some (out, c', s')"
  shows "cl_reachable C c'" "srv_reachable C s'"
proof -
  have process: "srv_reachable C s1 \<Longrightarrow> process_waiting C now w s1 = Some s2 \<Longrightarrow> srv_reachable C s2" for w s1 s2
  proof (induction w arbitrary: s1)
    case (Cons x w)
    obtain a d now' where x: "x = (a, d, now')" by (cases x)
    with Cons.prems(2) obtain s3 where s3: "server_ProcessPacket C now now' a d s1 = Some s3" "process_waiting C now w s3 = Some s2"
      by (auto simp: server_ProcessPacket_def split: bind_splits)
    have "srv_reachable C s3" using srv_called[OF Cons.prems(1) assms(1), of "CallProcessPacket now now' a d"] s3(1) by simp
    from Cons.IH[OF this s3(2)] show ?case .
  qed simp
  obtain w where "client_Update C t w c = Some c'" "\<exists>w'. process_waiting C now w' s = Some s'"
    using assms(4) by (auto simp: exchange_def split: bind_splits)
  with process[OF assms(3)] reachable.called[OF assms(2,1), of "ClientUpdate t w" c'] show "cl_reachable C c'" "srv_reachable C s'" by auto
qed

text \<open>A player at another address, with a token for the sample server.\<close>

definition sample_player :: Address where "sample_player = sample_address\<lparr>Port := 50000\<rparr>"

lemma sample_parsed: "parses ''127.0.0.1:40000''" "parsed ''127.0.0.1:40000'' = sample_address"
proof -
  have "Address_String sample_address = ''127.0.0.1:40000''"
    by (simp add: sample_address_def Address_String_def show_nat.simps digit_char_def)
  moreover have "ParseAddress (Address_String sample_address) = Some (Inr sample_address)"
    by (rule canonical_roundtrip[OF sample_address_canonical])
  ultimately show "parses ''127.0.0.1:40000''" "parsed ''127.0.0.1:40000'' = sample_address"
    by (simp_all add: parses_def parsed_def)
qed

abbreviation sample_generate :: "(error + byte list) option" where
  "sample_generate \<equiv> GenerateConnectToken checksum_crypto 100 (replicate 24 3) (replicate 32 5) (replicate 32 6)
     [''127.0.0.1:40000''] [''127.0.0.1:40000''] 99900 15 7 0x1122334455667788 (replicate 32 7) [1, 2, 3]"

lemma sample_generated:
  "\<exists>bytes T. sample_generate = Some (Inr bytes) \<and> connectToken_read zeroConnectToken bytes = Some (None, T) \<and>
    ct_expireTimestamp T = 100000 \<and> in_time T 0 0 1 2"
proof -
  have req: "token_request_ok [''127.0.0.1:40000''] [''127.0.0.1:40000''] (replicate 32 7) [1, 2, 3]"
    by (simp add: token_request_ok_def sample_parsed)
  have "in_time (public_token 100 (replicate 24 3) (replicate 32 5) (replicate 32 6) sealed [''127.0.0.1:40000''] 99900 15 0x1122334455667788) 0 0 1 2"
    "ct_expireTimestamp (public_token 100 (replicate 24 3) (replicate 32 5) (replicate 32 6) sealed [''127.0.0.1:40000''] 99900 15 0x1122334455667788) = 100000"
    for sealed
    by (simp_all add: in_time_def public_token_def expire_timestamp_def)
  with token_generated[where nonce = "replicate 24 3" and ?k1.0 = "replicate 32 5" and ?k2.0 = "replicate 32 6" and now = 100 and ex = 99900
      and tm = 15 and clientID = 7 and pid = "0x1122334455667788", OF checksum_crypto_ok _ _ _ _ _ req]
  show ?thesis by fastforce
qed

lemma sample_connection:
  assumes "sample_generate = Some (Inr bytes)" and "connectToken_read zeroConnectToken bytes = Some (None, T)"
    and "ct_expireTimestamp T = 100000" and "in_time T 0 0 1 2"
  shows "cl_state sample_client0 \<le> ClientStateDisconnected" "cl_connectToken sample_client0 = zeroConnectToken"
    "GenerateConnectToken checksum_crypto 100 (replicate 24 3) (replicate 32 5) (replicate 32 6) [''127.0.0.1:40000''] [''127.0.0.1:40000''] 99900 15 7
      (ProtocolID (srv_config sample_running)) (PrivateKey (srv_config sample_running)) [1, 2, 3] = Some (Inr bytes)"
    "welcome_token 100 sample_player (private_token (replicate 32 5) (replicate 32 6) [''127.0.0.1:40000''] 15 7 [1, 2, 3]) (ct_expireTimestamp T)
      (drop (connectTokenPrivateBytes - MacBytes) (ct_privateData T)) sample_running"
    "client_routed sample_client0 (parsed (hd [''127.0.0.1:40000'']))" "server_routed sample_running sample_player"
    "in_time T (cl_time sample_client0) 0 1 2" "cl_receives (cl_config sample_client0)"
proof -
  have "private_token (replicate 32 5) (replicate 32 6) [''127.0.0.1:40000''] 15 7 [1, 2, 3] = sample_private"
    by (simp add: private_token_def sample_private_def sample_parsed)
  moreover have "Equal sample_player sample_player" by (simp add: sample_player_def sample_address_def Equal_def)
  ultimately show "welcome_token 100 sample_player (private_token (replicate 32 5) (replicate 32 6) [''127.0.0.1:40000''] 15 7 [1, 2, 3])
      (ct_expireTimestamp T) (drop (connectTokenPrivateBytes - MacBytes) (ct_privateData T)) sample_running"
    using sample_welcome_from assms(3) by simp
qed (use assms in \<open>simp_all add: sample_client0_def new_client_def sample_config_def sample_cl_config_def client_routed_def server_routed_def cl_receives_def\<close>)

theorem connection_established_witness:
  "\<exists>bytes c1 r1 r2 c' s' i. sample_generate = Some (Inr bytes) \<and> Connect checksum_crypto bytes sample_client0 = Some c1 \<and>
    exchange checksum_crypto 100 sample_player 0 ([], c1, sample_running) = Some r1 \<and> exchange checksum_crypto 100 sample_player 1 r1 = Some r2 \<and>
    exchange checksum_crypto 100 sample_player 2 r2 = Some ([], c', s') \<and> paired sample_player i c' s' \<and> clientID s' i = 7"
proof -
  obtain bytes T where g: "sample_generate = Some (Inr bytes)" "connectToken_read zeroConnectToken bytes = Some (None, T)"
    "ct_expireTimestamp T = 100000" "in_time T 0 0 1 2" using sample_generated by blast
  note S = sample_connection[OF g]
  have "running sample_running" "srv_flags sample_running = 0" by simp_all
  from connection_established[OF checksum_crypto_ok sample_client0_reachable S(1,2) sample_reachable(2) this S(3) _ _ _ _ _ g(2) S(4-8)] g(1)
  show ?thesis by (simp del: packetQueueSize_def) blast
qed

theorem payloads_arrive_witness:
  "\<exists>c s c' s' i. cl_reachable checksum_crypto c \<and> srv_reachable checksum_crypto s \<and>
    run (carry checksum_crypto 100 sample_player i) [ToServer [1, 2], ToClient [3], ToServer [4]] (c, s) = Some (c', s') \<and>
    map fst (queue_list (clientPacketQueue s' i)) = [[1, 2], [4]] \<and> map fst (queue_list (packetReceiveQueue c')) = [[3]]"
proof -
  obtain bytes T where g: "sample_generate = Some (Inr bytes)" "connectToken_read zeroConnectToken bytes = Some (None, T)"
    "ct_expireTimestamp T = 100000" "in_time T 0 0 1 2" using sample_generated by blast
  note S = sample_connection[OF g]
  have r: "running sample_running" "srv_flags sample_running = 0" by simp_all
  obtain c1 b1 c2 s1 b2 c3 s2 c s i where ex: "Connect checksum_crypto bytes sample_client0 = Some c1"
    "exchange checksum_crypto 100 sample_player 0 ([], c1, sample_running) = Some (b1, c2, s1)"
    "exchange checksum_crypto 100 sample_player 1 (b1, c2, s1) = Some (b2, c3, s2)"
    "exchange checksum_crypto 100 sample_player 2 (b2, c3, s2) = Some ([], c, s)" "paired sample_player i c s" "clientConfirmed s i"
    "server_queue i (c, s) = []" "client_queue (c, s) = []" "cl_sequence c = 3" "clientSequence s i = 1" "client_up c" "srv_config s = srv_config sample_running"
    using connects[OF checksum_crypto_ok sample_client0_reachable S(1,2) sample_reachable(2) r S(3) _ _ _ _ _ g(2) S(4-8)] by fastforce
  have "cl_reachable checksum_crypto c1"
    using reachable.called[OF sample_client0_reachable checksum_crypto_ok, of "ClientConnect bytes"] ex(1) by simp
  note r1 = exchange_reachable[OF checksum_crypto_ok this sample_reachable(2) ex(2)]
  note r2 = exchange_reachable[OF checksum_crypto_ok r1 ex(3)]
  note r3 = exchange_reachable[OF checksum_crypto_ok r2 ex(4)]
  have "server_routed s sample_player" using ex(12) by (simp add: server_routed_def sample_config_def)
  from payloads_arrive[OF checksum_crypto_ok r3 ex(5,6) client_upD(6)[OF ex(11)] this client_upD(7)[OF ex(11)],
      of "[ToServer [1, 2], ToClient [3], ToServer [4]]" 100] ex(7-10) r3
  show ?thesis by (fastforce simp: server_queue_def client_queue_def simp flip: length_queue_list)
qed

end
