(* ===== verification/Server_Restart.thy ===== *)
theory Server_Restart
  imports Server_Properties Token_Generation
begin

text \<open>
  What a restart does to connect tokens. The history of used tokens is lost, so a started server
  refuses every token that may have been issued before it started.
\<close>

text \<open>Calls that do not restart the server keep the least expire timestamp it accepts.\<close>

lemma exec_keeps_minimum:
  assumes "crypto_ok C" and "srv_inv s" and "srv_exec C op s = Some s'" and "\<not> op_restarts op"
  shows "minConnectTokenExpireTimestamp s' = minConnectTokenExpireTimestamp s"
proof -
  note inv = assms(2)
  show ?thesis
  proof (cases op)
    case (CallUpdate t ts waiting)
    with Update_ok[OF assms(1) inv, of t ts waiting] Update_receives[of C t ts waiting s s'] assms(3) show ?thesis
      by (auto simp: setup_kept_def)
  next
    case (CallProcessPacket ts now a d)
    with ProcessPacket_ok[OF assms(1) inv, of ts now a d] assms(3) show ?thesis by (auto simp: setup_kept_def)
  next
    case (CallSendPacket k d)
    with SendPacket_kept[OF assms(1) inv, of k d s'] assms(3) show ?thesis by (auto simp: same_setup_def)
  next
    case (CallReceivePacket k)
    with ReceivePacket_ok[OF inv, of k] assms(3) show ?thesis by (auto simp: same_setup_def)
  next
    case (CallDisconnectClient k)
    with DisconnectClient_ok[OF assms(1) inv, of k] assms(3) show ?thesis by (auto simp: same_setup_def)
  next
    case CallDisconnectAllClients
    with DisconnectAllClients_ok[OF assms(1) inv] assms(3) show ?thesis by (auto simp: same_setup_def)
  next
    case (CallConnectLoopbackClient k x ud)
    with ConnectLoopbackClient_ok[OF inv, of k x ud] assms(3) show ?thesis by (auto simp: same_setup_def)
  next
    case (CallDisconnectLoopbackClient k)
    with DisconnectLoopbackClient_ok[OF inv, of k] assms(3) show ?thesis by (auto simp: same_setup_def)
  next
    case (CallProcessLoopbackPacket k d q)
    with ProcessLoopbackPacket_ok[OF inv, of k d q] assms(3) show ?thesis by (auto simp: same_setup_def)
  qed (use assms(4) in simp_all)
qed

lemma le_encode_inj: "le_encode 8 (a :: u64) = le_encode 8 b \<Longrightarrow> a = b"
  by (drule arg_cong[of _ _ "le_decode :: byte list \<Rightarrow> u64"]) simp

text \<open>A request with an earlier expire timestamp is not even decrypted.\<close>

lemma early_request_ignored:
  assumes "crypto_ok C" and "srv_inv s" and "expire < minConnectTokenExpireTimestamp s"
    and "length nonce = 24" and "length sealed = 1024"
  shows "\<exists>L. server_ProcessPacket C ts now from (request_bytes pid expire nonce sealed) s =
    Some (s\<lparr>srv_encryption := (srv_encryption s)\<lparr>em_lastAccessTime := L\<rparr>\<rparr>)"
proof -
  let ?buf = "request_bytes pid expire nonce sealed"
  have first: "?buf ! 0 = 0" by (simp add: request_bytes_def)
  have ignored: "\<exists>q. readPacket C ?buf key pid' ts (minConnectTokenExpireTimestamp s) priv serverAllowedPackets replay = Some (None, q, replay)"
    for key pid' priv replay
  proof (rule readPacket_cases[OF assms(1), of ?buf key pid' ts "minConnectTokenExpireTimestamp s" priv serverAllowedPackets replay])
    fix req assume "request_accept C ?buf pid' ts (minConnectTokenExpireTimestamp s) priv serverAllowedPackets req"
    then have "minConnectTokenExpireTimestamp s \<le> req_connectTokenExpireTimestamp req"
      "le_encode 8 expire = le_encode 8 (req_connectTokenExpireTimestamp req)"
      by (auto simp: request_accept_def request_bytes_def)
    then have "minConnectTokenExpireTimestamp s \<le> expire" by (auto dest: le_encode_inj)
    with assms(3) show ?thesis by simp
  next
    fix p q b rest assume "encrypted_accept C ?buf key pid' serverAllowedPackets replay p q"
    then show ?thesis using first by (auto simp: encrypted_accept_def header_ok_def)
  qed blast
  obtain k s1 L where s1: "lookup_origin from s = Some (k, s1)" "origin from k (findClientIndexByAddress from s) s1"
    "s1 = s\<lparr>srv_encryption := (srv_encryption s)\<lparr>em_lastAccessTime := L\<rparr>\<rparr>" "srv_inv s1"
    using lookup_ok[OF assms(2), of "from" 0 0] by (auto simp: packet_step_def)
  have same: "minConnectTokenExpireTimestamp s1 = minConnectTokenExpireTimestamp s"
    "s1\<lparr>clientReplayProtection := (clientReplayProtection s1)(j := clientReplayProtection s1 j)\<rparr> = s1" for j
    by (simp_all add: s1(3))
  obtain key where key: "getReceiveKey (srv_encryption s1) k = Some key"
    using s1(2) by (auto simp: origin_def getReceiveKey_def)
  show ?thesis
  proof (cases "running s")
    case True
    have g: "(\<not> running s \<or> length ?buf \<le> 1) = False" "(key = None \<and> ?buf ! 0 \<noteq> 0) = False"
      using True first by (simp_all add: assms(4,5))
    have "server_ProcessPacket C ts now from ?buf s = Some s1"
    proof (cases "findClientIndexByAddress from s = -1")
      case True
      obtain q where "readPacket C ?buf key (ProtocolID (srv_config s1)) ts (minConnectTokenExpireTimestamp s1)
          (Some (PrivateKey (srv_config s1))) serverAllowedPackets None = Some (None, q, None)"
        unfolding same(1) using ignored by blast
      then show ?thesis
        unfolding server_ProcessPacket_def readAndProcessPacket_eq by (simp only: g if_False s1(1) bind.bind_lunit prod.case key) (simp add: True)
    next
      case False
      then obtain i where i: "i < 256" "findClientIndexByAddress from s = int i" using s1(2) by (auto simp: origin_def)
      obtain q where "readPacket C ?buf key (ProtocolID (srv_config s1)) ts (minConnectTokenExpireTimestamp s1)
          (Some (PrivateKey (srv_config s1))) serverAllowedPackets (Some (clientReplayProtection s1 i)) = Some (None, q, Some (clientReplayProtection s1 i))"
        unfolding same(1) using ignored by blast
      then show ?thesis
        unfolding server_ProcessPacket_def readAndProcessPacket_eq
        by (simp only: g if_False s1(1) bind.bind_lunit prod.case key) (use i in \<open>simp add: same(2)\<close>)
    qed
    with s1(3) show ?thesis by blast
  next
    case False
    then have "server_ProcessPacket C ts now from ?buf s = Some (s\<lparr>srv_encryption := (srv_encryption s)\<lparr>em_lastAccessTime := em_lastAccessTime (srv_encryption s)\<rparr>\<rparr>)"
      by (simp add: server_ProcessPacket_def readAndProcessPacket_def)
    then show ?thesis by blast
  qed
qed

lemma issued_before:
  assumes "unat created < unat started" and "0 \<le> ex" and "ex \<le> lifetime" and "int (unat started) + lifetime < 2 ^ 64"
  shows "expire_timestamp created ex < started + of_int lifetime"
proof -
  have "int (unat created) < int (unat started)" using assms(1) by (simp only: of_nat_less_iff)
  then have u: "uint created < uint started" "0 \<le> uint created" "uint started + lifetime < 2 ^ 64"
    using assms(4) by simp_all
  have 1: "0 \<le> uint created + ex" "uint created + ex < 2 ^ 64" "0 \<le> uint started + lifetime" "uint started + lifetime < 2 ^ 64"
    "uint created + ex < uint started + lifetime"
    using u assms(2,3) by linarith+
  have add: "uint (w + of_int x) = (uint w + x) mod 2 ^ 64" for w :: u64 and x
  proof -
    have w: "w + of_int x = word_of_int (uint w + x)" by simp
    show ?thesis unfolding w uint_word_of_int by simp
  qed
  have "uint (created + of_int ex) = uint created + ex" "uint (started + of_int lifetime) = uint started + lifetime"
    unfolding add by (rule mod_pos_pos_trivial[OF 1(1,2)], rule mod_pos_pos_trivial[OF 1(3,4)])
  with 1(5) assms(2) show ?thesis by (simp add: expire_timestamp_def word_less_def)
qed

text \<open>
  C5: a restart opens no door for old connect tokens. A server that is started, again or for the first
  time, ignores every connection request whose token was issued before the start with at most the
  configured maximum lifetime: whatever calls happen after the start, the packet is not answered and
  changes no slot, no history entry, no key and no counter, at most the time a mapping was last looked
  up. So a token that was used before the restart cannot be used again.
\<close>

theorem restart_refuses_issued_tokens:
  assumes "crypto_ok C" and "srv_reachable C s" and "0 < slots" and "slots \<le> int MaxClients" and "length key = KeyBytes"
    and "Start C slots started key s = Some s1" and "run (srv_exec C) ops s1 = Some s2"
    and "\<forall>op \<in> set ops. op_typed op \<and> \<not> op_restarts op"
    and "unat created < unat started" and "0 \<le> expireSeconds" and "expireSeconds \<le> MaxConnectTokenLifetime (srv_config s)"
    and "int (unat started) + MaxConnectTokenLifetime (srv_config s) < 2 ^ 64"
    and "length nonce = connectTokenNonceBytes" and "length sealed = connectTokenPrivateBytes"
  shows "\<exists>L. server_ProcessPacket C ts now from (request_bytes pid (expire_timestamp created expireSeconds) nonce sealed) s2 =
    Some (s2\<lparr>srv_encryption := (srv_encryption s2)\<lparr>em_lastAccessTime := L\<rparr>\<rparr>)"
proof -
  have "srv_reachable C s1"
    using srv_called[OF assms(2,1), of "CallStart slots started key"] assms(5,6) by simp
  then have good: "srv_inv s1" by (rule server.reach_inv)
  note inv = reachable_inv[OF assms(1,2)]
  have min1: "minConnectTokenExpireTimestamp s1 = started + of_int (MaxConnectTokenLifetime (srv_config s))"
    using assms(3,4,6) Stop_ok[OF assms(1) inv] by (auto simp: Start_def split: if_splits bind_splits)
  have ops: "list_all (\<lambda>op. (crypto_ok C \<and> op_typed op) \<and> \<not> op_restarts op) ops" using assms(1,8) by (simp add: list_all_iff)
  have "minConnectTokenExpireTimestamp s2 = minConnectTokenExpireTimestamp s1"
    by (rule server.run_keeps[where P = "\<lambda>s. minConnectTokenExpireTimestamp s = minConnectTokenExpireTimestamp s1", OF good ops assms(7) refl])
      (simp add: exec_keeps_minimum[OF assms(1)])
  with issued_before[OF assms(9-12)] min1 have "expire_timestamp created expireSeconds < minConnectTokenExpireTimestamp s2" by simp
  moreover have "srv_inv s2"
    using server.run_inv[OF good, of C ops] assms(1,7,8) by (auto simp: list_all_iff)
  ultimately show ?thesis using assms(13,14) by (intro early_request_ignored[OF assms(1)]) simp_all
qed

theorem restart_refuses_issued_tokens_witness:
  "\<exists>s1 s2 L. Start checksum_crypto 4 5000 (replicate 32 2) sample_loopback = Some s1 \<and>
    server_Update checksum_crypto 1 5001 [] s1 = Some s2 \<and>
    server_ProcessPacket checksum_crypto 5001 5001 sample_address
      (request_bytes 0x1122334455667788 (expire_timestamp 4990 30) (replicate 24 0) (replicate 1024 0)) s2 =
        Some (s2\<lparr>srv_encryption := (srv_encryption s2)\<lparr>em_lastAccessTime := L\<rparr>\<rparr>)"
proof -
  note inv = reachable_inv[OF checksum_crypto_ok sample_loopback_reachable]
  have same: "srv_config sample_loopback = srv_config sample_running"
    using ConnectLoopbackClient_ok[of sample_running 2 99 "[1, 2, 3]"] sample_loopback_connect
      reachable_inv[OF checksum_crypto_ok sample_reachable(2)] by (auto simp: same_setup_def)
  then have "receives (srv_config sample_loopback)" by (simp add: receives_def sample_config_def)
  moreover obtain s1 where s1: "Start checksum_crypto 4 5000 (replicate 32 2) sample_loopback = Some s1" "srv_inv s1"
    "srv_config s1 = srv_config sample_loopback"
    using Start_ok[OF checksum_crypto_ok inv, of "replicate 32 2" 4 5000] by auto
  ultimately obtain s2 where s2: "server_Update checksum_crypto 1 5001 [] s1 = Some s2"
    using Update_ok[OF checksum_crypto_ok s1(2), of 1 5001 "[]"] by auto
  have life: "MaxConnectTokenLifetime (srv_config sample_loopback) = 30" using same by simp
  from restart_refuses_issued_tokens[OF checksum_crypto_ok sample_loopback_reachable _ _ _ s1(1), of "[CallUpdate 1 5001 []]" s2 4990 30
      "replicate 24 0" "replicate 1024 0" 5001 5001 sample_address "0x1122334455667788"] s1(1) s2 life
  show ?thesis by auto
qed

end
