(* ===== verification/Sockets.thy ===== *)
theory Sockets
  imports Transport Address_Text "HOL-Library.Sublist"
begin

text \<open>
  \<^verbatim>\<open>socket.go\<close>: opening a socket and the channel between the reader goroutine and \<open>Update\<close>. What the
  operating system answers to the system calls is a parameter, the record \<open>os\<close>. The reader and the
  receiver share the channel only; their runs are interleavings of the steps of the two.
\<close>

datatype os_error = EADDRINUSE | EACCES | OtherError

definition isBindError :: "os_error \<Rightarrow> bool" where
  "isBindError err \<longleftrightarrow> err = EADDRINUSE \<or> err = EACCES"

text \<open>
  The answers of the system: to binding a socket of the IPv6 or the IPv4 network to an address, which
  may depend on the connections there are (an error, or the local port if it can be told), and, for
  the connection with a handle, to setting the sizes of the buffers and the traffic class.
\<close>

record os =
  os_listen :: "conn_table \<Rightarrow> bool \<Rightarrow> Addr \<times> u16 \<Rightarrow> os_error + u16 option"
  os_SetWriteBuffer :: "nat \<Rightarrow> nat \<Rightarrow> bool"
  os_SetReadBuffer :: "nat \<Rightarrow> nat \<Rightarrow> bool"
  os_enablePacketTagging :: "nat \<Rightarrow> bool \<Rightarrow> bool"

definition clientSocketSndbufSize :: nat where [simp]: "clientSocketSndbufSize = 4 * 1024 * 1024"
definition clientSocketRcvbufSize :: nat where [simp]: "clientSocketRcvbufSize = 4 * 1024 * 1024"
definition serverSocketSndbufSize :: nat where [simp]: "serverSocketSndbufSize = 4 * 1024 * 1024"
definition serverSocketRcvbufSize :: nat where [simp]: "serverSocketRcvbufSize = 4 * 1024 * 1024"
definition socketPacketChannelSize :: nat where [simp]: "socketPacketChannelSize = 1024"

text \<open>The two back-off loops: halve the size until the system accepts it, and give up below 256 KiB.\<close>

function back_off :: "(nat \<Rightarrow> bool) \<Rightarrow> nat \<Rightarrow> nat option" where
  "back_off accepts bytes =
     (if accepts bytes then Some bytes
      else if bytes div 2 < 256 * 1024 then None
      else back_off accepts (bytes div 2))"
  by auto
termination
  by (relation "measure snd") auto

declare back_off.simps [simp del]

text \<open>
  \<open>ListenUDP\<close> opens a connection, and every failure after that closes it again. The error tells
  whether it was a bind failure.
\<close>

definition createSocket :: "os \<Rightarrow> bool \<Rightarrow> Address \<Rightarrow> nat \<Rightarrow> nat \<Rightarrow> conn_table \<Rightarrow> (bool + socket) \<times> conn_table" where
  "createSocket os packetTaggingEnabled address sendBufferSize receiveBufferSize conns =
     (let ipv6 = (Type address = AddressIPv6) in
      case os_listen os conns ipv6 (toNetip address) of
        Inl err \<Rightarrow> (Inl (isBindError err), conns)
      | Inr localPort \<Rightarrow>
          let conn = length conns; conns = conns @ [True] in
          if back_off (os_SetWriteBuffer os conn) sendBufferSize = None then (Inl False, UDPConn_Close conn conns)
          else if back_off (os_SetReadBuffer os conn) receiveBufferSize = None then (Inl False, UDPConn_Close conn conns)
          else if packetTaggingEnabled \<and> \<not> os_enablePacketTagging os conn ipv6 then (Inl False, UDPConn_Close conn conns)
          else (Inr \<lparr>sk_address = (case localPort of Some port \<Rightarrow> address\<lparr>Port := port\<rparr> | None \<Rightarrow> address),
                  sk_conn = conn, sk_open = True\<rparr>, conns))"

text \<open>
  The traffic class byte set on a tagged socket, and the DSCP codepoint such a byte carries in its
  upper six bits.
\<close>

definition tos :: u8 where "tos = 46"

definition dscp :: "u8 \<Rightarrow> u8" where "dscp b = drop_bit 2 b"

subsection \<open>The channel of received packets\<close>

text \<open>A packet read from the connection, or an error; \<open>ReadClosed\<close> is \<^verbatim>\<open>net.ErrClosed\<close>.\<close>

datatype read_result = Datagram Addr u16 "byte list" | ReadError | ReadClosed

record channel =
  ch_packets :: "(Address \<times> byte list) list"
  ch_reading :: bool

text \<open>
  One round of the reader loop. The connection cuts a datagram off at the size of the buffer. The
  loop ends when the connection is closed.
\<close>

definition readLoop_step :: "read_result \<Rightarrow> channel \<Rightarrow> channel" where
  "readLoop_step r ch =
     (if \<not> ch_reading ch then ch
      else case r of
        ReadClosed \<Rightarrow> ch\<lparr>ch_reading := False\<rparr>
      | ReadError \<Rightarrow> ch
      | Datagram addr port data \<Rightarrow>
          let buffer = take maxPacketBytes data in
          if length buffer \<le> 0 then ch
          else if length (ch_packets ch) < socketPacketChannelSize
          then ch\<lparr>ch_packets := ch_packets ch @ [(addressFromNetip addr port, buffer)]\<rparr>
          else ch)"

definition socket_receivePacket :: "channel \<Rightarrow> (Address \<times> byte list) option \<times> channel" where
  "socket_receivePacket ch =
     (case ch_packets ch of [] \<Rightarrow> (None, ch) | packet # rest \<Rightarrow> (Some packet, ch\<lparr>ch_packets := rest\<rparr>))"

text \<open>An interleaving of the reader with calls of \<open>receivePacket\<close>, and what the calls returned.\<close>

datatype channel_step = Read read_result | Receive

fun channel_run :: "channel_step list \<Rightarrow> channel \<Rightarrow> (Address \<times> byte list) list \<times> channel" where
  "channel_run [] ch = ([], ch)"
| "channel_run (Read r # steps) ch = channel_run steps (readLoop_step r ch)"
| "channel_run (Receive # steps) ch =
     (let (packet, ch) = socket_receivePacket ch; (packets, ch) = channel_run steps ch in
      (case packet of None \<Rightarrow> packets | Some p \<Rightarrow> p # packets, ch))"

subsection \<open>Properties\<close>

lemma tagged_codepoint: "dscp tos = 11"
  by (simp add: dscp_def tos_def)

lemma back_off_4M:
  "back_off accepts 4194304 = find accepts [4194304, 2097152, 1048576, 524288, 262144]"
  by (simp add: back_off.simps[of accepts 4194304] back_off.simps[of accepts 2097152] back_off.simps[of accepts 1048576]
      back_off.simps[of accepts 524288] back_off.simps[of accepts 262144])

text \<open>
  C35: opening a socket always comes to an end, after at most five sizes for each buffer. It succeeds
  exactly when the system binds the socket, accepts one of the sizes from 4 MiB down to 256 KiB for
  each buffer, and can set the traffic class if tagging is enabled. The socket then has the port the
  system reports and a new connection, which is open. A failure is a bind failure only if binding
  failed with the port in use or not permitted, and after any other failure the connection that was
  made is closed.
\<close>

theorem createSocket_spec:
  "createSocket os tagging address clientSocketSndbufSize clientSocketRcvbufSize conns =
    (case os_listen os conns (Type address = AddressIPv6) (toNetip address) of
       Inl err \<Rightarrow> (Inl (err = EADDRINUSE \<or> err = EACCES), conns)
     | Inr localPort \<Rightarrow>
         if (\<exists>n \<in> {4194304, 2097152, 1048576, 524288, 262144}. os_SetWriteBuffer os (length conns) n) \<and>
            (\<exists>n \<in> {4194304, 2097152, 1048576, 524288, 262144}. os_SetReadBuffer os (length conns) n) \<and>
            (if tagging then os_enablePacketTagging os (length conns) (Type address = AddressIPv6) else True)
         then (Inr \<lparr>sk_address = address\<lparr>Port := (case localPort of Some port \<Rightarrow> port | None \<Rightarrow> Port address)\<rparr>,
                 sk_conn = length conns, sk_open = True\<rparr>, conns @ [True])
         else (Inl False, conns @ [False]))"
proof -
  have found: "back_off accepts (4 * 1024 * 1024) = None \<longleftrightarrow> \<not> (\<exists>n \<in> {4194304, 2097152, 1048576, 524288, 262144}. accepts n)"
    for accepts using back_off_4M[of accepts] by (auto simp: find_None_iff)
  show ?thesis
    unfolding createSocket_def clientSocketSndbufSize_def clientSocketRcvbufSize_def Let_def found
    by (auto simp: isBindError_def UDPConn_Close_def split: sum.splits option.splits)
qed

fun arrivals :: "channel_step list \<Rightarrow> (Address \<times> byte list) list" where
  "arrivals [] = []"
| "arrivals (Read (Datagram addr port data) # steps) = (addressFromNetip addr port, take maxPacketBytes data) # arrivals steps"
| "arrivals (_ # steps) = arrivals steps"

lemma arrivals_Cons: "subseq (arrivals steps) (arrivals (s # steps))"
  by (cases "s # steps" rule: arrivals.cases) auto

lemma readLoop_step_cases:
  obtains "ch_packets (readLoop_step r ch) = ch_packets ch"
  | addr port data where "r = Datagram addr port data" "data \<noteq> []" "length (ch_packets ch) < 1024"
    "ch_packets (readLoop_step r ch) = ch_packets ch @ [(addressFromNetip addr port, take maxPacketBytes data)]"
proof (cases "\<exists>addr port data. r = Datagram addr port data \<and> data \<noteq> [] \<and> ch_reading ch \<and> length (ch_packets ch) < 1024")
  case False
  then have "ch_packets (readLoop_step r ch) = ch_packets ch"
    by (cases r) (auto simp: readLoop_step_def Let_def)
  then show thesis by (rule that(1))
qed (use that(2) in \<open>auto simp: readLoop_step_def\<close>)

text \<open>
  C36: the channel between the reader and \<open>Update\<close> is a bounded queue. However the reader and the calls
  of \<open>receivePacket\<close> interleave, what was received followed by what is still buffered is a
  subsequence of what was buffered at the start followed by the datagrams that arrived, in order and
  cut off at 1300 bytes; at most 1024 packets are ever buffered, and no packet is empty.
\<close>

theorem channel_bounded_fifo:
  assumes "length (ch_packets ch) \<le> socketPacketChannelSize" and "list_all (\<lambda>(a, d). d \<noteq> [] \<and> length d \<le> maxPacketBytes) (ch_packets ch)"
    and "channel_run steps ch = (received, ch')"
  shows "subseq (received @ ch_packets ch') (ch_packets ch @ arrivals steps) \<and>
    length (ch_packets ch') \<le> socketPacketChannelSize \<and>
    list_all (\<lambda>(a, d). d \<noteq> [] \<and> length d \<le> maxPacketBytes) (received @ ch_packets ch')"
  using assms
proof (induction steps arbitrary: ch received)
  case step: (Cons s steps)
  show ?case
  proof (cases s)
    case (Read r)
    show ?thesis
    proof (cases rule: readLoop_step_cases[of r ch])
      case 1
      with step.IH[of "readLoop_step r ch" received] step.prems Read
      have "subseq (received @ ch_packets ch') (ch_packets ch @ arrivals steps)"
        "length (ch_packets ch') \<le> 1024" "list_all (\<lambda>(a, d). d \<noteq> [] \<and> length d \<le> 1300) (received @ ch_packets ch')" by simp_all
      moreover have "subseq (ch_packets ch @ arrivals steps) (ch_packets ch @ arrivals (s # steps))"
        using arrivals_Cons by (simp add: subseq_append')
      ultimately show ?thesis using subseq_order.trans by auto
    next
      case (2 addr port data)
      with step.IH[of "readLoop_step r ch" received] step.prems Read show ?thesis by simp
    qed
  next
    case Receive
    show ?thesis
    proof (cases "ch_packets ch")
      case Nil
      with step.prems(3) Receive have "channel_run steps ch = (received, ch')"
        by (auto simp: socket_receivePacket_def split: prod.splits)
      with step.IH[of ch received] step.prems(1,2) Receive show ?thesis by simp
    next
      case (Cons p ps)
      then obtain rest where r: "received = p # rest" "channel_run steps (ch\<lparr>ch_packets := ps\<rparr>) = (rest, ch')"
        using step.prems(3) Receive by (auto simp: socket_receivePacket_def split: prod.splits)
      with step.IH[OF _ _ r(2)] step.prems(1,2) Cons Receive show ?thesis by simp
    qed
  qed
qed simp

theorem channel_bounded_fifo_witness:
  "\<exists>received ch'. channel_run [Read (Datagram (Addr4 [1, 2, 3, 4]) 9 [7]), Read ReadError, Receive, Receive, Read ReadClosed]
     \<lparr>ch_packets = [], ch_reading = True\<rparr> = (received, ch') \<and> received \<noteq> [] \<and>
     subseq (received @ ch_packets ch') [(addressFromNetip (Addr4 [1, 2, 3, 4]) 9, [7])]"
  using channel_bounded_fifo[of "\<lparr>ch_packets = [], ch_reading = True\<rparr>"
      "[Read (Datagram (Addr4 [1, 2, 3, 4]) 9 [7]), Read ReadError, Receive, Receive, Read ReadClosed]"]
  by (simp add: readLoop_step_def socket_receivePacket_def)

end
