(* ===== verification/Creation.thy ===== *)
theory Creation
  imports Sockets Server_Run Client_Inv
begin

text \<open>
  \<^verbatim>\<open>NewClientDual\<close> of \<^verbatim>\<open>client.go\<close> and \<^verbatim>\<open>NewServerDual\<close> of \<^verbatim>\<open>server.go\<close>: from two address strings and a
  configuration to a client or server with its sockets. The table of connections is passed through,
  so that it shows which of them a call leaves open.
\<close>

datatype create_error =
    ErrClientParseAddressFailed
  | ErrClientParseAddress2Failed
  | ErrClientSimulatorRequiresPort
  | ErrClientCreateSocketIPv4Failed
  | ErrClientCreateSocketIPv6Failed
  | ErrServerParseAddressFailed
  | ErrServerParseAddress2Failed
  | ErrServerCreateSocketIPv4Failed
  | ErrServerCreateSocketIPv6Failed
  | ErrServerBindSocketIPv4Failed
  | ErrServerBindSocketIPv6Failed

text \<open>The optional second address: an empty string leaves it zero.\<close>

definition parse_second :: "string \<Rightarrow> (error + Address) option" where
  "parse_second s = (if s \<noteq> [] then ParseAddress s else Some (Inr zeroAddress))"

subsection \<open>Clients\<close>

definition clientCreateSocket ::
  "os \<Rightarrow> bool \<Rightarrow> Address \<Rightarrow> ClientConfig \<Rightarrow> conn_table \<Rightarrow> (create_error + socket option) \<times> conn_table" where
  "clientCreateSocket os tagging address config conns =
     (if \<not> cc_NetworkSimulator config then
        if \<not> cc_OverrideSendAndReceive config then
          (case createSocket os tagging address clientSocketSndbufSize clientSocketRcvbufSize conns of
             (Inl _, conns) \<Rightarrow>
               (if Type address = AddressIPv6 then Inl ErrClientCreateSocketIPv6Failed else Inl ErrClientCreateSocketIPv4Failed, conns)
           | (Inr s, conns) \<Rightarrow> (Inr (Some s), conns))
        else (Inr None, conns)
      else if Port address = 0 then (Inl ErrClientSimulatorRequiresPort, conns)
      else (Inr None, conns))"

definition open_client_sockets ::
  "os \<Rightarrow> bool \<Rightarrow> Address \<Rightarrow> Address \<Rightarrow> ClientConfig \<Rightarrow> conn_table \<Rightarrow>
     (create_error + socket option \<times> socket option) \<times> conn_table" where
  "open_client_sockets os tagging address1 address2 config conns =
     (case (if Type address1 = AddressIPv4 \<or> Type address2 = AddressIPv4
            then clientCreateSocket os tagging (if Type address1 \<noteq> AddressIPv4 then address2 else address1) config conns
            else (Inr None, conns)) of
        (Inl err, conns) \<Rightarrow> (Inl err, conns)
      | (Inr s4, conns) \<Rightarrow>
          (case (if Type address1 = AddressIPv6 \<or> Type address2 = AddressIPv6
                 then clientCreateSocket os tagging (if Type address1 \<noteq> AddressIPv6 then address2 else address1) config conns
                 else (Inr None, conns)) of
             (Inl err, conns) \<Rightarrow> (Inl err, destroy_conn s4 conns)
           | (Inr s6, conns) \<Rightarrow> (Inr (s4, s6), conns)))"

text \<open>A nil configuration is the zero value.\<close>

definition zeroClientConfig :: ClientConfig where
  "zeroClientConfig = \<lparr>cc_NetworkSimulator = False, cc_StateChangeCallback = False, cc_SendLoopbackPacketCallback = False,
     cc_OverrideSendAndReceive = False, cc_SendPacketOverride = False, cc_ReceivePacketOverride = False\<rparr>"

definition NewClientDual ::
  "os \<Rightarrow> bool \<Rightarrow> string \<Rightarrow> string \<Rightarrow> ClientConfig option \<Rightarrow> float64 \<Rightarrow> conn_table \<Rightarrow> ((create_error + Client) \<times> conn_table) option" where
  "NewClientDual os tagging address1String address2String config time conns = do {
     let config = (case config of None \<Rightarrow> zeroClientConfig | Some config \<Rightarrow> config);
     parsed1 \<leftarrow> ParseAddress address1String;
     case parsed1 of
       Inl _ \<Rightarrow> Some (Inl ErrClientParseAddressFailed, conns)
     | Inr address1 \<Rightarrow> do {
         parsed2 \<leftarrow> parse_second address2String;
         case parsed2 of
           Inl _ \<Rightarrow> Some (Inl ErrClientParseAddress2Failed, conns)
         | Inr address2 \<Rightarrow>
             (case open_client_sockets os tagging address1 address2 config conns of
                (Inl err, conns) \<Rightarrow> Some (Inl err, conns)
              | (Inr (ipv4, ipv6), conns) \<Rightarrow> Some (Inr (new_client config address1 time ipv4 ipv6), conns)) } }"

definition NewClient ::
  "os \<Rightarrow> bool \<Rightarrow> string \<Rightarrow> ClientConfig option \<Rightarrow> float64 \<Rightarrow> conn_table \<Rightarrow> ((create_error + Client) \<times> conn_table) option" where
  "NewClient os tagging address config time conns = NewClientDual os tagging address [] config time conns"

subsection \<open>Servers\<close>

definition serverCreateSocket ::
  "os \<Rightarrow> bool \<Rightarrow> Address \<Rightarrow> ServerConfig \<Rightarrow> conn_table \<Rightarrow> (create_error + socket option) \<times> conn_table" where
  "serverCreateSocket os tagging address config conns =
     (if \<not> NetworkSimulator config \<and> \<not> OverrideSendAndReceive config then
        (case createSocket os tagging address serverSocketSndbufSize serverSocketRcvbufSize conns of
           (Inl bindFailed, conns) \<Rightarrow>
             (if Type address = AddressIPv6
              then if bindFailed then Inl ErrServerBindSocketIPv6Failed else Inl ErrServerCreateSocketIPv6Failed
              else if bindFailed then Inl ErrServerBindSocketIPv4Failed else Inl ErrServerCreateSocketIPv4Failed, conns)
         | (Inr s, conns) \<Rightarrow> (Inr (Some s), conns))
      else (Inr None, conns))"

text \<open>A server binds to the wildcard address of each family, with the port of the first address of that family.\<close>

definition bind_address :: "u8 \<Rightarrow> Address \<Rightarrow> Address \<Rightarrow> Address" where
  "bind_address family serverAddress1 serverAddress2 =
     zeroAddress\<lparr>Type := family, Port := (if Type serverAddress1 = family then Port serverAddress1 else Port serverAddress2)\<rparr>"

definition open_server_sockets ::
  "os \<Rightarrow> bool \<Rightarrow> Address \<Rightarrow> Address \<Rightarrow> ServerConfig \<Rightarrow> conn_table \<Rightarrow>
     (create_error + socket option \<times> socket option) \<times> conn_table" where
  "open_server_sockets os tagging serverAddress1 serverAddress2 config conns =
     (case (if Type serverAddress1 = AddressIPv4 \<or> Type serverAddress2 = AddressIPv4
            then serverCreateSocket os tagging (bind_address AddressIPv4 serverAddress1 serverAddress2) config conns
            else (Inr None, conns)) of
        (Inl err, conns) \<Rightarrow> (Inl err, conns)
      | (Inr s4, conns) \<Rightarrow>
          (case (if Type serverAddress1 = AddressIPv6 \<or> Type serverAddress2 = AddressIPv6
                 then serverCreateSocket os tagging (bind_address AddressIPv6 serverAddress1 serverAddress2) config conns
                 else (Inr None, conns)) of
             (Inl err, conns) \<Rightarrow> (Inl err, destroy_conn s4 conns)
           | (Inr s6, conns) \<Rightarrow> (Inr (s4, s6), conns)))"

definition zeroServerConfig :: ServerConfig where
  "zeroServerConfig = \<lparr>ProtocolID = 0, PrivateKey = replicate KeyBytes 0, MaxConnectTokenLifetime = 0, NetworkSimulator = False,
     ConnectDisconnectCallback = False, SendLoopbackPacketCallback = False, OverrideSendAndReceive = False,
     SendPacketOverride = False, ReceivePacketOverride = False\<rparr>"

definition NewServerDual ::
  "os \<Rightarrow> bool \<Rightarrow> string \<Rightarrow> string \<Rightarrow> ServerConfig option \<Rightarrow> float64 \<Rightarrow> conn_table \<Rightarrow> ((create_error + Server) \<times> conn_table) option" where
  "NewServerDual os tagging serverAddress1String serverAddress2String config time conns = do {
     let config = (case config of None \<Rightarrow> zeroServerConfig | Some config \<Rightarrow> config);
     parsed1 \<leftarrow> ParseAddress serverAddress1String;
     case parsed1 of
       Inl _ \<Rightarrow> Some (Inl ErrServerParseAddressFailed, conns)
     | Inr serverAddress1 \<Rightarrow> do {
         parsed2 \<leftarrow> parse_second serverAddress2String;
         case parsed2 of
           Inl _ \<Rightarrow> Some (Inl ErrServerParseAddress2Failed, conns)
         | Inr serverAddress2 \<Rightarrow>
             (case open_server_sockets os tagging serverAddress1 serverAddress2 (normalize_config config) conns of
                (Inl err, conns) \<Rightarrow> Some (Inl err, conns)
              | (Inr (ipv4, ipv6), conns) \<Rightarrow> Some (Inr (new_server config serverAddress1 serverAddress2 time ipv4 ipv6), conns)) } }"

definition NewServer ::
  "os \<Rightarrow> bool \<Rightarrow> string \<Rightarrow> ServerConfig option \<Rightarrow> float64 \<Rightarrow> conn_table \<Rightarrow> ((create_error + Server) \<times> conn_table) option" where
  "NewServer os tagging serverAddressString config time conns = NewServerDual os tagging serverAddressString [] config time conns"

subsection \<open>No connection is left behind\<close>

text \<open>
  Opening the socket of one family, if one is asked for: an error leaves the open connections as they
  were, a socket adds its connection to them.
\<close>

definition opens :: "bool \<Rightarrow> u8 \<Rightarrow> conn_table \<Rightarrow> ('e + socket option) \<times> conn_table \<Rightarrow> bool" where
  "opens wanted family conns r \<longleftrightarrow> length conns \<le> length (snd r) \<and>
     (case r of
        (Inl _, conns') \<Rightarrow> open_conns conns' = open_conns conns
      | (Inr None, conns') \<Rightarrow> \<not> wanted \<and> conns' = conns
      | (Inr (Some k), conns') \<Rightarrow> wanted \<and> sk_open k \<and> Type (sk_address k) = family \<and> sk_conn k = length conns \<and> conns' = conns @ [True])"

lemma createSocket_opens:
  "createSocket os tagging a n m conns = (r, conns') \<Longrightarrow>
    opens True (Type a) conns (case r of Inl e \<Rightarrow> Inl e | Inr k \<Rightarrow> Inr (Some k), conns')"
  by (auto simp: createSocket_def opens_def UDPConn_Close_def Let_def split: sum.splits if_splits option.splits)

lemma clientCreateSocket_opens:
  assumes "P \<Longrightarrow> Type a = family"
  shows "opens ((\<not> cc_NetworkSimulator config \<and> \<not> cc_OverrideSendAndReceive config) \<and> P) family conns
    (if P then clientCreateSocket os tagging a config conns else (Inr None, conns))"
  using assms createSocket_opens[of os tagging a clientSocketSndbufSize clientSocketRcvbufSize conns]
  by (auto simp: clientCreateSocket_def opens_def split: prod.splits sum.splits option.splits)

lemma serverCreateSocket_opens:
  assumes "P \<Longrightarrow> Type a = family"
  shows "opens ((\<not> NetworkSimulator config \<and> \<not> OverrideSendAndReceive config) \<and> P) family conns
    (if P then serverCreateSocket os tagging a config conns else (Inr None, conns))"
  using assms createSocket_opens[of os tagging a serverSocketSndbufSize serverSocketRcvbufSize conns]
  by (auto simp: serverCreateSocket_def opens_def split: prod.splits sum.splits option.splits)

text \<open>What the sockets of a new client or server are: one of each family that has an address, unless packets go elsewhere.\<close>

definition sockets_for :: "bool \<Rightarrow> Address \<Rightarrow> Address \<Rightarrow> socket option \<Rightarrow> socket option \<Rightarrow> bool" where
  "sockets_for used a1 a2 s4 s6 \<longleftrightarrow>
     (s4 \<noteq> None \<longleftrightarrow> used \<and> (Type a1 = AddressIPv4 \<or> Type a2 = AddressIPv4)) \<and>
     (s6 \<noteq> None \<longleftrightarrow> used \<and> (Type a1 = AddressIPv6 \<or> Type a2 = AddressIPv6)) \<and>
     (\<forall>s. s4 = Some s \<longrightarrow> sk_open s \<and> Type (sk_address s) = AddressIPv4) \<and>
     (\<forall>s. s6 = Some s \<longrightarrow> sk_open s \<and> Type (sk_address s) = AddressIPv6)"

text \<open>The open connections are those there were and one new one for each socket.\<close>

definition holds_conns :: "conn_table \<Rightarrow> socket option \<Rightarrow> socket option \<Rightarrow> conn_table \<Rightarrow> bool" where
  "holds_conns conns s4 s6 conns' \<longleftrightarrow>
     open_conns conns' = open_conns conns \<union> sk_conn ` (set_option s4 \<union> set_option s6) \<and>
     open_conns conns \<inter> sk_conn ` (set_option s4 \<union> set_option s6) = {} \<and>
     (\<forall>k4 k6. s4 = Some k4 \<longrightarrow> s6 = Some k6 \<longrightarrow> sk_conn k4 \<noteq> sk_conn k6)"

lemma opens_failed: "opens w f conns (Inl e, conns') \<Longrightarrow> open_conns conns' = open_conns conns"
  by (simp add: opens_def)

text \<open>The IPv6 socket fails after the IPv4 socket was opened, and that is closed.\<close>

lemma opens_undone:
  assumes "opens w4 f4 conns (Inr s4, conns1)" and "opens w6 f6 conns1 (Inl e, conns2)"
  shows "open_conns (destroy_conn s4 conns2) = open_conns conns"
  using assms open_conns_less[of _ conns]
  by (cases s4) (auto simp: opens_def destroy_conn_def dest: open_conns_less)

lemma opens_added:
  assumes "opens w f conns (Inr s, conns')"
  shows "open_conns conns' = open_conns conns \<union> sk_conn ` set_option s \<and> open_conns conns \<inter> sk_conn ` set_option s = {}"
  using assms open_conns_less[of "length conns" conns] by (cases s) (auto simp: opens_def)

lemma opens_both:
  assumes "opens (used \<and> (Type a1 = AddressIPv4 \<or> Type a2 = AddressIPv4)) AddressIPv4 conns (Inr s4, conns1)"
    and "opens (used \<and> (Type a1 = AddressIPv6 \<or> Type a2 = AddressIPv6)) AddressIPv6 conns1 (Inr s6, conns2)"
  shows "sockets_for used a1 a2 s4 s6 \<and> holds_conns conns s4 s6 conns2"
proof
  show "sockets_for used a1 a2 s4 s6"
    using assms by (cases s4; cases s6) (simp_all add: opens_def sockets_for_def)
  show "holds_conns conns s4 s6 conns2"
    using opens_added[OF assms(1)] opens_added[OF assms(2)] unfolding holds_conns_def by auto
qed

lemma open_client_sockets_cases:
  obtains (failed) e conns' where "open_client_sockets os tagging a1 a2 config conns = (Inl e, conns')" "open_conns conns' = open_conns conns"
  | (opened) s4 s6 conns' where "open_client_sockets os tagging a1 a2 config conns = (Inr (s4, s6), conns')"
      "sockets_for (\<not> cc_NetworkSimulator config \<and> \<not> cc_OverrideSendAndReceive config) a1 a2 s4 s6" "holds_conns conns s4 s6 conns'"
proof -
  define P4 P6 where "P4 \<longleftrightarrow> Type a1 = AddressIPv4 \<or> Type a2 = AddressIPv4" and "P6 \<longleftrightarrow> Type a1 = AddressIPv6 \<or> Type a2 = AddressIPv6"
  define b4 b6 where "b4 = (if Type a1 \<noteq> AddressIPv4 then a2 else a1)" and "b6 = (if Type a1 \<noteq> AddressIPv6 then a2 else a1)"
  note d = open_client_sockets_def[of os tagging a1 a2 config conns, folded P4_def P6_def b4_def b6_def]
  have t: "P4 \<Longrightarrow> Type b4 = AddressIPv4" "P6 \<Longrightarrow> Type b6 = AddressIPv6" by (auto simp: P4_def P6_def b4_def b6_def)
  obtain r4 conns1 where r4: "(if P4 then clientCreateSocket os tagging b4 config conns else (Inr None, conns)) = (r4, conns1)" by force
  obtain r6 conns2 where r6: "(if P6 then clientCreateSocket os tagging b6 config conns1 else (Inr None, conns1)) = (r6, conns2)" by force
  note o4 = clientCreateSocket_opens[of P4 b4 AddressIPv4 config conns os tagging, OF t(1), unfolded r4]
  note o6 = clientCreateSocket_opens[of P6 b6 AddressIPv6 config conns1 os tagging, OF t(2), unfolded r6]
  show thesis
  proof (cases r4)
    case (Inl e)
    with o4 r4 show thesis by (intro failed[of e conns1]) (simp_all add: d opens_failed)
  next
    case s4: (Inr s4)
    show thesis
    proof (cases r6)
      case (Inl e)
      with opens_undone[OF o4[unfolded s4] o6[unfolded Inl]] r4 r6 s4 show thesis
        by (intro failed[of e "destroy_conn s4 conns2"]) (simp_all add: d)
    next
      case s6: (Inr s6)
      with opens_both[OF o4[unfolded s4 P4_def] o6[unfolded s6 P6_def]] r4 r6 s4 show thesis
        by (intro opened[of s4 s6 conns2]) (simp_all add: d)
    qed
  qed
qed

lemma bind_address_Type [simp]: "Type (bind_address family a1 a2) = family"
  by (simp add: bind_address_def)

lemma open_server_sockets_cases:
  obtains (failed) e conns' where "open_server_sockets os tagging a1 a2 config conns = (Inl e, conns')" "open_conns conns' = open_conns conns"
  | (opened) s4 s6 conns' where "open_server_sockets os tagging a1 a2 config conns = (Inr (s4, s6), conns')"
      "sockets_for (\<not> NetworkSimulator config \<and> \<not> OverrideSendAndReceive config) a1 a2 s4 s6" "holds_conns conns s4 s6 conns'"
proof -
  define P4 P6 where "P4 \<longleftrightarrow> Type a1 = AddressIPv4 \<or> Type a2 = AddressIPv4" and "P6 \<longleftrightarrow> Type a1 = AddressIPv6 \<or> Type a2 = AddressIPv6"
  note d = open_server_sockets_def[of os tagging a1 a2 config conns, folded P4_def P6_def]
  obtain r4 conns1 where r4: "(if P4 then serverCreateSocket os tagging (bind_address AddressIPv4 a1 a2) config conns else (Inr None, conns)) = (r4, conns1)" by force
  obtain r6 conns2 where r6: "(if P6 then serverCreateSocket os tagging (bind_address AddressIPv6 a1 a2) config conns1 else (Inr None, conns1)) = (r6, conns2)" by force
  note o4 = serverCreateSocket_opens[of P4 "bind_address AddressIPv4 a1 a2" AddressIPv4 config conns os tagging, OF bind_address_Type, unfolded r4]
  note o6 = serverCreateSocket_opens[of P6 "bind_address AddressIPv6 a1 a2" AddressIPv6 config conns1 os tagging, OF bind_address_Type, unfolded r6]
  show thesis
  proof (cases r4)
    case (Inl e)
    with o4 r4 show thesis by (intro failed[of e conns1]) (simp_all add: d opens_failed)
  next
    case s4: (Inr s4)
    show thesis
    proof (cases r6)
      case (Inl e)
      with opens_undone[OF o4[unfolded s4] o6[unfolded Inl]] r4 r6 s4 show thesis
        by (intro failed[of e "destroy_conn s4 conns2"]) (simp_all add: d)
    next
      case s6: (Inr s6)
      with opens_both[OF o4[unfolded s4 P4_def] o6[unfolded s6 P6_def]] r4 r6 s4 show thesis
        by (intro opened[of s4 s6 conns2]) (simp_all add: d)
    qed
  qed
qed

lemma parse_second_total: "\<exists>r. parse_second s = Some r"
  using ParseAddress_total[of s] by (auto simp: parse_second_def)

text \<open>
  C37: creating a client or a server returns on any arguments and leaks no connection. An error leaves
  open exactly the connections that were open before, also when setting up a socket fails after its
  connection was made, or when the IPv6 socket fails after the IPv4 socket was opened. Otherwise the
  call has opened one new connection for each socket the client or server holds, and those sockets are
  one of each family for which an address was given, and none if packets go through the simulator or
  the override.
\<close>

theorem creation_leaks_no_connection:
  "(\<exists>r conns'. NewClientDual os tagging s1 s2 config time conns = Some (r, conns') \<and>
    (case r of
       Inl e \<Rightarrow> open_conns conns' = open_conns conns
     | Inr c \<Rightarrow> holds_conns conns (cl_socketIPv4 c) (cl_socketIPv6 c) conns' \<and> cl_state c = ClientStateDisconnected \<and>
         (\<exists>a1 a2. ParseAddress s1 = Some (Inr a1) \<and> parse_second s2 = Some (Inr a2) \<and>
            sockets_for (\<not> cc_NetworkSimulator (cl_config c) \<and> \<not> cc_OverrideSendAndReceive (cl_config c)) a1 a2
              (cl_socketIPv4 c) (cl_socketIPv6 c)))) \<and>
   (\<exists>r conns'. NewServerDual os tagging s1 s2 config' time conns = Some (r, conns') \<and>
    (case r of
       Inl e \<Rightarrow> open_conns conns' = open_conns conns
     | Inr s \<Rightarrow> holds_conns conns (socketIPv4 s) (socketIPv6 s) conns' \<and> \<not> running s \<and>
         (\<exists>a1 a2. ParseAddress s1 = Some (Inr a1) \<and> parse_second s2 = Some (Inr a2) \<and>
            sockets_for (\<not> NetworkSimulator (srv_config s) \<and> \<not> OverrideSendAndReceive (srv_config s)) a1 a2
              (socketIPv4 s) (socketIPv6 s))))"
proof -
  obtain r1 r2 where r: "ParseAddress s1 = Some r1" "parse_second s2 = Some r2"
    using ParseAddress_total[of s1] parse_second_total[of s2] by blast
  show ?thesis
  proof (cases "\<exists>a1 a2. r1 = Inr a1 \<and> r2 = Inr a2")
    case False
    then show ?thesis using r by (cases r1; cases r2) (simp_all add: NewClientDual_def NewServerDual_def)
  next
    case True
    then obtain a1 a2 where a: "r1 = Inr a1" "r2 = Inr a2" by blast
    let ?c = "case config of None \<Rightarrow> zeroClientConfig | Some config \<Rightarrow> config"
    let ?s = "case config' of None \<Rightarrow> zeroServerConfig | Some config \<Rightarrow> config"
    have "\<exists>r conns'. NewClientDual os tagging s1 s2 config time conns = Some (r, conns') \<and>
      (case r of Inl e \<Rightarrow> open_conns conns' = open_conns conns
       | Inr c \<Rightarrow> holds_conns conns (cl_socketIPv4 c) (cl_socketIPv6 c) conns' \<and> cl_state c = ClientStateDisconnected \<and>
         sockets_for (\<not> cc_NetworkSimulator (cl_config c) \<and> \<not> cc_OverrideSendAndReceive (cl_config c)) a1 a2
           (cl_socketIPv4 c) (cl_socketIPv6 c))"
      using r a by (cases rule: open_client_sockets_cases[of os tagging a1 a2 ?c conns])
        (simp_all add: NewClientDual_def new_client_def Let_def)
    moreover have "\<exists>r conns'. NewServerDual os tagging s1 s2 config' time conns = Some (r, conns') \<and>
      (case r of Inl e \<Rightarrow> open_conns conns' = open_conns conns
       | Inr s \<Rightarrow> holds_conns conns (socketIPv4 s) (socketIPv6 s) conns' \<and> \<not> running s \<and>
         sockets_for (\<not> NetworkSimulator (srv_config s) \<and> \<not> OverrideSendAndReceive (srv_config s)) a1 a2
           (socketIPv4 s) (socketIPv6 s))"
      using r a by (cases rule: open_server_sockets_cases[of os tagging a1 a2 "normalize_config ?s" conns])
        (simp_all add: NewServerDual_def new_server_def normalize_config_def Let_def)
    ultimately show ?thesis using r a by (simp cong: sum.case_cong)
  qed
qed

end
