(* ===== verification/Simulator.thy ===== *)
theory Simulator
  imports Machine Netcode_Package Address
begin

text \<open>
  \<^verbatim>\<open>simulator.go\<close>: the in-memory network with latency, jitter, loss and duplication. The random numbers
  are the program's own xorshift generator, word for word. Times and the 32 bit settings are
  rationals: the rounding of their sums is not modelled. An entry without packet data is a free
  entry; a copy of an empty packet is nil in Go, so an empty list stands for nil.
\<close>

type_synonym float32 = rat

definition simulatorNumPacketEntries :: nat where [simp]: "simulatorNumPacketEntries = MaxClients * 256"
definition simulatorNumPendingReceivePackets :: nat where [simp]: "simulatorNumPendingReceivePackets = MaxClients * 64"
definition simulatorRNGSeed :: u64 where "simulatorRNGSeed = 0x9E3779B97F4A7C15"

record simulatorPacketEntry =
  pe_from :: Address
  pe_to :: Address
  pe_deliveryTime :: float64
  pe_packetData :: "byte list"

definition zeroPacketEntry :: simulatorPacketEntry where
  "zeroPacketEntry = \<lparr>pe_from = zeroAddress, pe_to = zeroAddress, pe_deliveryTime = 0, pe_packetData = []\<rparr>"

record Simulator =
  LatencyMilliseconds :: float32
  JitterMilliseconds :: float32
  PacketLossPercent :: float32
  DuplicatePacketPercent :: float32
  rngState :: u64
  sim_time :: float64
  currentIndex :: int
  numPendingReceivePackets :: int
  packetEntries :: "simulatorPacketEntry arr"
  pendingReceivePackets :: "simulatorPacketEntry arr"

definition NewNetworkSimulator :: Simulator where
  "NewNetworkSimulator = \<lparr>LatencyMilliseconds = 0, JitterMilliseconds = 0, PacketLossPercent = 0, DuplicatePacketPercent = 0,
     rngState = simulatorRNGSeed, sim_time = 0, currentIndex = 0, numPendingReceivePackets = 0,
     packetEntries = (\<lambda>_. zeroPacketEntry), pendingReceivePackets = (\<lambda>_. zeroPacketEntry)\<rparr>"

definition simulator_Reset :: "Simulator \<Rightarrow> Simulator option" where
  "simulator_Reset sim = do {
     let sim = sim\<lparr>packetEntries := (\<lambda>_. zeroPacketEntry)\<rparr>;
     sim \<leftarrow> for_range (\<lambda>i sim. do {
         k \<leftarrow> idx simulatorNumPendingReceivePackets (int i);
         Some (sim\<lparr>pendingReceivePackets := (pendingReceivePackets sim)(k := zeroPacketEntry)\<rparr>) })
       0 (nat (numPendingReceivePackets sim)) sim;
     Some (sim\<lparr>currentIndex := 0, numPendingReceivePackets := 0, rngState := simulatorRNGSeed\<rparr>) }"

definition randomUint64 :: "Simulator \<Rightarrow> u64 \<times> Simulator" where
  "randomUint64 sim =
     (let x = rngState sim;
          x = x XOR drop_bit 12 x;
          x = x XOR push_bit 25 x;
          x = x XOR drop_bit 27 x
      in (x * 0x2545F4914F6CDD1D, sim\<lparr>rngState := x\<rparr>))"

definition randomFloat :: "float32 \<Rightarrow> float32 \<Rightarrow> Simulator \<Rightarrow> float32 \<times> Simulator" where
  "randomFloat a b sim =
     (let (r, sim) = randomUint64 sim; random = of_nat (unat (drop_bit 40 r)) / 2 ^ 24
      in (a + random * (b - a), sim))"

definition queuePacket :: "Address \<Rightarrow> Address \<Rightarrow> byte list \<Rightarrow> float32 \<Rightarrow> Simulator \<Rightarrow> Simulator option" where
  "queuePacket from to packetData delay sim = do {
     k \<leftarrow> idx simulatorNumPacketEntries (currentIndex sim);
     Some (sim\<lparr>packetEntries := (packetEntries sim)(k := \<lparr>pe_from = from, pe_to = to, pe_deliveryTime = sim_time sim + delay,
         pe_packetData = packetData\<rparr>),
       currentIndex := (currentIndex sim + 1) mod int simulatorNumPacketEntries\<rparr>) }"

definition simulator_SendPacket :: "Address \<Rightarrow> Address \<Rightarrow> byte list \<Rightarrow> Simulator \<Rightarrow> Simulator option" where
  "simulator_SendPacket from to packetData sim =
     (let (loss, sim) = randomFloat 0 100 sim in
      if loss \<le> PacketLossPercent sim then Some sim
      else
        let delay = LatencyMilliseconds sim / 1000;
            (delay, sim) = (if JitterMilliseconds sim > 0
              then let (jitter, sim) = randomFloat (- JitterMilliseconds sim) (JitterMilliseconds sim) sim in (delay + jitter / 1000, sim)
              else (delay, sim))
        in do {
          sim \<leftarrow> queuePacket from to packetData delay sim;
          let (duplicate, sim) = randomFloat 0 100 sim;
          if duplicate \<le> DuplicatePacketPercent sim then
            let (extra, sim) = randomFloat 0 1 sim in queuePacket from to packetData (delay + extra) sim
          else Some sim })"

text \<open>The loop of \<open>ReceivePackets\<close>: index, rounds left, packets found so far.\<close>

fun receive_loop ::
  "nat \<Rightarrow> nat \<Rightarrow> Address \<Rightarrow> int \<Rightarrow> (byte list \<times> Address) list \<Rightarrow> Simulator \<Rightarrow> ((byte list \<times> Address) list \<times> Simulator) option" where
  "receive_loop i 0 to maxPackets found sim = Some (found, sim)"
| "receive_loop i (Suc n) to maxPackets found sim =
     (if int (length found) = maxPackets then Some (found, sim)
      else do {
        k \<leftarrow> idx simulatorNumPendingReceivePackets (int i);
        let entry = pendingReceivePackets sim k;
        if pe_packetData entry = [] then receive_loop (Suc i) n to maxPackets found sim
        else if \<not> Equal (pe_to entry) to then receive_loop (Suc i) n to maxPackets found sim
        else receive_loop (Suc i) n to maxPackets (found @ [(pe_packetData entry, pe_from entry)])
          (sim\<lparr>pendingReceivePackets := (pendingReceivePackets sim)(k := entry\<lparr>pe_packetData := []\<rparr>)\<rparr>) })"

definition simulator_ReceivePackets :: "Address \<Rightarrow> int \<Rightarrow> Simulator \<Rightarrow> ((byte list \<times> Address) list \<times> Simulator) option" where
  "simulator_ReceivePackets to maxPackets sim = receive_loop 0 (nat (numPendingReceivePackets sim)) to maxPackets [] sim"

text \<open>The loop of \<open>Update\<close> over the packets in flight: index, rounds left.\<close>

fun update_loop :: "nat \<Rightarrow> nat \<Rightarrow> float64 \<Rightarrow> Simulator \<Rightarrow> Simulator option" where
  "update_loop i 0 time sim = Some sim"
| "update_loop i (Suc n) time sim =
     (if pe_packetData (packetEntries sim i) = [] then update_loop (Suc i) n time sim
      else if numPendingReceivePackets sim = int simulatorNumPendingReceivePackets then Some sim
      else if pe_deliveryTime (packetEntries sim i) \<le> time then do {
        k \<leftarrow> idx simulatorNumPendingReceivePackets (numPendingReceivePackets sim);
        update_loop (Suc i) n time
          (sim\<lparr>pendingReceivePackets := (pendingReceivePackets sim)(k := packetEntries sim i),
            numPendingReceivePackets := numPendingReceivePackets sim + 1,
            packetEntries := (packetEntries sim)(i := (packetEntries sim i)\<lparr>pe_packetData := []\<rparr>)\<rparr>) }
      else update_loop (Suc i) n time sim)"

definition simulator_Update :: "float64 \<Rightarrow> Simulator \<Rightarrow> Simulator option" where
  "simulator_Update time sim = do {
     let sim = sim\<lparr>sim_time := time\<rparr>;
     sim \<leftarrow> for_range (\<lambda>i sim. do {
         k \<leftarrow> idx simulatorNumPendingReceivePackets (int i);
         Some (sim\<lparr>pendingReceivePackets := (pendingReceivePackets sim)(k := (pendingReceivePackets sim k)\<lparr>pe_packetData := []\<rparr>)\<rparr>) })
       0 (nat (numPendingReceivePackets sim)) sim;
     let sim = sim\<lparr>numPendingReceivePackets := 0\<rparr>;
     update_loop 0 simulatorNumPacketEntries time sim }"

subsection \<open>The loops\<close>

definition mapped :: "(simulatorPacketEntry \<Rightarrow> simulatorPacketEntry) \<Rightarrow> nat \<Rightarrow> nat \<Rightarrow> simulatorPacketEntry arr \<Rightarrow> simulatorPacketEntry arr" where
  "mapped g i n p = (\<lambda>k. if i \<le> k \<and> k < i + n then g (p k) else p k)"

lemma mapped_simps: "mapped g i 0 p = p" "mapped g i (Suc n) p = mapped g (Suc i) n (p(i := g (p i)))"
  by (rule ext; auto simp: mapped_def)+

lemma pending_loop:
  "i + n \<le> 16384 \<Longrightarrow> for_range (\<lambda>i sim. do {
      k \<leftarrow> idx simulatorNumPendingReceivePackets (int i);
      Some (sim\<lparr>pendingReceivePackets := (pendingReceivePackets sim)(k := g (pendingReceivePackets sim k))\<rparr>) }) i n sim =
    Some (sim\<lparr>pendingReceivePackets := mapped g i n (pendingReceivePackets sim)\<rparr>)"
  by (induction n arbitrary: i sim) (simp_all add: mapped_simps)

text \<open>The packets in flight that are due at the given time, and those of a family of entries that one receiver asks for.\<close>

definition due :: "float64 \<Rightarrow> simulatorPacketEntry arr \<Rightarrow> nat \<Rightarrow> bool" where
  "due t entries i \<longleftrightarrow> pe_packetData (entries i) \<noteq> [] \<and> pe_deliveryTime (entries i) \<le> t"

definition for_receiver :: "Address \<Rightarrow> simulatorPacketEntry \<Rightarrow> bool" where
  "for_receiver to entry \<longleftrightarrow> pe_packetData entry \<noteq> [] \<and> Equal (pe_to entry) to"

definition taken :: "nat set \<Rightarrow> simulatorPacketEntry arr \<Rightarrow> simulatorPacketEntry arr" where
  "taken D entries = (\<lambda>j. if j \<in> D then (entries j)\<lparr>pe_packetData := []\<rparr> else entries j)"

definition filled :: "nat \<Rightarrow> simulatorPacketEntry list \<Rightarrow> simulatorPacketEntry arr \<Rightarrow> simulatorPacketEntry arr" where
  "filled m es pending = (\<lambda>k. if m \<le> k \<and> k < m + length es then es ! (k - m) else pending k)"

lemma filled_simps: "filled m [] p = p" "filled m (e # es) p = filled (Suc m) es (p(m := e))"
  by (rule ext; auto simp: filled_def nth_Cons' not_less_eq_eq)+

lemma taken_simps: "taken {} es = es" "j \<notin> D \<Longrightarrow> taken D (es(j := (es j)\<lparr>pe_packetData := []\<rparr>)) = taken (insert j D) es"
  by (rule ext; auto simp: taken_def)+

lemma update_loop_eq:
  assumes "0 \<le> numPendingReceivePackets sim" and "numPendingReceivePackets sim \<le> 16384"
  shows "update_loop i n time sim =
    (let m = nat (numPendingReceivePackets sim); D = take (16384 - m) (filter (due time (packetEntries sim)) [i..<i + n]) in
     Some (sim\<lparr>pendingReceivePackets := filled m (map (packetEntries sim) D) (pendingReceivePackets sim),
       numPendingReceivePackets := numPendingReceivePackets sim + int (length D),
       packetEntries := taken (set D) (packetEntries sim)\<rparr>))"
  using assms
proof (induction n arbitrary: i sim)
  case 0
  then show ?case by (simp add: filled_simps taken_simps)
next
  case (Suc n)
  let ?m = "numPendingReceivePackets sim" and ?e = "packetEntries sim"
  have upt: "[i..<i + Suc n] = i # [Suc i..<Suc i + n]" by (simp add: upt_conv_Cons)
  consider "\<not> due time ?e i" "?m < 16384 \<or> pe_packetData (?e i) = []" | "?m = 16384" "pe_packetData (?e i) \<noteq> []"
    | "due time ?e i" "?m < 16384"
    using Suc.prems(2) by (cases "?m = 16384") (auto simp: due_def)
  then show ?case
  proof cases
    case 1
    then have skip: "update_loop i (Suc n) time sim = update_loop (Suc i) n time sim" by (auto simp: due_def)
    have f: "filter (due time ?e) (i # js) = filter (due time ?e) js" for js using 1(1) by simp
    show ?thesis unfolding upt f skip by (rule Suc.IH[OF Suc.prems])
  next
    case 2
    then show ?thesis by (simp add: filled_simps taken_simps)
  next
    case 3
    define sim1 where "sim1 = sim\<lparr>pendingReceivePackets := (pendingReceivePackets sim)(nat ?m := ?e i),
      numPendingReceivePackets := ?m + 1, packetEntries := ?e(i := (?e i)\<lparr>pe_packetData := []\<rparr>)\<rparr>"
    define D where "D = take (16384 - nat (?m + 1)) (filter (due time ?e) [Suc i..<Suc i + n])"
    have same: "filter (due time (?e(i := x))) [Suc i..<Suc i + n] = filter (due time ?e) [Suc i..<Suc i + n]" for x
      by (rule filter_cong) (auto simp: due_def)
    have fresh: "i \<notin> set D" by (auto simp: D_def dest: in_set_takeD)
    have mapD: "map (?e(i := x)) D = map ?e D" for x using fresh by (intro map_cong) auto
    have p: "packetEntries sim1 = ?e(i := (?e i)\<lparr>pe_packetData := []\<rparr>)" "numPendingReceivePackets sim1 = ?m + 1"
      by (simp_all add: sim1_def)
    have r: "0 \<le> numPendingReceivePackets sim1" "numPendingReceivePackets sim1 \<le> 16384" using Suc.prems 3(2) p(2) by auto
    note IH = Suc.IH[of sim1 "Suc i", OF r, unfolded Let_def p same, folded D_def, unfolded mapD]
    have "nat (?m + 1) = Suc (nat ?m)" "16384 - nat ?m = Suc (16384 - nat (?m + 1))" using Suc.prems 3(2) by auto
    then have cons: "take (16384 - nat ?m) (filter (due time ?e) [i..<i + Suc n]) = i # D"
      using 3(1) unfolding upt by (simp add: D_def)
    have "update_loop i (Suc n) time sim = update_loop (Suc i) n time sim1"
      using 3 Suc.prems by (simp add: due_def sim1_def)
    with IH fresh \<open>nat (?m + 1) = Suc (nat ?m)\<close> show ?thesis
      unfolding cons Let_def by (simp add: sim1_def filled_simps taken_simps del: update_loop.simps)
  qed
qed


lemma receive_loop_eq:
  assumes "i + n \<le> 16384" and "int (length found) \<le> maxPackets"
  shows "receive_loop i n to maxPackets found sim =
    (let D = take (nat maxPackets - length found) (filter (\<lambda>j. for_receiver to (pendingReceivePackets sim j)) [i..<i + n]) in
     Some (found @ map (\<lambda>j. (pe_packetData (pendingReceivePackets sim j), pe_from (pendingReceivePackets sim j))) D,
       sim\<lparr>pendingReceivePackets := taken (set D) (pendingReceivePackets sim)\<rparr>))"
  using assms
proof (induction n arbitrary: i found sim)
  case 0
  then show ?case by (simp add: taken_simps)
next
  case (Suc n)
  let ?p = "pendingReceivePackets sim"
  have upt: "[i..<i + Suc n] = i # [Suc i..<Suc i + n]" by (simp add: upt_conv_Cons)
  consider "int (length found) = maxPackets" | "int (length found) < maxPackets" "\<not> for_receiver to (?p i)"
    | "int (length found) < maxPackets" "for_receiver to (?p i)" using Suc.prems(2) by linarith
  then show ?case
  proof cases
    case 1
    then show ?thesis by (simp add: taken_simps)
  next
    case 2
    then have "receive_loop i (Suc n) to maxPackets found sim = receive_loop (Suc i) n to maxPackets found sim"
      using Suc.prems(1) by (auto simp: for_receiver_def Let_def)
    with Suc.IH[of "Suc i" found sim] Suc.prems 2(2) show ?thesis unfolding upt by (simp del: receive_loop.simps)
  next
    case 3
    define sim1 where "sim1 = sim\<lparr>pendingReceivePackets := ?p(i := (?p i)\<lparr>pe_packetData := []\<rparr>)\<rparr>"
    define found1 where "found1 = found @ [(pe_packetData (?p i), pe_from (?p i))]"
    define D where "D = take (nat maxPackets - Suc (length found)) (filter (\<lambda>j. for_receiver to (?p j)) [Suc i..<Suc i + n])"
    have same: "filter (\<lambda>j. for_receiver to ((?p(i := x)) j)) [Suc i..<Suc i + n] = filter (\<lambda>j. for_receiver to (?p j)) [Suc i..<Suc i + n]" for x
      by (rule filter_cong) auto
    have fresh: "i \<notin> set D" by (auto simp: D_def dest: in_set_takeD)
    have mapD: "map (\<lambda>j. (pe_packetData ((?p(i := x)) j), pe_from ((?p(i := x)) j))) D = map (\<lambda>j. (pe_packetData (?p j), pe_from (?p j))) D" for x
      using fresh by (intro map_cong) auto
    have p: "pendingReceivePackets sim1 = ?p(i := (?p i)\<lparr>pe_packetData := []\<rparr>)" "length found1 = Suc (length found)"
      by (simp_all add: sim1_def found1_def)
    have r: "Suc i + n \<le> 16384" "int (length found1) \<le> maxPackets" using Suc.prems(1) 3(1) p(2) by auto
    note IH = Suc.IH[of "Suc i" found1 sim1, OF r, unfolded Let_def p same, folded D_def, unfolded mapD]
    have "nat maxPackets - length found = Suc (nat maxPackets - Suc (length found))" using 3(1) by linarith
    then have cons: "take (nat maxPackets - length found) (filter (\<lambda>j. for_receiver to (?p j)) [i..<i + Suc n]) = i # D"
      using 3(2) unfolding upt by (simp add: D_def)
    have "receive_loop i (Suc n) to maxPackets found sim = receive_loop (Suc i) n to maxPackets found1 sim1"
      using 3 Suc.prems(1) by (simp add: for_receiver_def sim1_def found1_def Let_def)
    with IH fresh show ?thesis
      unfolding cons Let_def by (simp add: sim1_def found1_def taken_simps del: receive_loop.simps)
  qed
qed


subsection \<open>The random numbers\<close>

lemma xor_zero_eq: "x XOR y = 0 \<Longrightarrow> y = (x :: u64)"
proof -
  assume "x XOR y = 0"
  then have "x XOR (x XOR y) = x" by simp
  then show "y = x" by (simp flip: xor.assoc)
qed

lemma xor_drop_bit_zero: "x XOR drop_bit n x = 0 \<Longrightarrow> 0 < n \<Longrightarrow> x = (0 :: u64)"
proof (rule ccontr)
  assume x: "x XOR drop_bit n x = 0" "0 < n" "x \<noteq> 0"
  have "unat x = unat x div 2 ^ n" using xor_zero_eq[OF x(1)] by (metis unat_drop_bit_eq drop_bit_eq_div)
  moreover have "unat x \<noteq> 0" using x(3) by (simp add: unat_eq_0)
  then have "unat x div 2 ^ n < unat x" using x(2) one_less_power[of "2 :: nat" n] by (intro div_less_dividend) simp_all
  ultimately show False by simp
qed

lemma xor_push_bit_zero: "x XOR push_bit n x = 0 \<Longrightarrow> 0 < n \<Longrightarrow> x = (0 :: u64)"
proof -
  assume eq: "x XOR push_bit n x = 0" and n: "0 < n"
  have "\<not> bit x j" for j
  proof (induction j rule: less_induct)
    case (less j)
    have "bit x j \<Longrightarrow> n \<le> j \<and> bit x (j - n)"
      using xor_zero_eq[OF eq] bit_push_bit_iff[of n x j] by simp
    with less[of "j - n"] n show ?case by fastforce
  qed
  then show "x = 0" by (intro bit_word_eqI) simp
qed

lemma rng_nonzero: "rngState sim \<noteq> 0 \<Longrightarrow> rngState (snd (randomUint64 sim)) \<noteq> 0"
proof -
  define x1 where "x1 = rngState sim XOR drop_bit 12 (rngState sim)"
  define x2 where "x2 = x1 XOR push_bit 25 x1"
  define x3 where "x3 = x2 XOR drop_bit 27 x2"
  assume "rngState sim \<noteq> 0"
  then have "x1 \<noteq> 0" unfolding x1_def using xor_drop_bit_zero[of "rngState sim" 12] by fastforce
  then have "x2 \<noteq> 0" unfolding x2_def using xor_push_bit_zero[of x1 25] by fastforce
  then have "x3 \<noteq> 0" unfolding x3_def using xor_drop_bit_zero[of x2 27] by fastforce
  then show ?thesis by (simp add: randomUint64_def Let_def x3_def x2_def x1_def)
qed

subsection \<open>The simulator as a machine\<close>

definition sim_inv :: "Simulator \<Rightarrow> bool" where
  "sim_inv sim \<longleftrightarrow> rngState sim \<noteq> 0 \<and> 0 \<le> currentIndex sim \<and> currentIndex sim < int simulatorNumPacketEntries \<and>
     0 \<le> numPendingReceivePackets sim \<and> numPendingReceivePackets sim \<le> int simulatorNumPendingReceivePackets"

text \<open>The calls, and the assignments to the public fields.\<close>

datatype sim_op =
    SimSet float32 float32 float32 float32
  | SimSendPacket Address Address "byte list"
  | SimReceivePackets Address int
  | SimUpdate float64
  | SimReset

fun sim_exec :: "sim_op \<Rightarrow> Simulator \<Rightarrow> Simulator option" where
  "sim_exec (SimSet l j p d) sim = Some (sim\<lparr>LatencyMilliseconds := l, JitterMilliseconds := j, PacketLossPercent := p, DuplicatePacketPercent := d\<rparr>)"
| "sim_exec (SimSendPacket from to packetData) sim = simulator_SendPacket from to packetData sim"
| "sim_exec (SimReceivePackets to maxPackets) sim = map_option snd (simulator_ReceivePackets to maxPackets sim)"
| "sim_exec (SimUpdate time) sim = simulator_Update time sim"
| "sim_exec SimReset sim = simulator_Reset sim"

definition sim_init :: "Simulator \<Rightarrow> bool" where "sim_init sim \<longleftrightarrow> sim = NewNetworkSimulator"

lemma randomFloat_fields:
  "\<exists>x. snd (randomFloat a b sim) = sim\<lparr>rngState := x\<rparr> \<and> (rngState sim \<noteq> 0 \<longrightarrow> x \<noteq> 0)"
  using rng_nonzero[of sim] by (auto simp: randomFloat_def randomUint64_def Let_def split: prod.splits)

lemma randomFloat_inv: "sim_inv sim \<Longrightarrow> sim_inv (snd (randomFloat a b sim))"
  using randomFloat_fields[of a b sim] by (auto simp: sim_inv_def)

lemma queuePacket_eq:
  "sim_inv sim \<Longrightarrow> queuePacket from to d delay sim =
    Some (sim\<lparr>packetEntries := (packetEntries sim)(nat (currentIndex sim) :=
        \<lparr>pe_from = from, pe_to = to, pe_deliveryTime = sim_time sim + delay, pe_packetData = d\<rparr>),
      currentIndex := (currentIndex sim + 1) mod 65536\<rparr>)"
  by (simp add: queuePacket_def sim_inv_def)

lemma queuePacket_inv: "sim_inv sim \<Longrightarrow> \<exists>sim'. queuePacket from to d delay sim = Some sim' \<and> sim_inv sim'"
  by (simp add: queuePacket_eq) (simp add: sim_inv_def)

lemma SendPacket_inv: "sim_inv sim \<Longrightarrow> \<exists>sim'. simulator_SendPacket from to d sim = Some sim' \<and> sim_inv sim'"
proof -
  assume inv: "sim_inv sim"
  obtain loss sim1 where l: "randomFloat 0 100 sim = (loss, sim1)" "sim_inv sim1" using randomFloat_inv[OF inv, of 0 100] by (cases "randomFloat 0 100 sim") auto
  define jittered where "jittered = (if JitterMilliseconds sim1 > 0
    then let (jitter, sim) = randomFloat (- JitterMilliseconds sim1) (JitterMilliseconds sim1) sim1 in (LatencyMilliseconds sim1 / 1000 + jitter / 1000, sim)
    else (LatencyMilliseconds sim1 / 1000, sim1))"
  obtain delay sim2 where d: "jittered = (delay, sim2)" "sim_inv sim2"
    using randomFloat_inv[OF l(2), of "- JitterMilliseconds sim1" "JitterMilliseconds sim1"] l(2) by (cases jittered) (auto simp: jittered_def split: if_splits prod.splits)
  obtain sim3 where q: "queuePacket from to d delay sim2 = Some sim3" "sim_inv sim3" using queuePacket_inv[OF d(2)] by blast
  obtain dup sim4 where u: "randomFloat 0 100 sim3 = (dup, sim4)" "sim_inv sim4" using randomFloat_inv[OF q(2), of 0 100] by (cases "randomFloat 0 100 sim3") auto
  obtain extra sim5 where e: "randomFloat 0 1 sim4 = (extra, sim5)" "sim_inv sim5" using randomFloat_inv[OF u(2), of 0 1] by (cases "randomFloat 0 1 sim4") auto
  obtain sim6 where "queuePacket from to d (delay + extra) sim5 = Some sim6" "sim_inv sim6" using queuePacket_inv[OF e(2)] by blast
  with l d q u e show ?thesis
    by (simp add: simulator_SendPacket_def Let_def flip: jittered_def)
qed


text \<open>The entries a call of \<open>Update\<close> moves to the receive buffer, in the order of the table.\<close>

definition delivered_entries :: "float64 \<Rightarrow> Simulator \<Rightarrow> nat list" where
  "delivered_entries t sim =
     take simulatorNumPendingReceivePackets (filter (due t (packetEntries sim)) [0..<simulatorNumPacketEntries])"

lemma length_delivered: "length (delivered_entries t sim) \<le> 16384"
  by (simp add: delivered_entries_def del: upt_rec_numeral)

lemma pending_bound: "sim_inv sim \<Longrightarrow> 0 + nat (numPendingReceivePackets sim) \<le> 16384"
  by (simp add: sim_inv_def nat_le_iff)

lemma Update_eq:
  assumes "sim_inv sim"
  shows "simulator_Update time sim =
     Some (sim\<lparr>sim_time := time,
       pendingReceivePackets := filled 0 (map (packetEntries sim) (delivered_entries time sim))
         (mapped (\<lambda>e. e\<lparr>pe_packetData := []\<rparr>) 0 (nat (numPendingReceivePackets sim)) (pendingReceivePackets sim)),
       numPendingReceivePackets := int (length (delivered_entries time sim)),
       packetEntries := taken (set (delivered_entries time sim)) (packetEntries sim)\<rparr>)"
proof -
  let ?g = "\<lambda>e :: simulatorPacketEntry. e\<lparr>pe_packetData := []\<rparr>" and ?D = "delivered_entries time sim"
  define sim1 where "sim1 = sim\<lparr>sim_time := time,
    pendingReceivePackets := mapped ?g 0 (nat (numPendingReceivePackets sim)) (pendingReceivePackets sim), numPendingReceivePackets := 0\<rparr>"
  have p: "numPendingReceivePackets sim1 = 0" "packetEntries sim1 = packetEntries sim" by (simp_all add: sim1_def)
  have D: "take (16384 - nat 0) (filter (due time (packetEntries sim)) [0..<0 + simulatorNumPacketEntries]) = ?D"
    unfolding delivered_entries_def by (simp del: simulatorNumPacketEntries_def)
  note u = update_loop_eq[of sim1 0 simulatorNumPacketEntries time, unfolded Let_def p D]
  have "simulator_Update time sim = update_loop 0 simulatorNumPacketEntries time sim1"
    using pending_loop[OF pending_bound[OF assms], of ?g "sim\<lparr>sim_time := time\<rparr>"]
    by (simp add: simulator_Update_def sim1_def del: simulatorNumPacketEntries_def)
  also have "\<dots> = Some (sim1\<lparr>pendingReceivePackets := filled 0 (map (packetEntries sim) ?D) (pendingReceivePackets sim1),
       numPendingReceivePackets := int (length ?D), packetEntries := taken (set ?D) (packetEntries sim)\<rparr>)"
    using u by (simp del: simulatorNumPacketEntries_def)
  finally show ?thesis by (simp add: sim1_def)
qed

lemma Update_inv: "sim_inv sim \<Longrightarrow> \<exists>sim'. simulator_Update time sim = Some sim' \<and> sim_inv sim'"
  using Update_eq[of sim time] length_delivered[of time sim] by (simp add: sim_inv_def)

lemma ReceivePackets_eq:
  assumes "sim_inv sim" and "0 \<le> maxPackets"
  shows "simulator_ReceivePackets to maxPackets sim =
    (let D = take (nat maxPackets) (filter (\<lambda>j. for_receiver to (pendingReceivePackets sim j)) [0..<nat (numPendingReceivePackets sim)]) in
     Some (map (\<lambda>j. (pe_packetData (pendingReceivePackets sim j), pe_from (pendingReceivePackets sim j))) D,
       sim\<lparr>pendingReceivePackets := taken (set D) (pendingReceivePackets sim)\<rparr>))"
proof -
  from receive_loop_eq[OF pending_bound[OF assms(1)], of "[]" maxPackets to sim] assms(2) show ?thesis by (simp add: simulator_ReceivePackets_def)
qed

lemma sim_inv_pending [simp]: "sim_inv (sim\<lparr>pendingReceivePackets := p\<rparr>) = sim_inv sim"
  by (simp add: sim_inv_def)

lemma receive_loop_inv:
  "i + n \<le> 16384 \<Longrightarrow> sim_inv sim \<Longrightarrow> \<exists>found' sim'. receive_loop i n to maxPackets found sim = Some (found', sim') \<and> sim_inv sim'"
  by (induction n arbitrary: i found sim) (simp_all add: Let_def)

lemma ReceivePackets_inv:
  "sim_inv sim \<Longrightarrow> \<exists>out sim'. simulator_ReceivePackets to maxPackets sim = Some (out, sim') \<and> sim_inv sim'"
  unfolding simulator_ReceivePackets_def by (rule receive_loop_inv[OF pending_bound])

lemma Reset_inv: "sim_inv sim \<Longrightarrow> \<exists>sim'. simulator_Reset sim = Some sim' \<and> sim_inv sim'"
proof -
  assume "sim_inv sim"
  from pending_loop[OF pending_bound[OF this], of "\<lambda>_. zeroPacketEntry" "sim\<lparr>packetEntries := (\<lambda>_. zeroPacketEntry)\<rparr>"]
  show ?thesis by (simp add: simulator_Reset_def sim_inv_def simulatorRNGSeed_def)
qed

interpretation simulator: machine sim_init "\<lambda>_. True" sim_exec sim_inv "\<lambda>_ _. False"
proof
  show "sim_inv s" if "sim_init s" for s
    using that by (simp add: sim_init_def sim_inv_def NewNetworkSimulator_def simulatorRNGSeed_def)
  show "\<exists>s'. sim_exec op s = Some s' \<and> sim_inv s'" if "sim_inv s" for s op
  proof (cases op)
    case (SimReceivePackets to n)
    then show ?thesis using ReceivePackets_inv[OF that, of to n] by auto
  qed (use that SendPacket_inv Update_inv Reset_inv in \<open>auto simp: sim_inv_def\<close>)
qed simp

abbreviation sim_reachable :: "Simulator \<Rightarrow> bool" where
  "sim_reachable \<equiv> reachable sim_init (\<lambda>_. True) sim_exec"


section \<open>Properties of the simulator\<close>

text \<open>
  C38: no call of the network simulator panics, whatever the settings and whatever happened before, and
  its state stays consistent: the write index is inside the table, the receive buffer is not
  overfilled, and the random number generator never gets stuck in its fixed point 0.
\<close>

theorem simulator_consistent:
  assumes "sim_reachable sim"
  shows "\<exists>sim'. sim_exec op sim = Some sim' \<and> rngState sim' \<noteq> 0 \<and>
    0 \<le> currentIndex sim' \<and> currentIndex sim' < int simulatorNumPacketEntries \<and>
    0 \<le> numPendingReceivePackets sim' \<and> numPendingReceivePackets sim' \<le> int simulatorNumPendingReceivePackets"
proof -
  have "\<exists>sim'. sim_exec op sim = Some sim' \<and> sim_inv sim'"
    by (rule simulator.exec_inv[OF simulator.reach_inv[OF assms]]) simp_all
  then show ?thesis by (auto simp: sim_inv_def)
qed

theorem simulator_consistent_witness:
  "\<exists>sim'. sim_exec (SimSendPacket zeroAddress zeroAddress [1]) NewNetworkSimulator = Some sim' \<and> rngState sim' \<noteq> 0"
proof -
  have "sim_reachable NewNetworkSimulator" by (rule reachable.created) (simp add: sim_init_def)
  from simulator_consistent[OF this] show ?thesis by blast
qed

lemma filter_nth: "filter p xs = map ((!) xs) (filter (\<lambda>j. p (xs ! j)) [0..<length xs])"
proof -
  have "filter p (map ((!) xs) [0..<length xs]) = map ((!) xs) (filter (p \<circ> (!) xs) [0..<length xs])" by (rule filter_map)
  then show ?thesis by (simp add: map_nth o_def)
qed

text \<open>
  C39: what the simulator delivers. After an update to some time, a receiver gets the packets in flight
  that are due at that time and addressed to it, in the order of the table and up to its limit, each
  with its sender; of all due packets the first 16384 can be received. What was received is gone, and
  so is every due packet that is not picked up before the next update.
\<close>

theorem simulator_delivers:
  assumes "sim_reachable sim" and "0 \<le> maxPackets"
  shows "\<exists>sim1 sim2. simulator_Update time sim = Some sim1 \<and>
    simulator_ReceivePackets to maxPackets sim1 =
      Some (map (\<lambda>e. (pe_packetData e, pe_from e)) (take (nat maxPackets) (filter (\<lambda>e. Equal (pe_to e) to)
        (take simulatorNumPendingReceivePackets (filter (\<lambda>e. pe_packetData e \<noteq> [] \<and> pe_deliveryTime e \<le> time)
          (map (packetEntries sim) [0..<simulatorNumPacketEntries]))))), sim2) \<and>
    packetEntries sim2 = taken (set (delivered_entries time sim)) (packetEntries sim)"
proof -
  have inv: "sim_inv sim" by (rule simulator.reach_inv[OF assms(1)])
  let ?D = "delivered_entries time sim"
  define ds where "ds = map (packetEntries sim) ?D"
  obtain sim1 where sim1: "simulator_Update time sim = Some sim1" "sim_inv sim1" using Update_inv[OF inv] by blast
  then have f: "numPendingReceivePackets sim1 = int (length ds)" "packetEntries sim1 = taken (set ?D) (packetEntries sim)"
    "\<And>j. j < length ds \<Longrightarrow> pendingReceivePackets sim1 j = ds ! j"
    using Update_eq[OF inv, of time] by (auto simp: ds_def filled_def)
  let ?E = "take (nat maxPackets) (filter (\<lambda>j. for_receiver to (pendingReceivePackets sim1 j)) [0..<length ds])"
  obtain sim2 where sim2: "simulator_ReceivePackets to maxPackets sim1 =
      Some (map (\<lambda>j. (pe_packetData (pendingReceivePackets sim1 j), pe_from (pendingReceivePackets sim1 j))) ?E, sim2)"
    "packetEntries sim2 = packetEntries sim1"
    using ReceivePackets_eq[OF sim1(2) assms(2), of to] f(1) by (simp add: Let_def)
  have ds: "ds = take simulatorNumPendingReceivePackets (filter (\<lambda>e. pe_packetData e \<noteq> [] \<and> pe_deliveryTime e \<le> time)
      (map (packetEntries sim) [0..<simulatorNumPacketEntries]))"
    unfolding ds_def delivered_entries_def due_def filter_map by (simp only: take_map o_def)
  have "\<forall>e \<in> set ds. pe_packetData e \<noteq> []" unfolding ds by (auto dest: in_set_takeD)
  then have "filter (\<lambda>e. Equal (pe_to e) to) ds = filter (for_receiver to) ds"
    by (intro filter_cong) (auto simp: for_receiver_def)
  also have "\<dots> = map ((!) ds) (filter (\<lambda>j. for_receiver to (ds ! j)) [0..<length ds])" by (rule filter_nth)
  also have "filter (\<lambda>j. for_receiver to (ds ! j)) [0..<length ds] = filter (\<lambda>j. for_receiver to (pendingReceivePackets sim1 j)) [0..<length ds]"
    by (rule filter_cong) (auto simp: f(3))
  finally have "take (nat maxPackets) (filter (\<lambda>e. Equal (pe_to e) to) ds) = map ((!) ds) ?E" by (simp add: take_map)
  moreover have "map ((!) ds) ?E = map (pendingReceivePackets sim1) ?E"
    by (rule map_cong) (auto simp: f(3) dest: in_set_takeD)
  ultimately show ?thesis using sim1(1) sim2 f(2) unfolding ds[symmetric] by (auto simp: o_def)
qed


definition sample_receiver :: Address where
  "sample_receiver = \<lparr>Type = AddressIPv4, IPv4 = [127, 0, 0, 1], IPv6 = replicate 8 0, Port = 40000\<rparr>"

theorem simulator_delivers_witness:
  "\<exists>sim sim1 sim2. sim_exec (SimSendPacket zeroAddress sample_receiver [1]) NewNetworkSimulator = Some sim \<and>
    simulator_Update 1 sim = Some sim1 \<and>
    simulator_ReceivePackets sample_receiver 64 sim1 =
      Some (map (\<lambda>e. (pe_packetData e, pe_from e)) (take 64 (filter (\<lambda>e. Equal (pe_to e) sample_receiver)
        (take simulatorNumPendingReceivePackets (filter (\<lambda>e. pe_packetData e \<noteq> [] \<and> pe_deliveryTime e \<le> 1)
          (map (packetEntries sim) [0..<simulatorNumPacketEntries]))))), sim2)"
proof -
  have new: "sim_reachable NewNetworkSimulator" by (rule reachable.created) (simp add: sim_init_def)
  obtain sim where sim: "sim_exec (SimSendPacket zeroAddress sample_receiver [1]) NewNetworkSimulator = Some sim"
    using SendPacket_inv[OF simulator.reach_inv[OF new]] by fastforce
  from reachable.called[OF new _ this] have "sim_reachable sim" by simp
  from simulator_delivers[OF this, of 64 1 sample_receiver] sim show ?thesis by auto
qed

text \<open>The 24 bits of a random number that decide.\<close>

definition decisive :: "Simulator \<Rightarrow> u64" where
  "decisive sim = drop_bit 40 (fst (randomUint64 sim))"

definition next_random :: "Simulator \<Rightarrow> Simulator" where
  "next_random sim = snd (randomUint64 sim)"

lemma randomFloat_eq: "randomFloat a b sim = (a + of_nat (unat (decisive sim)) / 2 ^ 24 * (b - a), next_random sim)"
  by (simp add: randomFloat_def decisive_def next_random_def Let_def split: prod.splits)

lemma randomFloat_zero: "fst (randomFloat 0 100 sim) \<le> 0 \<longleftrightarrow> decisive sim = 0"
  by (simp add: randomFloat_eq mult_le_0_iff divide_le_0_iff unat_eq_0 del: of_nat_unat)

lemma next_random_fields [simp]:
  "packetEntries (next_random sim) = packetEntries sim" "currentIndex (next_random sim) = currentIndex sim"
  "sim_time (next_random sim) = sim_time sim" "PacketLossPercent (next_random sim) = PacketLossPercent sim"
  "LatencyMilliseconds (next_random sim) = LatencyMilliseconds sim" "JitterMilliseconds (next_random sim) = JitterMilliseconds sim"
  "DuplicatePacketPercent (next_random sim) = DuplicatePacketPercent sim"
  by (simp_all add: next_random_def randomUint64_def Let_def)

lemma next_random_inv: "sim_inv sim \<Longrightarrow> sim_inv (next_random sim)"
  using randomFloat_inv[of sim 0 1] by (simp add: randomFloat_eq)

lemma random_rng_only:
  "rngState sim = rngState sim' \<Longrightarrow> decisive sim = decisive sim' \<and> rngState (next_random sim) = rngState (next_random sim')"
  by (simp add: decisive_def next_random_def randomUint64_def Let_def)

text \<open>
  C40: what a network with all settings zero does to a packet. It is queued for delivery at once, with
  two exceptions: it is dropped if the upper 24 bits of the next random number are zero, and queued a
  second time, up to a second later, if those of the random number after it are zero. Such random
  numbers occur, so the perfect network of the documentation loses and duplicates packets.
\<close>

theorem perfect_network:
  assumes "sim_inv sim" and "LatencyMilliseconds sim = 0" and "JitterMilliseconds sim = 0"
    and "PacketLossPercent sim = 0" and "DuplicatePacketPercent sim = 0"
  shows "\<exists>sim'. simulator_SendPacket from to packetData sim = Some sim' \<and>
    packetEntries sim' =
      (let k = nat (currentIndex sim); entry = \<lparr>pe_from = from, pe_to = to, pe_deliveryTime = sim_time sim, pe_packetData = packetData\<rparr> in
       if decisive sim = 0 then packetEntries sim
       else if decisive (next_random sim) = 0
       then (packetEntries sim)(k := entry, nat ((currentIndex sim + 1) mod int simulatorNumPacketEntries) :=
         entry\<lparr>pe_deliveryTime := sim_time sim + of_nat (unat (decisive (next_random (next_random sim)))) / 2 ^ 24\<rparr>)
       else (packetEntries sim)(k := entry))"
proof -
  let ?sim1 = "next_random sim"
  let ?e = "\<lparr>pe_from = from, pe_to = to, pe_deliveryTime = sim_time sim, pe_packetData = packetData\<rparr>"
  define sim2 where "sim2 = ?sim1\<lparr>packetEntries := (packetEntries sim)(nat (currentIndex sim) := ?e),
    currentIndex := (currentIndex sim + 1) mod 65536\<rparr>"
  have inv1: "sim_inv ?sim1" by (rule next_random_inv[OF assms(1)])
  have q: "queuePacket from to packetData 0 ?sim1 = Some sim2"
    using queuePacket_eq[OF inv1, of "from" to packetData 0] by (simp add: sim2_def)
  have inv2: "sim_inv sim2" using queuePacket_inv[OF inv1, of "from" to packetData 0] q by simp
  have dec: "decisive sim2 = decisive ?sim1" "decisive (next_random sim2) = decisive (next_random ?sim1)"
    using random_rng_only[of sim2 ?sim1] random_rng_only[of "next_random sim2" "next_random ?sim1"] by (simp_all add: sim2_def)
  have z: "fst (randomFloat 0 100 s) \<le> 0 \<longleftrightarrow> decisive s = 0" "snd (randomFloat 0 100 s) = next_random s"
    "randomFloat 0 1 s = (of_nat (unat (decisive s)) / 2 ^ 24, next_random s)" for s
    using randomFloat_zero[of s] by (simp_all add: randomFloat_eq)
  have "simulator_SendPacket from to packetData sim =
      (if decisive sim = 0 then Some ?sim1
       else if decisive ?sim1 = 0
       then queuePacket from to packetData (of_nat (unat (decisive (next_random ?sim1))) / 2 ^ 24) (next_random (next_random sim2))
       else Some (next_random sim2))"
    using assms(2-5) z(1)[of sim] z(1)[of sim2]
    by (simp add: simulator_SendPacket_def Let_def split_beta z(2,3) q dec del: of_nat_unat) (simp add: sim2_def)
  then show ?thesis
    using queuePacket_eq[OF next_random_inv[OF next_random_inv[OF inv2]], of "from" to packetData]
    by (simp add: Let_def del: of_nat_unat) (simp add: sim2_def)
qed

theorem perfect_network_witness:
  "(\<exists>sim. simulator_SendPacket zeroAddress zeroAddress [1] (NewNetworkSimulator\<lparr>rngState := 0x98D76A164D99A710\<rparr>) = Some sim \<and>
      packetEntries sim = (\<lambda>_. zeroPacketEntry)) \<and>
   (\<exists>sim. simulator_SendPacket zeroAddress zeroAddress [1] NewNetworkSimulator = Some sim \<and>
      packetEntries sim 0 = \<lparr>pe_from = zeroAddress, pe_to = zeroAddress, pe_deliveryTime = 0, pe_packetData = [1]\<rparr>)"
proof -
  have inv: "sim_inv (NewNetworkSimulator\<lparr>rngState := 0x98D76A164D99A710\<rparr>)" "sim_inv NewNetworkSimulator"
    by (simp_all add: sim_inv_def NewNetworkSimulator_def simulatorRNGSeed_def)
  have d: "decisive (NewNetworkSimulator\<lparr>rngState := 0x98D76A164D99A710\<rparr>) = 0" "decisive NewNetworkSimulator \<noteq> 0"
    "decisive (next_random NewNetworkSimulator) \<noteq> 0"
    by (simp_all add: decisive_def next_random_def randomUint64_def NewNetworkSimulator_def simulatorRNGSeed_def Let_def)
  have f: "LatencyMilliseconds NewNetworkSimulator = 0" "JitterMilliseconds NewNetworkSimulator = 0"
    "PacketLossPercent NewNetworkSimulator = 0" "DuplicatePacketPercent NewNetworkSimulator = 0" "currentIndex NewNetworkSimulator = 0"
    "sim_time NewNetworkSimulator = 0" "packetEntries NewNetworkSimulator = (\<lambda>_. zeroPacketEntry)"
    by (simp_all add: NewNetworkSimulator_def)
  from perfect_network[OF inv(1), of zeroAddress zeroAddress "[1]"] perfect_network[OF inv(2), of zeroAddress zeroAddress "[1]"] d
  show ?thesis by (auto simp: f Let_def)
qed

end
