(* ===== verification/Spec2Isabelle.thy ===== *)
theory Spec2Isabelle
  imports Connection Server_Restart Creation Simulator
begin

text \<open>
  A verification development for \<^verbatim>\<open>netcode.go\<close>, a Go implementation of the netcode connection protocol.
  A web backend generates a connect token for a player. The client presents the token to a dedicated
  server over UDP, answers an encrypted challenge and gets one of the server's slots; from then on the
  two exchange encrypted packets, keep each other alive, and notice when the other is gone.

  \<^bold>\<open>Conventions.\<close> A panic of the Go code is \<open>None\<close> in an option monad, and a Go \<open>error\<close> is a value inside it
  (\<open>Netcode_Prelude\<close>). Machine integers are words of their width and wrap around; \<open>int\<close> of Go is \<open>int\<close>, and
  \<open>float32\<close> and \<open>float64\<close> are rationals. A fixed array is a function on indices with every access checked
  against its length, a slice is a list, a nil-able pointer is an option. Clock readings, random bytes and the
  packets that arrive are arguments of the operations. What leaves (packets, callbacks) is appended to an event
  log in the state. The ciphers of \<^verbatim>\<open>golang.org/x/crypto\<close> are the argument \<open>C\<close> of type \<open>crypto\<close>; \<open>crypto_ok\<close> says
  that sealing adds 16 bytes, opening undoes sealing, and nothing opens that was not sealed under the same key,
  nonce and additional data. The operating system is the argument \<open>os\<close> of the socket operations,
  and the table of open connections is passed through them. The witnesses
  instantiate \<open>C\<close> with \<open>checksum_crypto\<close>, a concrete cipher that satisfies \<open>crypto_ok\<close>.

  \<^bold>\<open>The parts of the program and their theories.\<close>
  \<^item> \<^verbatim>\<open>netcode.go\<close>, the constants and client states: \<open>Netcode_Package\<close>.
  \<^item> \<^verbatim>\<open>buffer.go\<close>, the cursors over byte slices: \<open>Buffer\<close>. Locale \<open>codec\<close> is the contract of a writer and a reader
    that agree, interpreted for every integer width, for byte blocks and, in \<open>Token\<close>, for addresses.
  \<^item> \<^verbatim>\<open>replay.go\<close>, the replay window, and \<^verbatim>\<open>queue.go\<close>, the queue of received payloads: \<open>Replay\<close> and \<open>Packet_Queue\<close>. Locales
    \<open>replay_window\<close> and \<open>bounded_fifo\<close> are their contracts over a set and a list.
  \<^item> \<^verbatim>\<open>address.go\<close>: \<open>Address\<close> (type, equality with locale \<open>address_eq\<close>, ports) and \<open>Address_Text\<close> (\<open>ParseAddress\<close>, \<open>String\<close>,
    the conversions for the socket interface), over \<open>Netip\<close>, a model of what the code uses of Go's \<^verbatim>\<open>net/netip\<close>.
  \<^item> \<^verbatim>\<open>crypto.go\<close>: \<open>Crypto\<close>. \<^verbatim>\<open>token.go\<close>: \<open>Token\<close> (formats and encryption) and \<open>Token_Generation\<close>
    (\<open>GenerateConnectToken\<close>). \<^verbatim>\<open>packet.go\<close>: \<open>Packet\<close>.
  \<^item> \<^verbatim>\<open>token_entries.go\<close>: \<open>Token_Entries\<close>. \<^verbatim>\<open>encryption.go\<close>: \<open>Encryption_Manager\<close>, with locale \<open>key_table\<close>.
  \<^item> \<^verbatim>\<open>socket.go\<close>: \<open>Transport\<close> (dispatch of a packet, the event log) and \<open>Sockets\<close> (opening, the reader goroutine and
    its channel, with \<^verbatim>\<open>bind_error_unix.go\<close> and the traffic class of \<^verbatim>\<open>tagging_unix.go\<close>).
  \<^item> \<^verbatim>\<open>server.go\<close>: \<open>Server\<close> holds the state and every operation. \<open>Server_Inv\<close>, \<open>Server_Connect\<close> and \<open>Server_Step\<close> show that
    each keeps the invariant and what it changes, \<open>Server_Run\<close> makes the calls of the application data,
    \<open>Server_Handshake\<close> follows the handshake exactly, \<open>Server_Properties\<close> and \<open>Server_Restart\<close> hold the properties.
  \<^item> \<^verbatim>\<open>client.go\<close>: \<open>Client\<close> holds the state and every operation, \<open>Client_Inv\<close> the invariant; the properties are in
    \<open>Client_Properties\<close>, \<open>Client_States\<close> and \<open>Client_Sequence\<close>.
  \<^item> \<open>NewClientDual\<close> and \<open>NewServerDual\<close>, which open sockets for both: \<open>Creation\<close>.
  \<^item> \<^verbatim>\<open>simulator.go\<close>: \<open>Simulator\<close>.
  \<^item> Client and server joined by a lossless network: \<open>Connection\<close>.

  Server, client and simulator are interpretations of the locale \<open>machine\<close> (\<open>Machine\<close>): initial states, calls as
  data, an invariant that every call keeps, and the calls that panic. Their properties are about every \<open>reachable\<close>
  state, of a client or server with any configuration.

  \<^bold>\<open>What is shown.\<close>
  \<^item> End to end: a client with a generated token and a server with room for it are connected after three
    exchanges and agree on slot and keys (\<open>connection_established\<close>); payloads then arrive in order in both
    directions (\<open>payloads_arrive\<close>).
  \<^item> Who gets in: valid tokens do (\<open>server_handshake\<close>), nothing else does (\<open>admission_needs_handshake\<close>), a token
    does so once (\<open>used_token_refused\<close>, \<open>restart_refuses_issued_tokens\<close>), accepted packets are authentic
    (\<open>encrypted_packet_authentic\<close>, \<open>request_authentic\<close>), and keep-alives, payloads and disconnects are not replayed
    (\<open>replay_at_most_once\<close>, \<open>replay_window_exact\<close>).
  \<^item> Robustness: whatever bytes arrive, a call on a reachable server or client panics exactly when it calls a nil
    callback (\<open>server_panics_exactly\<close>, \<open>client_panics_exactly\<close>), and none on a simulator does (\<open>simulator_consistent\<close>); the tables of the server and the fields
    of the client stay consistent; a packet is answered by at most one packet that is no longer, to its sender
    (\<open>no_amplification\<close>), and touches no other client (\<open>packet_isolated\<close>).
  \<^item> Time: keep-alives and timeouts of the server happen exactly when due, an unanswered client tries every
    server of its token at the pace of its updates and gives up (\<open>unanswered_client_searches\<close>,
    \<open>unanswered_client_tries_all\<close>).
  \<^item> The client's states follow the machine of the standard but for three steps that are named
    (\<open>client_state_machine\<close>), it never uses a sequence number twice under a key (\<open>client_sequence_never_reused\<close>).
  \<^item> Data: packets, tokens and addresses survive writing and reading; queue, channel and simulator refine bounded
    lists; creation leaks no connection (\<open>creation_leaks_no_connection\<close>) and opening one terminates.
  \<^item> Where the code departs from its documentation: the top sequence number is not protected against replay
    (\<open>replay_top_sequence_unprotected\<close>), an expired entry index consumes another token's entry
    (\<open>stale_entry_consumes_other_token\<close>), a denial can drop a connection just made (\<open>denial_drops_connection\<close>), a
    disconnected client moves on to the next server (\<open>disconnect_tries_next_server\<close>), the lifetime of a token
    is measured for each server anew (\<open>unanswered_client_searches\<close>), a simulator with all settings zero loses and duplicates packets (\<open>perfect_network\<close>).

  \<^bold>\<open>Bounds.\<close> No definition uses fuel: loops are structural recursion, or over a counter, or have a termination
  proof. Clock readings in seconds are assumed below \<open>2 ^ 63\<close> where a token is generated, and sequence numbers
  below \<open>2 ^ 64\<close> where packets are counted; the maximum lifetime added to the start time must not wrap around.

  \<^bold>\<open>Not modelled.\<close> Log output and its level. The programs under \<^verbatim>\<open>cmd\<close>, which parse flags, sleep, print and call the
  interface. The system calls behind sockets, the scheduling of the reader goroutine beyond the order of its
  steps, and rounding of floating point numbers. \<open>GenerateKey\<close>, \<open>generateNonce\<close> and \<open>RandomBytes\<close> deliver random bytes,
  which are arguments here. The Windows variants of the bind error test and of packet tagging differ from the
  Unix ones in error codes and in doing nothing. Accessors that return one field are read as that field.
  That random nonces and keys do not repeat is a matter of probability and outside these theorems.
\<close>

end
